(* ===== verification/Prelude.thy ===== *)
theory Prelude
  imports Main "HOL-Library.Word" "HOL-Library.Char_ord" "HOL-Library.List_Lexorder"
    "HOL-Library.Monad_Syntax"
begin

text \<open>
  Shared vocabulary of the development: the machine integers of the C++ code, the bytes of a
  character, little-endian integers, decimal numbers as \<open>std::to_string\<close>, \<open>std::stoi\<close> and
  \<open>std::stoul\<close> treat them, reads at a position of a byte buffer, and the collections of
  lemmas that the component theories extend.
\<close>

unbundle bit_operations_syntax

named_theorems wire_simps \<open>equations that run a reader over a buffer with known contents\<close>
named_theorems store_simps \<open>lookups after updates of the session stores\<close>

section \<open>Machine integers and bytes\<close>

type_synonym byte = "8 word"
type_synonym s32 = "32 word"
type_synonym u32 = "32 word"
type_synonym u64 = "64 word"

text \<open>A \<open>char\<close> of a \<open>std::string\<close> is one byte.\<close>

lemma unat_byte_less [simp]: "unat (b :: byte) < 256"
  using unsigned_less [of b] by simp

lemma unat_u64_less [simp]: "unat (w :: u64) < 2 ^ 64"
  using unsigned_less [of w] by simp

definition byte_of_char :: "char \<Rightarrow> byte" where
  "byte_of_char c = word_of_nat (of_char c)"

definition char_of_byte :: "byte \<Rightarrow> char" where
  "char_of_byte b = char_of (unat b)"

lemma char_of_byte_of_char [simp]: "char_of_byte (byte_of_char c) = c"
  by (simp add: char_of_byte_def byte_of_char_def unat_of_nat)

lemma byte_of_char_of_byte [simp]: "byte_of_char (char_of_byte b) = b"
proof -
  have "of_char (char_of (unat b)) = unat b"
    using unat_byte_less [of b] by simp
  then show ?thesis by (simp add: char_of_byte_def byte_of_char_def)
qed

definition bytes_of_string :: "string \<Rightarrow> byte list" where
  "bytes_of_string s = map byte_of_char s"

definition string_of_bytes :: "byte list \<Rightarrow> string" where
  "string_of_bytes bs = map char_of_byte bs"

lemma string_of_bytes_of_string [simp]: "string_of_bytes (bytes_of_string s) = s"
  by (simp add: string_of_bytes_def bytes_of_string_def comp_def)

lemma length_bytes_of_string [simp]: "length (bytes_of_string s) = length s"
  by (simp add: bytes_of_string_def)

lemma length_string_of_bytes [simp]: "length (string_of_bytes bs) = length bs"
  by (simp add: string_of_bytes_def)

text \<open>Storing a small count in a byte and reading it back.\<close>

lemma unat_byte_of_nat [simp]: "n < 256 \<Longrightarrow> unat (word_of_nat n :: byte) = n"
  by (simp add: unat_of_nat)

lemma ucast_ucast_byte:
  fixes w :: "'a::len word"
  assumes "unat w < 256"
  shows "ucast (ucast w :: byte) = w"
proof -
  have "unat (ucast w :: byte) = unat w"
    using assms by (simp add: unsigned_ucast_eq take_bit_eq_mod)
  then have "unat (ucast (ucast w :: byte) :: 'a word) = unat w"
    by (simp add: unsigned_ucast_eq) (metis take_bit_eq_mod unsigned_take_bit_eq take_bit_length_eq)
  then show ?thesis by (simp add: word_unat_eq_iff)
qed

lemma ucast_byte_up [simp]:
  fixes b :: byte
  shows "(ucast (ucast b :: 32 word) :: byte) = b" and "(ucast (ucast b :: 64 word) :: byte) = b"
  by (rule bit_word_eqI; simp add: bit_simps)+

section \<open>Little-endian integers\<close>

text \<open>
  The serialisers write a 64-bit value by emitting the low byte and shifting right by eight;
  the parsers rebuild an integer with \<open>acc |= byte << (8 * i)\<close>.
\<close>

fun put_le :: "nat \<Rightarrow> 'a::len word \<Rightarrow> byte list" where
  "put_le 0 w = []"
| "put_le (Suc n) w = ucast w # put_le n (drop_bit 8 w)"

fun join_le :: "nat \<Rightarrow> 'a::len word \<Rightarrow> byte list \<Rightarrow> 'a word" where
  "join_le i acc [] = acc"
| "join_le i acc (b # bs) = join_le (Suc i) (acc OR push_bit (8 * i) (ucast b)) bs"

lemma length_put_le [simp]: "length (put_le n w) = n"
  by (induction n arbitrary: w) auto

lemma le_step:
  fixes w :: "'a::len word"
  shows "push_bit (8 * i) (ucast (ucast w :: byte)) OR push_bit (8 * Suc i) (take_bit k (drop_bit 8 w))
       = push_bit (8 * i) (take_bit (8 + k) w)"
  proof (rule bit_word_eqI)
  fix n
  assume "n < LENGTH('a)"
  moreover have "8 + (n - (8 + 8 * i)) = n - 8 * i" if "\<not> n - 8 * i < 8" using that by simp
  ultimately show "bit (push_bit (8 * i) (ucast (ucast w :: byte)) OR
      push_bit (8 * Suc i) (take_bit k (drop_bit 8 w))) n = bit (push_bit (8 * i) (take_bit (8 + k) w)) n"
    by (cases "n - 8 * i < 8") (auto simp: bit_simps)
qed

lemma join_le_put_le:
  fixes w :: "'a::len word"
  shows "join_le i acc (put_le n w) = acc OR push_bit (8 * i) (take_bit (8 * n) w)"
proof (induction n arbitrary: i acc w)
  case 0
  then show ?case by simp
next
  case (Suc n)
  have "join_le i acc (put_le (Suc n) w) =
      acc OR (push_bit (8 * i) (ucast (ucast w :: byte)) OR
        push_bit (8 * Suc i) (take_bit (8 * n) (drop_bit 8 w)))"
    by (simp add: Suc.IH or.assoc del: push_bit_take_bit)
  also have "\<dots> = acc OR push_bit (8 * i) (take_bit (8 * Suc n) w)"
    by (simp only: le_step) simp
  finally show ?case .
qed

lemma join_le_put_le_64 [simp]: "join_le 0 0 (put_le 8 (w :: u64)) = w"
  by (simp add: join_le_put_le take_bit_word_eq_self)

lemma join_le_zeros [simp]: "join_le i acc (replicate n 0) = acc"
  by (induction n arbitrary: i) auto

section \<open>Decimal numbers\<close>

definition digit :: "nat \<Rightarrow> char" where
  "digit n = char_of (48 + n)"

fun dec_of_nat :: "nat \<Rightarrow> string" where
  "dec_of_nat n = (if n < 10 then [digit n] else dec_of_nat (n div 10) @ [digit (n mod 10)])"

declare dec_of_nat.simps [simp del]

text \<open>\<open>std::to_string\<close> of an \<open>unsigned long\<close> (or a promoted byte) and of an \<open>int\<close>.\<close>

definition to_string_u :: "'a::len word \<Rightarrow> string" where
  "to_string_u w = dec_of_nat (unat w)"

definition to_string_s :: "s32 \<Rightarrow> string" where
  "to_string_s w =
     (if sint w < 0 then CHR ''-'' # dec_of_nat (nat (- sint w)) else dec_of_nat (nat (sint w)))"

definition is_digit :: "char \<Rightarrow> bool" where
  "is_digit c \<longleftrightarrow> 48 \<le> (of_char c :: nat) \<and> (of_char c :: nat) \<le> 57"

definition digit_val :: "char \<Rightarrow> nat" where
  "digit_val c = of_char c - 48"

definition is_space :: "char \<Rightarrow> bool" where
  "is_space c \<longleftrightarrow> (of_char c :: nat) = 32 \<or> 9 \<le> (of_char c :: nat) \<and> (of_char c :: nat) \<le> 13"

definition nat_of_dec :: "string \<Rightarrow> nat" where
  "nat_of_dec s = foldl (\<lambda>n c. 10 * n + digit_val c) 0 s"

lemma of_char_digit: "n < 10 \<Longrightarrow> (of_char (digit n) :: nat) = 48 + n"
  by (simp add: digit_def)

lemma digit_facts [simp]:
  assumes "n < 10"
  shows "is_digit (digit n)" and "digit_val (digit n) = n" and "\<not> is_space (digit n)"
    and "digit n \<noteq> CHR ''-''" and "digit n \<noteq> CHR ''+''" and "digit n \<noteq> CHR ''.''"
    and "digit n \<noteq> CHR '','' " and "digit n \<noteq> CHR '';''" and "digit n \<noteq> CHR '':''"
  using of_char_digit [OF assms] assms
  by (auto simp: is_digit_def digit_val_def is_space_def)

lemma dec_of_nat_digits: "c \<in> set (dec_of_nat n) \<Longrightarrow> \<exists>d < 10. c = digit d"
proof (induction n rule: dec_of_nat.induct)
  case (1 n)
  then show ?case
    by (cases "n < 10") (auto simp: dec_of_nat.simps [of n] intro: exI [of _ "n mod 10"])
qed

lemma dec_of_nat_nonempty [simp]: "dec_of_nat n \<noteq> []"
  by (subst dec_of_nat.simps) simp

lemma nat_of_dec_dec_of_nat [simp]: "nat_of_dec (dec_of_nat n) = n"
proof (induction n rule: dec_of_nat.induct)
  case (1 n)
  then show ?case
    by (cases "n < 10") (auto simp: dec_of_nat.simps [of n] nat_of_dec_def)
qed

lemma dec_of_nat_inject [simp]: "dec_of_nat m = dec_of_nat n \<longleftrightarrow> m = n"
  by (metis nat_of_dec_dec_of_nat)

lemma dec_all_digits: "c \<in> set (dec_of_nat n) \<Longrightarrow> is_digit c"
  by (auto dest: dec_of_nat_digits)

lemma dec_no_special:
  assumes "c \<in> set (dec_of_nat n)"
  shows "c \<noteq> CHR ''.''" and "c \<noteq> CHR '',''" and "c \<noteq> CHR '';''" and "c \<noteq> CHR '':''"
    and "\<not> is_space c"
  using dec_of_nat_digits [OF assms] by auto

text \<open>
  \<open>std::stoi\<close> and \<open>std::stoul\<close> (base ten): leading white space, an optional sign, the longest run
  of digits; no digit throws \<open>std::invalid_argument\<close>, a value that does not fit throws
  \<open>std::out_of_range\<close>. What follows the digits is ignored.
\<close>

datatype conv_error = Invalid_argument | Out_of_range

definition scan_int :: "string \<Rightarrow> (bool \<times> nat) option" where
  "scan_int s =
     (let t = dropWhile is_space s;
          neg = (t \<noteq> [] \<and> hd t = CHR ''-'');
          u = (if t \<noteq> [] \<and> (hd t = CHR ''-'' \<or> hd t = CHR ''+'') then tl t else t);
          ds = takeWhile is_digit u
      in if ds = [] then None else Some (neg, nat_of_dec ds))"

definition stoi :: "string \<Rightarrow> conv_error + s32" where
  "stoi s =
     (case scan_int s of
        None \<Rightarrow> Inl Invalid_argument
      | Some (neg, n) \<Rightarrow>
          (let v = (if neg then - int n else int n)
           in if - (2 ^ 31) \<le> v \<and> v < 2 ^ 31 then Inr (word_of_int v) else Inl Out_of_range))"

definition stoul :: "string \<Rightarrow> conv_error + u64" where
  "stoul s =
     (case scan_int s of
        None \<Rightarrow> Inl Invalid_argument
      | Some (neg, n) \<Rightarrow>
          (if n < 2 ^ 64 then Inr (if neg then - word_of_nat n else word_of_nat n)
           else Inl Out_of_range))"

lemma takeWhile_dec [simp]:
  "takeWhile is_digit (dec_of_nat n @ rest) = dec_of_nat n @ takeWhile is_digit rest"
  by (simp add: dec_all_digits)

lemma scan_int_dec: 
  assumes "rest = [] \<or> \<not> is_digit (hd rest)"
  shows "scan_int (dec_of_nat n @ rest) = Some (False, n)"
proof -
  obtain c cs where eq: "dec_of_nat n = c # cs"
    using dec_of_nat_nonempty by (metis neq_Nil_conv)
  then obtain d where d: "d < 10" "c = digit d"
    using dec_of_nat_digits [of c n] by auto
  have tw: "takeWhile is_digit (dec_of_nat n @ rest) = dec_of_nat n"
    using assms by (cases rest) (auto simp del: takeWhile_dec simp: dec_all_digits)
  from d have "dropWhile is_space (dec_of_nat n @ rest) = dec_of_nat n @ rest"
    by (simp add: eq)
  with d tw show ?thesis
    by (simp add: scan_int_def Let_def) (simp add: eq)
qed

lemma stoi_dec [simp]: "n < 2 ^ 31 \<Longrightarrow> stoi (dec_of_nat n) = Inr (word_of_nat n)"
  using scan_int_dec [of "[]" n] by (simp add: stoi_def Let_def)

lemma stoul_dec [simp]: "n < 2 ^ 64 \<Longrightarrow> stoul (dec_of_nat n) = Inr (word_of_nat n)"
  using scan_int_dec [of "[]" n] by (simp add: stoul_def)

lemma stoul_to_string_u [simp]: "stoul (to_string_u (w :: u64)) = Inr w"
  using unat_u64_less [of w] by (simp add: to_string_u_def del: unat_u64_less)

section \<open>Reading a buffer at a position\<close>

text \<open>
  \<open>buffer[(*buffer_used)++]\<close>: the byte and the advanced position; \<open>None\<close> is a read outside the
  array, which C++ leaves undefined. The buffer is the whole array, so a read past the received
  bytes but inside the array is a stale byte and not an error.
\<close>

definition rd :: "byte list \<Rightarrow> nat \<Rightarrow> (byte \<times> nat) option" where
  "rd buf p = (if p < length buf then Some (buf ! p, Suc p) else None)"

fun rd_n :: "nat \<Rightarrow> byte list \<Rightarrow> nat \<Rightarrow> (byte list \<times> nat) option" where
  "rd_n 0 buf p = Some ([], p)"
| "rd_n (Suc n) buf p =
     do { (b, p) \<leftarrow> rd buf p; (bs, p) \<leftarrow> rd_n n buf p; Some (b # bs, p) }"

text \<open>What a reader will find: \<open>holds buf p bs\<close> says the bytes \<open>bs\<close> lie at position \<open>p\<close>.\<close>

definition holds :: "byte list \<Rightarrow> nat \<Rightarrow> byte list \<Rightarrow> bool" where
  "holds buf p bs \<longleftrightarrow> (\<exists>r. drop p buf = bs @ r \<and> (bs \<noteq> [] \<longrightarrow> p < length buf))"

lemma holds_Nil [simp]: "holds buf p []"
  by (simp add: holds_def)

lemma holds_Cons [wire_simps]:
  "holds buf p (b # bs) \<longleftrightarrow> rd buf p = Some (b, Suc p) \<and> holds buf (Suc p) bs"
proof
  assume "holds buf p (b # bs)"
  then obtain r where p: "p < length buf" and d: "drop p buf = b # bs @ r"
    by (auto simp: holds_def)
  from p have "drop p buf = buf ! p # drop (Suc p) buf"
    by (simp add: Cons_nth_drop_Suc)
  with d have b: "buf ! p = b" and t: "drop (Suc p) buf = bs @ r" by auto
  from t have "bs \<noteq> [] \<longrightarrow> Suc p < length buf"
    by (cases bs) (auto, metis drop_eq_Nil list.discI not_less)
  with p b t show "rd buf p = Some (b, Suc p) \<and> holds buf (Suc p) bs"
    by (auto simp: rd_def holds_def)
next
  assume a: "rd buf p = Some (b, Suc p) \<and> holds buf (Suc p) bs"
  then have p: "p < length buf" "buf ! p = b" by (auto simp: rd_def split: if_splits)
  from a obtain r where "drop (Suc p) buf = bs @ r" by (auto simp: holds_def)
  with p have "drop p buf = (b # bs) @ r"
    by (metis Cons_nth_drop_Suc append_Cons)
  with p show "holds buf p (b # bs)" by (auto simp: holds_def)
qed

lemma holds_append [wire_simps]:
  "holds buf p (xs @ ys) \<longleftrightarrow> holds buf p xs \<and> holds buf (p + length xs) ys"
  by (induction xs arbitrary: p) (auto simp: holds_Cons)

lemma holds_rd_n [wire_simps]:
  "holds buf p bs \<Longrightarrow> rd_n (length bs) buf p = Some (bs, p + length bs)"
  by (induction bs arbitrary: p) (auto simp: holds_Cons)

lemma holds_at_0 [simp]: "holds (bs @ r) 0 bs"
  by (cases bs) (auto simp: holds_def)

lemma holds_self [simp]: "holds bs 0 bs"
  using holds_at_0 [of bs "[]"] by simp

lemma holds_shift: "holds (xs @ ys) (length xs) bs \<longleftrightarrow> holds ys 0 bs"
  by (auto simp: holds_def)

lemma rd_SomeD: "rd buf p = Some (b, q) \<Longrightarrow> p < length buf \<and> b = buf ! p \<and> q = Suc p"
  by (auto simp: rd_def split: if_splits)

lemma rd_n_pos: "rd_n n buf p = Some (bs, q) \<Longrightarrow> q = p + n \<and> length bs = n"
  by (induction n arbitrary: p bs q) (fastforce simp: bind_eq_Some_conv dest: rd_SomeD)+

text \<open>A length byte followed by that many characters, as the parsers read a string.\<close>

definition rd_string :: "nat \<Rightarrow> byte list \<Rightarrow> nat \<Rightarrow> (string \<times> nat) option" where
  "rd_string n buf p = do { (bs, p) \<leftarrow> rd_n n buf p; Some (string_of_bytes bs, p) }"

lemma holds_rd_string [wire_simps]:
  "holds buf p (bytes_of_string s) \<Longrightarrow> rd_string (length s) buf p = Some (s, p + length s)"
  using holds_rd_n [of buf p "bytes_of_string s"] by (simp add: rd_string_def)

definition rd_le :: "nat \<Rightarrow> byte list \<Rightarrow> nat \<Rightarrow> ('a::len word \<times> nat) option" where
  "rd_le n buf p = do { (bs, p) \<leftarrow> rd_n n buf p; Some (join_le 0 0 bs, p) }"

lemma holds_rd_le:
  "holds buf p bs \<Longrightarrow> rd_le (length bs) buf p = Some (join_le 0 0 bs, p + length bs)"
  using holds_rd_n [of buf p bs] by (simp add: rd_le_def)

lemma holds_rd_le_64 [wire_simps]:
  "holds buf p (put_le 8 (w :: u64)) \<Longrightarrow> rd_le 8 buf p = Some (w, p + 8)"
  using holds_rd_le [of buf p "put_le 8 w", where ?'a = 64] by simp

section \<open>How a call ends\<close>

text \<open>
  The ways a C++ call of the daemon can end: it returns a value, it has undefined behaviour, it never
  returns, it ends the process with \<open>exit\<close>, an exception leaves it, or it calls \<open>std::terminate\<close>.
\<close>

datatype 'a run = Done 'a | Fault | Diverges | Exits int | Throws conv_error | Terminates

fun run_bind :: "'a run \<Rightarrow> ('a \<Rightarrow> 'b run) \<Rightarrow> 'b run" where
  "run_bind (Done x) f = f x"
| "run_bind Fault f = Fault"
| "run_bind Diverges f = Diverges"
| "run_bind (Exits c) f = Exits c"
| "run_bind (Throws e) f = Throws e"
| "run_bind Terminates f = Terminates"

lemma run_bind_Done: "run_bind m f = Done y \<longleftrightarrow> (\<exists>x. m = Done x \<and> f x = Done y)"
  by (cases m) auto

lemma run_bind_cong: "m = m' \<Longrightarrow> (\<And>x. m' = Done x \<Longrightarrow> f x = g x) \<Longrightarrow> run_bind m f = run_bind m' g"
  by (cases m) auto

lemma run_bind_assoc [simp]: "run_bind (run_bind m f) g = run_bind m (\<lambda>x. run_bind (f x) g)"
  by (cases m) auto

end
