(* ===== verification/Ordered_Map.thy ===== *)
theory Ordered_Map
  imports Prelude
begin

text \<open>
  \<open>std::map\<close>: the container of every session store. A map is the list of its key-value pairs in
  increasing key order, so that a range-based \<open>for\<close> over the map is a traversal of the list, in the
  order the code visits the elements. For \<open>std::string\<close> keys the order is the lexicographic order
  of unsigned bytes, which is the order of \<open>List_Lexorder\<close> over \<open>Char_ord\<close>.

  The locale \<open>std_map\<close> is the interface the components rely on; they use its lemmas through the
  interpretation \<open>om\<close> on the operations defined here.
\<close>

section \<open>The operations\<close>

type_synonym ('k, 'v) omap = "('k \<times> 'v) list"

definition omap_ok :: "('k::linorder, 'v) omap \<Rightarrow> bool" where
  "omap_ok m \<longleftrightarrow> sorted_wrt (<) (map fst m)"

definition mget :: "('k::linorder, 'v) omap \<Rightarrow> 'k \<Rightarrow> 'v option" where
  "mget m k = map_of m k"

fun mput :: "'k::linorder \<Rightarrow> 'v \<Rightarrow> ('k, 'v) omap \<Rightarrow> ('k, 'v) omap" where
  "mput k v [] = [(k, v)]"
| "mput k v ((k', v') # m) =
     (if k < k' then (k, v) # (k', v') # m
      else if k = k' then (k, v) # m
      else (k', v') # mput k v m)"

definition merase :: "'k::linorder \<Rightarrow> ('k, 'v) omap \<Rightarrow> ('k, 'v) omap" where
  "merase k m = filter (\<lambda>(k', _). k' \<noteq> k) m"

text \<open>\<open>m.count(k) > 0\<close>, and \<open>m[k]\<close>, which inserts a default value for a missing key.\<close>

definition mhas :: "('k::linorder, 'v) omap \<Rightarrow> 'k \<Rightarrow> bool" where
  "mhas m k \<longleftrightarrow> mget m k \<noteq> None"

definition mref :: "'v \<Rightarrow> ('k::linorder, 'v) omap \<Rightarrow> 'k \<Rightarrow> 'v" where
  "mref d m k = (case mget m k of None \<Rightarrow> d | Some v \<Rightarrow> v)"

definition mtouch :: "'v \<Rightarrow> ('k::linorder, 'v) omap \<Rightarrow> 'k \<Rightarrow> ('k, 'v) omap" where
  "mtouch d m k = mput k (mref d m k) m"

section \<open>The interface\<close>

locale std_map =
  fixes empty :: "'m"
    and lookup :: "'m \<Rightarrow> 'k::linorder \<Rightarrow> 'v option"
    and insert :: "'k \<Rightarrow> 'v \<Rightarrow> 'm \<Rightarrow> 'm"
    and erase :: "'k \<Rightarrow> 'm \<Rightarrow> 'm"
    and ok :: "'m \<Rightarrow> bool"
    and items :: "'m \<Rightarrow> ('k \<times> 'v) list"
  assumes ok_empty: "ok empty"
    and ok_insert: "ok m \<Longrightarrow> ok (insert k v m)"
    and ok_erase: "ok m \<Longrightarrow> ok (erase k m)"
    and lookup_empty: "lookup empty k = None"
    and lookup_insert: "ok m \<Longrightarrow> lookup (insert k v m) k' = (if k' = k then Some v else lookup m k')"
    and lookup_erase: "lookup (erase k m) k' = (if k' = k then None else lookup m k')"
    and items_lookup: "ok m \<Longrightarrow> (k, v) \<in> set (items m) \<longleftrightarrow> lookup m k = Some v"
    and items_sorted: "ok m \<Longrightarrow> sorted_wrt (<) (map fst (items m))"
    and ext: "ok m \<Longrightarrow> ok m' \<Longrightarrow> (\<And>k. lookup m k = lookup m' k) \<Longrightarrow> m = m'"
begin

lemma distinct_items: "ok m \<Longrightarrow> distinct (map fst (items m))"
  by (drule items_sorted) (simp add: strict_sorted_iff)

lemma map_of_items:
  assumes "ok m"
  shows "map_of (items m) k = lookup m k"
proof (cases "lookup m k")
  case None
  then have "(k, v) \<notin> set (items m)" for v
    by (simp add: items_lookup assms)
  then have "k \<notin> fst ` set (items m)" by auto
  with None show ?thesis by (simp add: map_of_eq_None_iff)
next
  case (Some v)
  then show ?thesis by (simp add: distinct_items items_lookup assms)
qed

lemma insert_overwrite: "ok m \<Longrightarrow> insert k v (insert k w m) = insert k v m"
  by (rule ext) (auto simp: ok_insert lookup_insert)

lemma insert_same: "ok m \<Longrightarrow> lookup m k = Some v \<Longrightarrow> insert k v m = m"
  by (rule ext) (auto simp: ok_insert lookup_insert)

lemma insert_commute: "ok m \<Longrightarrow> k \<noteq> k' \<Longrightarrow> insert k v (insert k' v' m) = insert k' v' (insert k v m)"
  by (rule ext) (auto simp: ok_insert lookup_insert)

lemma erase_absent: "ok m \<Longrightarrow> lookup m k = None \<Longrightarrow> erase k m = m"
  by (rule ext) (auto simp: ok_erase lookup_erase)

lemma erase_insert: "ok m \<Longrightarrow> erase k (insert k v m) = erase k m"
  by (rule ext) (auto simp: ok_insert ok_erase lookup_insert lookup_erase)

text \<open>
  A sequence of updates (\<open>Some v\<close> stores, \<open>None\<close> erases): the last update of a key decides.
\<close>

lemma ok_updates:
  "ok m \<Longrightarrow> ok (foldl (\<lambda>m (k, u). case u of None \<Rightarrow> erase k m | Some v \<Rightarrow> insert k v m) m us)"
  by (induction us arbitrary: m) (auto simp: ok_insert ok_erase split: option.split)

lemma lookup_updates:
  "ok m \<Longrightarrow>
   lookup (foldl (\<lambda>m (k, u). case u of None \<Rightarrow> erase k m | Some v \<Rightarrow> insert k v m) m us) k =
   (case map_of (rev us) k of None \<Rightarrow> lookup m k | Some u \<Rightarrow> u)"
proof (induction us arbitrary: m)
  case Nil
  then show ?case by simp
next
  case (Cons a us)
  obtain k' u where a: "a = (k', u)" by force
  from Cons show ?case
    by (cases u)
      (auto simp: a ok_insert ok_erase lookup_insert lookup_erase map_add_def split: option.split)
qed

text \<open>Replaying the elements of a map, in order, onto an empty map rebuilds it.\<close>

lemma ok_inserts: "ok m \<Longrightarrow> ok (foldl (\<lambda>m (k, v). insert k v m) m kvs)"
  by (induction kvs arbitrary: m) (auto simp: ok_insert)

lemma lookup_inserts:
  "ok m \<Longrightarrow> lookup (foldl (\<lambda>m (k, v). insert k v m) m kvs) k =
     (case map_of (rev kvs) k of None \<Rightarrow> lookup m k | Some v \<Rightarrow> Some v)"
proof (induction kvs arbitrary: m)
  case Nil
  then show ?case by simp
next
  case (Cons a kvs)
  then show ?case
    by (cases a) (auto simp: ok_insert lookup_insert map_add_def split: option.split)
qed

lemma rebuild:
  assumes "ok m"
  shows "foldl (\<lambda>m (k, v). insert k v m) empty (items m) = m"
proof (rule ext)
  fix k
  have "map_of (rev (items m)) = map_of (items m)"
    by (rule map_of_inject_set [THEN iffD2])
      (auto simp: rev_map [symmetric] distinct_items assms)
  then show "lookup (foldl (\<lambda>m (k, v). insert k v m) empty (items m)) k = lookup m k"
    by (simp add: lookup_inserts ok_empty lookup_empty map_of_items assms split: option.split)
qed (auto intro: ok_inserts ok_empty assms)

end

section \<open>The sorted lists implement it\<close>

lemma omap_ok_Nil [simp]: "omap_ok []"
  by (simp add: omap_ok_def)

lemma omap_ok_single [simp]: "omap_ok [(k, v)]"
  by (simp add: omap_ok_def)

lemma omap_ok_Cons:
  "omap_ok ((k, v) # m) \<longleftrightarrow> (\<forall>k' \<in> fst ` set m. k < k') \<and> omap_ok m"
  by (auto simp: omap_ok_def)

lemma mget_simps [simp]:
  "mget [] k = None"
  "mget ((k', v') # m) k = (if k = k' then Some v' else mget m k)"
  by (auto simp: mget_def)

lemma fst_mput: "fst ` set (mput k v m) = insert k (fst ` set m)"
  by (induction k v m rule: mput.induct) auto

lemma omap_ok_mput [simp]: "omap_ok m \<Longrightarrow> omap_ok (mput k v m)"
  by (induction k v m rule: mput.induct) (auto simp: omap_ok_Cons fst_mput)

lemma omap_ok_merase [simp]: "omap_ok m \<Longrightarrow> omap_ok (merase k m)"
  by (induction m) (auto simp: merase_def omap_ok_Cons)

lemma mget_None_iff: "mget m k = None \<longleftrightarrow> k \<notin> fst ` set m"
  by (simp add: mget_def map_of_eq_None_iff)

lemma mget_mput [store_simps]:
  "mget (mput k v m) k' = (if k' = k then Some v else mget m k')"
  by (induction k v m rule: mput.induct) auto

lemma mget_merase [store_simps]: "mget (merase k m) k' = (if k' = k then None else mget m k')"
  by (induction m) (auto simp: merase_def)

lemma omap_in_set: "omap_ok m \<Longrightarrow> (k, v) \<in> set m \<longleftrightarrow> mget m k = Some v"
  by (auto simp: omap_ok_def mget_def strict_sorted_iff)

lemma omap_ext:
  assumes "omap_ok m" and "omap_ok m'" and "\<And>k. mget m k = mget m' k"
  shows "m = m'"
proof -
  have "set m = set m'"
    using assms by (auto simp: omap_in_set)
  moreover have "sorted (map fst m)" "distinct (map fst m)" "sorted (map fst m')" "distinct (map fst m')"
    using assms by (auto simp: omap_ok_def strict_sorted_iff)
  moreover have "inj_on fst (set m \<union> set m')"
    using \<open>set m = set m'\<close> \<open>distinct (map fst m)\<close> by (simp add: distinct_map)
  ultimately show ?thesis
    by (simp add: map_sorted_distinct_set_unique)
qed

interpretation om: std_map "[]" mget mput merase omap_ok "\<lambda>m. m"
proof unfold_locales
  show "omap_ok m \<Longrightarrow> sorted_wrt (<) (map fst m)" for m :: "('a \<times> 'b) list"
    by (simp add: omap_ok_def)
  show "omap_ok m \<Longrightarrow> omap_ok m' \<Longrightarrow> (\<And>k. mget m k = mget m' k) \<Longrightarrow> m = m'"
    for m m' :: "('a \<times> 'b) list"
    by (rule omap_ext)
qed (simp_all add: store_simps omap_in_set)

lemma mhas_mput [store_simps]: "mhas (mput k v m) k' \<longleftrightarrow> k' = k \<or> mhas m k'"
  by (simp add: mhas_def store_simps)

lemma mhas_merase [store_simps]: "mhas (merase k m) k' \<longleftrightarrow> k' \<noteq> k \<and> mhas m k'"
  by (simp add: mhas_def store_simps)

lemma mref_mput [store_simps]: "mref d (mput k v m) k' = (if k' = k then v else mref d m k')"
  by (simp add: mref_def store_simps)

lemma omap_ok_mtouch [simp]: "omap_ok m \<Longrightarrow> omap_ok (mtouch d m k)"
  by (simp add: mtouch_def)

lemma mget_mtouch [store_simps]: "mget (mtouch d m k) k' = (if k' = k then Some (mref d m k) else mget m k')"
  by (simp add: mtouch_def store_simps)

lemma mtouch_present: "omap_ok m \<Longrightarrow> mhas m k \<Longrightarrow> mtouch d m k = m"
  by (rule omap_ext) (auto simp: store_simps mhas_def mref_def)

lemma mref_mtouch [store_simps]: "mref d (mtouch d m k) k' = mref d m k'"
  by (simp add: mref_def store_simps)

text \<open>Mapping a function over the values keeps the keys and the order.\<close>

definition mmap :: "('v \<Rightarrow> 'w) \<Rightarrow> ('k::linorder, 'v) omap \<Rightarrow> ('k, 'w) omap" where
  "mmap f m = map (\<lambda>(k, v). (k, f v)) m"

lemma mget_mmap [store_simps]: "mget (mmap f m) k = map_option f (mget m k)"
  by (induction m) (auto simp: mmap_def)

lemma omap_ok_mmap [simp]: "omap_ok (mmap f m) \<longleftrightarrow> omap_ok m"
  by (simp add: omap_ok_def mmap_def comp_def case_prod_beta)

lemma mmap_mput: "mmap f (mput k v m) = mput k (f v) (mmap f m)"
  by (induction k v m rule: mput.induct) (auto simp: mmap_def)

end
