(* ===== verification/Utils.thy ===== *)
theory Utils
  imports Prelude
begin

text \<open>
  \<open>helpers/utils.h\<close>: the textual IP addresses of the daemon and their bytes on the wire, and the
  \<open>strsep\<close> loops over a C string that this file and \<open>xt_recent_proc.cpp\<close> use.
\<close>

section \<open>C strings and \<open>strsep\<close>\<close>

text \<open>A \<open>std::string\<close> seen through \<open>c_str()\<close> ends at its first NUL.\<close>

definition c_str :: "string \<Rightarrow> string" where
  "c_str s = takeWhile (\<lambda>c. c \<noteq> CHR 0x00) s"

text \<open>
  The tokens the loop \<open>while ((token = strsep(&strpos, ".")) != NULL)\<close> sees: always at least one,
  and an empty token between two adjacent separators.
\<close>

fun strsep_tokens :: "char \<Rightarrow> string \<Rightarrow> string list" where
  "strsep_tokens d [] = [[]]"
| "strsep_tokens d (c # s) =
     (if c = d then [] # strsep_tokens d s
      else (case strsep_tokens d s of [] \<Rightarrow> [[c]] | t # ts \<Rightarrow> (c # t) # ts))"

fun join_with :: "char \<Rightarrow> string list \<Rightarrow> string" where
  "join_with d [] = []"
| "join_with d [t] = t"
| "join_with d (t # ts) = t @ d # join_with d ts"

lemma strsep_tokens_nonempty [simp]: "strsep_tokens d s \<noteq> []"
  by (induction s) (auto split: list.split)

lemma strsep_tokens_plain [simp]: "d \<notin> set t \<Longrightarrow> strsep_tokens d t = [t]"
  by (induction t) auto

lemma strsep_tokens_append:
  "d \<notin> set t \<Longrightarrow> strsep_tokens d (t @ d # s) = t # strsep_tokens d s"
  by (induction t) auto

lemma strsep_tokens_join:
  "ts \<noteq> [] \<Longrightarrow> (\<And>t. t \<in> set ts \<Longrightarrow> d \<notin> set t) \<Longrightarrow> strsep_tokens d (join_with d ts) = ts"
  by (induction d ts rule: join_with.induct) (auto simp: strsep_tokens_append)

text \<open>The body of such a loop, converting every token and stopping at the first exception.\<close>

fun map_tokens :: "('t \<Rightarrow> 'e + 'a) \<Rightarrow> 't list \<Rightarrow> 'e + 'a list" where
  "map_tokens f [] = Inr []"
| "map_tokens f (t # ts) =
     (case f t of Inl e \<Rightarrow> Inl e
      | Inr x \<Rightarrow> (case map_tokens f ts of Inl e \<Rightarrow> Inl e | Inr xs \<Rightarrow> Inr (x # xs)))"

lemma map_tokens_Inr:
  "(\<And>x. x \<in> set xs \<Longrightarrow> f (g x) = Inr (h x)) \<Longrightarrow> map_tokens f (map g xs) = Inr (map h xs)"
  by (induction xs) auto

lemma map_tokens_length: "map_tokens f ts = Inr xs \<Longrightarrow> length xs = length ts"
  by (induction ts arbitrary: xs) (auto split: sum.splits)

section \<open>IP addresses\<close>

datatype ip_family = IPV4 | IPV6 | Unlisted_family byte

definition ip_family_of_byte :: "byte \<Rightarrow> ip_family" where
  "ip_family_of_byte b = (if b = 1 then IPV4 else if b = 2 then IPV6 else Unlisted_family b)"

fun ip_family_code :: "ip_family \<Rightarrow> byte" where
  "ip_family_code IPV4 = 1"
| "ip_family_code IPV6 = 2"
| "ip_family_code (Unlisted_family b) = b"

lemma ip_family_of_code [simp]:
  "ip_family_of_byte 1 = IPV4" "ip_family_of_byte 2 = IPV6"
  by (auto simp: ip_family_of_byte_def)

definition get_ip_address_v6 :: "string \<Rightarrow> byte list" where
  "get_ip_address_v6 ip_str = []"

text \<open>\<open>static_cast<char>(std::stoi(token))\<close> for each token; \<open>stoi\<close> may throw.\<close>

definition get_ip_address_v4 :: "string \<Rightarrow> conv_error + byte list" where
  "get_ip_address_v4 ip_str =
     map_tokens (\<lambda>token. map_sum id (\<lambda>tmp. ucast tmp) (stoi token))
       (strsep_tokens (CHR ''.'') (c_str ip_str))"

definition get_ip_address_type :: "string \<Rightarrow> ip_family" where
  "get_ip_address_type ip_str = (if CHR '':'' \<notin> set ip_str then IPV4 else IPV6)"

definition get_ip_address_array :: "string \<Rightarrow> conv_error + byte list" where
  "get_ip_address_array ip_str =
     (if CHR '':'' \<in> set ip_str then Inr (get_ip_address_v6 ip_str)
      else if CHR ''.'' \<in> set ip_str then get_ip_address_v4 ip_str
      else Inr [])"

text \<open>The dotted quad the parsers rebuild with \<open>std::to_string(byte)\<close> and \<open>'.'\<close>.\<close>

definition ipv4_string :: "byte list \<Rightarrow> string" where
  "ipv4_string bs = join_with (CHR ''.'') (map to_string_u bs)"

definition is_ipv4 :: "string \<Rightarrow> bool" where
  "is_ipv4 s \<longleftrightarrow> (case get_ip_address_v4 s of Inl _ \<Rightarrow> False
     | Inr bs \<Rightarrow> length bs = 4 \<and> ipv4_string bs = s)"

lemma no_dot_to_string_u: "CHR ''.'' \<notin> set (to_string_u (b :: byte))"
  by (auto simp: to_string_u_def dest: dec_no_special)

lemma stoi_to_string_byte [simp]: "stoi (to_string_u (b :: byte)) = Inr (ucast b)"
proof -
  have "unat b < 2 ^ 31" by (rule less_trans [OF unat_byte_less]) simp
  then show ?thesis by (simp add: to_string_u_def)
qed

lemma ipv4_string_chars:
  "c \<in> set (ipv4_string bs) \<Longrightarrow> c = CHR ''.'' \<or> is_digit c"
proof (induction bs rule: induct_list012)
  case (3 x y zs)
  then show ?case
    by (auto simp: ipv4_string_def to_string_u_def dest: dec_all_digits)
qed (auto simp: ipv4_string_def to_string_u_def dest: dec_all_digits)

lemma c_str_ipv4_string [simp]: "c_str (ipv4_string bs) = ipv4_string bs"
  unfolding c_str_def takeWhile_eq_all_conv
  by (auto dest!: ipv4_string_chars simp: is_digit_def)

text \<open>A dotted quad written by the parsers is read back to the same bytes.\<close>

lemma get_ip_address_v4_string [simp]:
  assumes "bs \<noteq> []"
  shows "get_ip_address_v4 (ipv4_string bs) = Inr bs"
proof -
  have "strsep_tokens (CHR ''.'') (ipv4_string bs) = map to_string_u bs"
    unfolding ipv4_string_def
    by (rule strsep_tokens_join) (use assms no_dot_to_string_u in auto)
  moreover have "map_tokens (\<lambda>token. map_sum id (\<lambda>tmp. ucast tmp) (stoi token)) (map to_string_u bs)
      = Inr (map (\<lambda>b. ucast (ucast b :: s32) :: byte) bs)"
    by (rule map_tokens_Inr) simp
  ultimately show ?thesis
    by (simp add: get_ip_address_v4_def)
qed

lemma is_ipv4_string: "length bs = 4 \<Longrightarrow> is_ipv4 (ipv4_string bs)"
  by (cases bs) (auto simp: is_ipv4_def)

lemma is_ipv4E:
  assumes "is_ipv4 s"
  obtains a b c d where "s = ipv4_string [a, b, c, d]" "get_ip_address_v4 s = Inr [a, b, c, d]"
proof -
  from assms obtain bs where bs: "get_ip_address_v4 s = Inr bs" "length bs = 4" "ipv4_string bs = s"
    by (auto simp: is_ipv4_def split: sum.splits)
  then obtain a b c d where "bs = [a, b, c, d]"
    by (auto simp: numeral_eq_Suc length_Suc_conv)
  with bs that show ?thesis by auto
qed

lemma ipv4_string_four:
  "ipv4_string [a, b, c, d] = to_string_u a @ CHR ''.'' # to_string_u b @ CHR ''.'' #
     to_string_u c @ CHR ''.'' # to_string_u d"
  by (simp add: ipv4_string_def)

lemma is_ipv4_chars:
  assumes "is_ipv4 s"
  shows "CHR ''.'' \<in> set s" and "CHR '':'' \<notin> set s"
proof -
  from assms obtain a b c d where s: "s = ipv4_string [a, b, c, d]" by (rule is_ipv4E)
  show "CHR ''.'' \<in> set s" by (simp add: s ipv4_string_four)
  show "CHR '':'' \<notin> set s" by (auto simp: s is_digit_def dest!: ipv4_string_chars)
qed

lemma is_ipv4_family: "is_ipv4 s \<Longrightarrow> get_ip_address_type s = IPV4"
  by (simp add: get_ip_address_type_def is_ipv4_chars)

lemma is_ipv4_array: "is_ipv4 s \<Longrightarrow> get_ip_address_array s = get_ip_address_v4 s"
  by (simp add: get_ip_address_array_def is_ipv4_chars)

section \<open>Property\<close>

text \<open>\<open>get_ip_address_v4\<close> reads back the bytes of every dotted quad that the parsers write with
  \<open>std::to_string\<close> of a byte and dots.\<close>

theorem ipv4_text_roundtrip:
  assumes "bs \<noteq> []"
  shows "get_ip_address_v4 (ipv4_string bs) = Inr bs"
  using assms by (rule get_ip_address_v4_string)

theorem ipv4_text_roundtrip_witness:
  "get_ip_address_v4 (ipv4_string [192, 168, 0, 255]) = Inr [192, 168, 0, 255]"
  by (rule ipv4_text_roundtrip) simp

end
