(* ===== verification/Conn_Packet.thy ===== *)
theory Conn_Packet
  imports Ordered_Map Utils
begin

text \<open>
  The packets exchanged between the processes: \<open>conn_packet\<close> (\<open>connection/conn_packet.h\<close>) and the
  classes derived from it. A C++ class is a record; a derived class extends the record of its base,
  so that a base-class operation applies to it. An \<open>enum\<close> is a datatype; because the parsers cast
  any byte to an \<open>enum\<close>, each has a constructor for the bytes that name no enumerator.

  Members that a constructor leaves indeterminate and that some code reads are supplied by an
  argument \<open>u\<close> of the constructor's model; members that no code reads (\<open>last_seen\<close>, the \<open>id\<close> and
  \<open>disabled\<close> of a service, \<open>action_timestamp\<close>) are of type \<open>option\<close>, \<open>None\<close> while indeterminate.
\<close>

section \<open>\<open>conn_packet\<close>\<close>

datatype packet_type =
  CONNECT | DISCONNECT | GENERIC | XT_RECENT_SYNC | XT_RECENT_TABLE | HTTP_SYNC | CTL_COMMAND
| SYNC_REQUEST | Unlisted_type byte

definition packet_type_of_byte :: "byte \<Rightarrow> packet_type" where
  "packet_type_of_byte b =
     (if b = 1 then CONNECT else if b = 2 then DISCONNECT else if b = 3 then GENERIC
      else if b = 4 then XT_RECENT_SYNC else if b = 5 then XT_RECENT_TABLE
      else if b = 6 then HTTP_SYNC else if b = 7 then CTL_COMMAND
      else if b = 8 then SYNC_REQUEST else Unlisted_type b)"

fun packet_type_code :: "packet_type \<Rightarrow> byte" where
  "packet_type_code CONNECT = 1"
| "packet_type_code DISCONNECT = 2"
| "packet_type_code GENERIC = 3"
| "packet_type_code XT_RECENT_SYNC = 4"
| "packet_type_code XT_RECENT_TABLE = 5"
| "packet_type_code HTTP_SYNC = 6"
| "packet_type_code CTL_COMMAND = 7"
| "packet_type_code SYNC_REQUEST = 8"
| "packet_type_code (Unlisted_type b) = b"

lemma packet_type_of_code [simp]:
  "(\<And>b. t \<noteq> Unlisted_type b) \<Longrightarrow> packet_type_of_byte (packet_type_code t) = t"
  by (cases t) (auto simp: packet_type_of_byte_def)

lemma packet_type_code_of_byte [simp]: "packet_type_code (packet_type_of_byte b) = b"
  by (auto simp: packet_type_of_byte_def)

record conn_packet =
  pkt_fd :: int
  pkt_type :: packet_type
  header_1 :: s32
  header_2 :: s32
  pkt_len :: u32

text \<open>The default member initialisers: \<open>fd = -1\<close> means, while sending, all connected nodes.\<close>

definition new_conn_packet :: conn_packet where
  "new_conn_packet =
     \<lparr>pkt_fd = - 1, pkt_type = CONNECT, header_1 = 0xef, header_2 = 0xab, pkt_len = 0\<rparr>"

definition new_typed_packet :: "packet_type \<Rightarrow> conn_packet" where
  "new_typed_packet t = new_conn_packet\<lparr>pkt_type := t\<rparr>"

section \<open>\<open>xt_recent\<close> entries, tables and actions\<close>

record xt_recent_entry =
  src_ip :: string
  ttl :: s32
  last_seen :: "u64 option"
  last_seen_index :: s32
  ip_fam :: ip_family
  timestamps :: "u64 list"

text \<open>The implicit default constructor: the strings and vectors are empty, the rest indeterminate.\<close>

definition new_xt_recent_entry :: "xt_recent_entry \<Rightarrow> xt_recent_entry" where
  "new_xt_recent_entry u = u\<lparr>src_ip := [], last_seen := None, timestamps := []\<rparr>"

definition get_src_ip :: "xt_recent_entry \<Rightarrow> string" where
  "get_src_ip e = src_ip e"

definition set_src_ip :: "string \<Rightarrow> xt_recent_entry \<Rightarrow> xt_recent_entry" where
  "set_src_ip s e = e\<lparr>src_ip := s\<rparr>"

definition get_ttl :: "xt_recent_entry \<Rightarrow> s32" where
  "get_ttl e = ttl e"

definition set_ttl :: "s32 \<Rightarrow> xt_recent_entry \<Rightarrow> xt_recent_entry" where
  "set_ttl t e = e\<lparr>ttl := t\<rparr>"

definition get_oldest_pkt_index :: "xt_recent_entry \<Rightarrow> s32" where
  "get_oldest_pkt_index e = last_seen_index e"

definition set_oldest_pkt_index :: "s32 \<Rightarrow> xt_recent_entry \<Rightarrow> xt_recent_entry" where
  "set_oldest_pkt_index i e = e\<lparr>last_seen_index := i\<rparr>"

definition set_last_seen :: "u64 \<Rightarrow> xt_recent_entry \<Rightarrow> xt_recent_entry" where
  "set_last_seen t e = e\<lparr>last_seen := Some t\<rparr>"

text \<open>
  \<open>timestamps[get_oldest_pkt_index() - 1]\<close> without a bounds check: \<open>None\<close> when the index is outside
  the vector (undefined behaviour). The subtraction is done in \<open>int\<close>.
\<close>

definition get_last_seen :: "xt_recent_entry \<Rightarrow> u64 option" where
  "get_last_seen e =
     (let i = sint (get_oldest_pkt_index e) - 1
      in if 0 \<le> i \<and> i < int (length (timestamps e)) then Some (timestamps e ! nat i) else None)"

text \<open>
  \<open>to_string\<close> sorts the timestamps of the (copied) entry and moves the index to the last one, then
  prints; the entry it leaves behind is returned as well.
\<close>

definition entry_to_string :: "xt_recent_entry \<Rightarrow> (string \<times> xt_recent_entry) option" where
  "entry_to_string e0 =
     (let e = e0\<lparr>timestamps := sort (timestamps e0),
                 last_seen_index := word_of_nat (length (timestamps e0))\<rparr>
      in do {
        seen \<leftarrow> get_last_seen e;
        Some ('' src: '' @ src_ip e @ ''ttl: '' @ to_string_s (ttl e) @ '' last seen: '' @
              to_string_u seen @ '' old packets: '' @ to_string_s (last_seen_index e) @
              concat (map (\<lambda>nstamps. '' '' @ to_string_u nstamps) (timestamps e)), e)
      })"

datatype action_type = ADD_UPD_ENTRY | DELETE_ENTRY | FLUSH_TABLE | DELETE_TABLE | Unlisted_action byte

definition action_type_of_byte :: "byte \<Rightarrow> action_type" where
  "action_type_of_byte b =
     (if b = 1 then ADD_UPD_ENTRY else if b = 2 then DELETE_ENTRY else if b = 3 then FLUSH_TABLE
      else if b = 4 then DELETE_TABLE else Unlisted_action b)"

fun action_type_code :: "action_type \<Rightarrow> byte" where
  "action_type_code ADD_UPD_ENTRY = 1"
| "action_type_code DELETE_ENTRY = 2"
| "action_type_code FLUSH_TABLE = 3"
| "action_type_code DELETE_TABLE = 4"
| "action_type_code (Unlisted_action b) = b"

lemma action_type_of_code [simp]:
  "(\<And>b. a \<noteq> Unlisted_action b) \<Longrightarrow> action_type_of_byte (action_type_code a) = a"
  by (cases a) (auto simp: action_type_of_byte_def)

record xt_recent_table = conn_packet +
  table_name :: string
  entries :: "(string, xt_recent_entry) omap"

definition new_xt_recent_table :: xt_recent_table where
  "new_xt_recent_table =
     conn_packet.extend (new_typed_packet XT_RECENT_TABLE) \<lparr>table_name = [], entries = []\<rparr>"

record xt_recent_action = conn_packet +
  action_timestamp :: "u64 option"
  target_entry :: xt_recent_entry
  action :: action_type
  xt_table_name :: string

text \<open>\<open>xt_recent_action(action_type)\<close> and \<open>xt_recent_action(conn_packet *)\<close>.\<close>

definition new_xt_recent_action :: "xt_recent_entry \<Rightarrow> action_type \<Rightarrow> xt_recent_action" where
  "new_xt_recent_action u t =
     conn_packet.extend (new_typed_packet XT_RECENT_SYNC)
       \<lparr>action_timestamp = None, target_entry = new_xt_recent_entry u, action = t, xt_table_name = []\<rparr>"

definition xt_recent_action_of :: "xt_recent_action \<Rightarrow> conn_packet \<Rightarrow> xt_recent_action" where
  "xt_recent_action_of u pkt =
     conn_packet.extend
       (new_conn_packet\<lparr>header_1 := header_1 pkt, header_2 := header_2 pkt,
          pkt_type := pkt_type pkt, pkt_len := pkt_len pkt\<rparr>)
       \<lparr>action_timestamp = None, target_entry = new_xt_recent_entry (target_entry u),
        action = action u, xt_table_name = []\<rparr>"

section \<open>HTTP sessions and actions\<close>

datatype http_action_type =
  CLEAR_DATA | HTTP_SYNC_REQUEST | SESS_ADD | SESS_DELETE | SESS_UPDATE | SESS_WRITE
| BCK_ADD | BCK_DELETE | BCK_UPDATE | Unlisted_http_action byte

definition http_action_of_byte :: "byte \<Rightarrow> http_action_type" where
  "http_action_of_byte b =
     (if b = 0 then CLEAR_DATA else if b = 1 then HTTP_SYNC_REQUEST else if b = 2 then SESS_ADD
      else if b = 3 then SESS_DELETE else if b = 4 then SESS_UPDATE else if b = 5 then SESS_WRITE
      else if b = 20 then BCK_ADD else if b = 21 then BCK_DELETE else if b = 22 then BCK_UPDATE
      else Unlisted_http_action b)"

fun http_action_code :: "http_action_type \<Rightarrow> byte" where
  "http_action_code CLEAR_DATA = 0"
| "http_action_code HTTP_SYNC_REQUEST = 1"
| "http_action_code SESS_ADD = 2"
| "http_action_code SESS_DELETE = 3"
| "http_action_code SESS_UPDATE = 4"
| "http_action_code SESS_WRITE = 5"
| "http_action_code BCK_ADD = 20"
| "http_action_code BCK_DELETE = 21"
| "http_action_code BCK_UPDATE = 22"
| "http_action_code (Unlisted_http_action b) = b"

lemma http_action_of_code [simp]:
  "(\<And>b. a \<noteq> Unlisted_http_action b) \<Longrightarrow> http_action_of_byte (http_action_code a) = a"
  by (cases a) (auto simp: http_action_of_byte_def)

record http_session =
  key :: string
  backend_id :: u32
  content :: string
  last_acc :: u64

record http_service =
  service_id :: "int option"
  service_name :: string
  sessions :: "(string, http_session) omap"
  disabled :: "bool option"
  session_ttl :: int

definition new_http_service :: http_service where
  "new_http_service =
     \<lparr>service_id = None, service_name = [], sessions = [], disabled = None, session_ttl = 0\<rparr>"

record http_action = conn_packet +
  http_act :: http_action_type
  service :: u32
  listener :: u32
  backend :: u32
  session :: http_session
  farm_name :: string

definition new_http_action :: "http_action \<Rightarrow> http_action" where
  "new_http_action u =
     conn_packet.extend (new_typed_packet HTTP_SYNC)
       \<lparr>http_act = http_act u, service = service u, listener = listener u, backend = backend u,
        session = (session u)\<lparr>key := [], content := []\<rparr>, farm_name = []\<rparr>"

section \<open>Control commands\<close>

datatype command_id =
  VOID | START_HTTP_SYNC | STOP_HTTP_SYNC | SHOW_HTTP | CLEAR_HTTP | WRITE_HTTP
| STOP_RECENT_SYNC | START_RECENT_SYNC | SHOW_RECENT | CLEAR_RECENT | CLEAR_RECENT_TABLE
| WRITE_RECENT_TABLE | WRITE_RECENT | SW_TO_MASTER | SW_TO_CLIENT | COUNT_RECENT | SHOW_MODE
| QUIT | COUNT_HTTP | CTL_ERROR | STR_MESSAGE | RSYNC | Unlisted_command byte

text \<open>The enumerators are numbered from \<open>VOID = 1\<close> in the order of the declaration.\<close>

definition listed_commands :: "command_id list" where
  "listed_commands =
     [VOID, START_HTTP_SYNC, STOP_HTTP_SYNC, SHOW_HTTP, CLEAR_HTTP, WRITE_HTTP, STOP_RECENT_SYNC,
      START_RECENT_SYNC, SHOW_RECENT, CLEAR_RECENT, CLEAR_RECENT_TABLE, WRITE_RECENT_TABLE,
      WRITE_RECENT, SW_TO_MASTER, SW_TO_CLIENT, COUNT_RECENT, SHOW_MODE, QUIT, COUNT_HTTP,
      CTL_ERROR, STR_MESSAGE, RSYNC]"

fun index_from :: "nat \<Rightarrow> 'a list \<Rightarrow> 'a \<Rightarrow> nat option" where
  "index_from n [] x = None"
| "index_from n (y # ys) x = (if x = y then Some n else index_from (Suc n) ys x)"

definition command_code :: "command_id \<Rightarrow> byte" where
  "command_code c =
     (case c of Unlisted_command b \<Rightarrow> b
      | _ \<Rightarrow> (case index_from 1 listed_commands c of None \<Rightarrow> 0 | Some n \<Rightarrow> word_of_nat n))"

definition command_of_byte :: "byte \<Rightarrow> command_id" where
  "command_of_byte b =
     (let n = unat b
      in if 1 \<le> n \<and> n \<le> length listed_commands then listed_commands ! (n - 1) else Unlisted_command b)"

lemma command_of_code [simp]:
  "c \<in> set listed_commands \<Longrightarrow> command_of_byte (command_code c) = c"
  by (cases c) (simp_all add: command_of_byte_def command_code_def listed_commands_def Let_def)

record command_pkt = conn_packet +
  command :: command_id
  command_data :: string
  server_port :: s32
  server_address :: string

definition new_command_pkt :: "command_pkt \<Rightarrow> command_pkt" where
  "new_command_pkt u =
     conn_packet.extend (new_typed_packet CTL_COMMAND)
       \<lparr>command = command u, command_data = [], server_port = server_port u, server_address = []\<rparr>"

section \<open>A pointer to a packet\<close>

text \<open>
  What a \<open>conn_packet *\<close> points to: the dynamic class with its members. A \<open>static_cast\<close> to a derived
  class is a case distinction; the wrong class is undefined behaviour.
\<close>

datatype packet =
  Base_pkt conn_packet
| Recent_pkt xt_recent_action
| Table_pkt xt_recent_table
| Http_pkt http_action
| Command_pkt command_pkt

fun base_of :: "packet \<Rightarrow> conn_packet" where
  "base_of (Base_pkt p) = p"
| "base_of (Recent_pkt a) = conn_packet.truncate a"
| "base_of (Table_pkt t) = conn_packet.truncate t"
| "base_of (Http_pkt a) = conn_packet.truncate a"
| "base_of (Command_pkt c) = conn_packet.truncate c"

fun set_pkt_fd :: "int \<Rightarrow> packet \<Rightarrow> packet" where
  "set_pkt_fd d (Base_pkt p) = Base_pkt (p\<lparr>pkt_fd := d\<rparr>)"
| "set_pkt_fd d (Recent_pkt a) = Recent_pkt (a\<lparr>pkt_fd := d\<rparr>)"
| "set_pkt_fd d (Table_pkt t) = Table_pkt (t\<lparr>pkt_fd := d\<rparr>)"
| "set_pkt_fd d (Http_pkt a) = Http_pkt (a\<lparr>pkt_fd := d\<rparr>)"
| "set_pkt_fd d (Command_pkt c) = Command_pkt (c\<lparr>pkt_fd := d\<rparr>)"

lemma truncate_fields [simp]:
  "pkt_fd (conn_packet.truncate p) = pkt_fd p"
  "pkt_type (conn_packet.truncate p) = pkt_type p"
  "header_1 (conn_packet.truncate p) = header_1 p"
  "header_2 (conn_packet.truncate p) = header_2 p"
  "pkt_len (conn_packet.truncate p) = pkt_len p"
  by (simp_all add: conn_packet.truncate_def)

lemma base_of_set_pkt_fd [simp]:
  "pkt_fd (base_of (set_pkt_fd d p)) = d"
  "pkt_type (base_of (set_pkt_fd d p)) = pkt_type (base_of p)"
  by (cases p; simp)+

lemma new_conn_packet_simps [simp]:
  "pkt_fd new_conn_packet = - 1" "pkt_type new_conn_packet = CONNECT"
  "header_1 new_conn_packet = 0xef" "header_2 new_conn_packet = 0xab" "pkt_len new_conn_packet = 0"
  by (simp_all add: new_conn_packet_def)

section \<open>Sample values\<close>

text \<open>Concrete values at which the theorems are applied.\<close>

definition sample_entry :: xt_recent_entry where
  "sample_entry = \<lparr>src_ip = ipv4_string [192, 168, 0, 10], ttl = 64, last_seen = None, last_seen_index = 2,
     ip_fam = IPV4, timestamps = [4705397993, 4705398000]\<rparr>"

definition sample_action :: xt_recent_action where
  "sample_action = (new_xt_recent_action sample_entry ADD_UPD_ENTRY)
     \<lparr>target_entry := sample_entry, xt_table_name := ''ssh''\<rparr>"

lemma sample_action_fields [simp]:
  "pkt_type sample_action = XT_RECENT_SYNC" "pkt_fd sample_action = - 1" "action sample_action = ADD_UPD_ENTRY"
  "xt_table_name sample_action = ''ssh''" "target_entry sample_action = sample_entry"
  by (simp_all add: sample_action_def new_xt_recent_action_def conn_packet.extend_def new_typed_packet_def)

definition sample_session :: http_session where
  "sample_session = \<lparr>key = ''10.0.0.7'', backend_id = 3, content = ''cookie'', last_acc = 1509970000\<rparr>"

definition sample_http :: http_action where
  "sample_http =
     conn_packet.extend (new_typed_packet HTTP_SYNC)
       \<lparr>http_act = SESS_ADD, service = 1, listener = 2, backend = 3, session = sample_session,
        farm_name = ''web''\<rparr>"

lemma sample_http_fields [simp]:
  "pkt_type sample_http = HTTP_SYNC" "pkt_fd sample_http = - 1" "http_act sample_http = SESS_ADD"
  "service sample_http = 1" "listener sample_http = 2" "backend sample_http = 3"
  "session sample_http = sample_session" "farm_name sample_http = ''web''"
  by (simp_all add: sample_http_def conn_packet.extend_def new_typed_packet_def)

end
