(* ===== verification/Session_Store.thy ===== *)
theory Session_Store
  imports Conn_Packet
begin

text \<open>
  The two stores every worker keeps and the operations that change them from actions:
  \<open>base_sync::recent_data\<close> with \<open>apply_recent_action\<close>, and \<open>base_sync::http_session_data\<close> with
  \<open>apply_http_action\<close>, \<open>clear_http_data\<close> and \<open>clear_http_farm_data\<close> (\<open>sync/base_sync.cpp\<close>). Master and
  backup run the same code on them; the last part of each section gives the abstract view of a store
  as a partial function and what each action does to it.
\<close>

section \<open>Recent-match tables\<close>

type_synonym recent_store = "(string, xt_recent_table) omap"

text \<open>
  The \<open>switch\<close> of \<open>apply_recent_action\<close>; the second component is the returned flag. \<open>recent_data[name]\<close>
  creates a default table, without a name, when the key is missing.
\<close>

definition apply_recent_action :: "xt_recent_action \<Rightarrow> recent_store \<Rightarrow> recent_store \<times> bool" where
  "apply_recent_action a d =
     (let n = xt_table_name a;
          e = target_entry a
      in case action a of
           DELETE_TABLE \<Rightarrow> (d, True)
         | DELETE_ENTRY \<Rightarrow>
             (case mget d n of
                None \<Rightarrow> (d, True)
              | Some t \<Rightarrow> (mput n (t\<lparr>entries := merase (get_src_ip e) (entries t)\<rparr>) d, True))
         | FLUSH_TABLE \<Rightarrow> (mput n ((mref new_xt_recent_table d n)\<lparr>entries := []\<rparr>) d, True)
         | ADD_UPD_ENTRY \<Rightarrow>
             (let d = (if mhas d n then d else mput n (new_xt_recent_table\<lparr>table_name := n\<rparr>) d);
                  t = mref new_xt_recent_table d n
              in (mput n (t\<lparr>entries := mput (get_src_ip e) e (entries t)\<rparr>) d, True))
         | Unlisted_action _ \<Rightarrow> (d, True))"

definition apply_recent_actions :: "xt_recent_action list \<Rightarrow> recent_store \<Rightarrow> recent_store" where
  "apply_recent_actions as d = foldl (\<lambda>d a. fst (apply_recent_action a d)) d as"

text \<open>The abstract view: which entry a table holds for an address.\<close>

definition recent_view :: "recent_store \<Rightarrow> string \<Rightarrow> string \<Rightarrow> xt_recent_entry option" where
  "recent_view d n k = (case mget d n of None \<Rightarrow> None | Some t \<Rightarrow> mget (entries t) k)"

text \<open>Well-formed: ordered maps all the way down, and every entry is stored under its own address.\<close>

definition entries_ok :: "(string, xt_recent_entry) omap \<Rightarrow> bool" where
  "entries_ok m \<longleftrightarrow> omap_ok m \<and> (\<forall>(k, e) \<in> set m. src_ip e = k)"

definition recent_ok :: "recent_store \<Rightarrow> bool" where
  "recent_ok d \<longleftrightarrow> omap_ok d \<and> (\<forall>(n, t) \<in> set d. entries_ok (entries t))"

lemma entries_ok_iff: "entries_ok m \<longleftrightarrow> omap_ok m \<and> (\<forall>k e. mget m k = Some e \<longrightarrow> src_ip e = k)"
  using omap_in_set [of m] by (fastforce simp: entries_ok_def)

lemma recent_ok_iff:
  "recent_ok d \<longleftrightarrow> omap_ok d \<and> (\<forall>n t. mget d n = Some t \<longrightarrow> entries_ok (entries t))"
  using omap_in_set [of d] by (fastforce simp: recent_ok_def)

lemma entries_ok_mput [simp]: "entries_ok m \<Longrightarrow> src_ip e = k \<Longrightarrow> entries_ok (mput k e m)"
  by (auto simp: entries_ok_iff store_simps)

lemma entries_ok_merase [simp]: "entries_ok m \<Longrightarrow> entries_ok (merase k m)"
  by (auto simp: entries_ok_iff store_simps)

lemma entries_ok_Nil [simp]: "entries_ok []"
  by (simp add: entries_ok_def)

lemma entries_ok_single [simp]: "entries_ok [(k, e)] \<longleftrightarrow> src_ip e = k"
  by (simp add: entries_ok_def omap_ok_def)

lemma recent_ok_Nil [simp]: "recent_ok []"
  by (simp add: recent_ok_def)

lemma new_xt_recent_table_simps [simp]:
  "entries new_xt_recent_table = []" "table_name new_xt_recent_table = []"
  by (simp_all add: new_xt_recent_table_def conn_packet.extend_def)

lemma apply_recent_flag [simp]: "snd (apply_recent_action a d) = True"
  by (auto simp: apply_recent_action_def Let_def split: action_type.split option.split)

lemma apply_recent_ok:
  assumes "recent_ok d"
  shows "recent_ok (fst (apply_recent_action a d))"
  using assms
  by (auto simp: apply_recent_action_def Let_def recent_ok_iff store_simps mref_def mhas_def
      get_src_ip_def split: action_type.split option.splits if_splits)

text \<open>What each action does to the view.\<close>

lemma recent_view_apply:
  "recent_view (fst (apply_recent_action a d)) n k =
   (if n = xt_table_name a then
      (case action a of
         ADD_UPD_ENTRY \<Rightarrow> if k = src_ip (target_entry a) then Some (target_entry a) else recent_view d n k
       | DELETE_ENTRY \<Rightarrow> if k = src_ip (target_entry a) then None else recent_view d n k
       | FLUSH_TABLE \<Rightarrow> None
       | _ \<Rightarrow> recent_view d n k)
    else recent_view d n k)"
  by (auto simp: apply_recent_action_def Let_def recent_view_def store_simps mref_def mhas_def
      get_src_ip_def split: action_type.split option.splits if_splits)

lemma apply_recent_actions_simps [simp]:
  "apply_recent_actions [] d = d"
  "apply_recent_actions (a # as) d = apply_recent_actions as (fst (apply_recent_action a d))"
  "apply_recent_actions (as @ bs) d = apply_recent_actions bs (apply_recent_actions as d)"
  by (simp_all add: apply_recent_actions_def)

lemma apply_recent_actions_ok: "recent_ok d \<Longrightarrow> recent_ok (apply_recent_actions as d)"
  by (induction as arbitrary: d) (auto simp: apply_recent_ok)

text \<open>
  Additions and deletions on one table act on it as updates of a map, the last one of an address
  deciding (the interface of \<open>std::map\<close>).
\<close>

definition action_update :: "xt_recent_action \<Rightarrow> (string \<times> xt_recent_entry option) list" where
  "action_update a =
     (case action a of
        ADD_UPD_ENTRY \<Rightarrow> [(src_ip (target_entry a), Some (target_entry a))]
      | DELETE_ENTRY \<Rightarrow> [(src_ip (target_entry a), None)]
      | _ \<Rightarrow> [])"

lemma recent_view_actions:
  assumes "\<forall>a \<in> set as. action a = ADD_UPD_ENTRY \<or> action a = DELETE_ENTRY"
  shows "recent_view (apply_recent_actions as d) n k =
    (case map_of (rev (concat (map action_update (filter (\<lambda>a. xt_table_name a = n) as)))) k of
       None \<Rightarrow> recent_view d n k | Some u \<Rightarrow> u)"
  using assms
proof (induction as arbitrary: d)
  case Nil
  then show ?case by simp
next
  case (Cons a as)
  then show ?case
    by (auto simp: recent_view_apply action_update_def map_add_def split: option.split)
qed

text \<open>The actions that decide what a table holds for an address.\<close>

definition concerns :: "string \<Rightarrow> string \<Rightarrow> xt_recent_action \<Rightarrow> bool" where
  "concerns n k a \<longleftrightarrow> xt_table_name a = n \<and>
     (action a = FLUSH_TABLE \<or>
      (action a = ADD_UPD_ENTRY \<or> action a = DELETE_ENTRY) \<and> src_ip (target_entry a) = k)"

lemma recent_view_concerns:
  "recent_view (fst (apply_recent_action a d)) n k =
   (if concerns n k a then (if action a = ADD_UPD_ENTRY then Some (target_entry a) else None)
    else recent_view d n k)"
  by (auto simp: recent_view_apply concerns_def split: action_type.split)

lemma recent_view_last:
  "recent_view (apply_recent_actions as d) n k =
   (case rev (filter (concerns n k) as) of
      [] \<Rightarrow> recent_view d n k
    | a # _ \<Rightarrow> if action a = ADD_UPD_ENTRY then Some (target_entry a) else None)"
  by (induction as arbitrary: d) (auto simp: recent_view_concerns split: list.split)

text \<open>The actions that create the table they name.\<close>

definition creates :: "string \<Rightarrow> xt_recent_action \<Rightarrow> bool" where
  "creates n a \<longleftrightarrow> xt_table_name a = n \<and> (action a = ADD_UPD_ENTRY \<or> action a = FLUSH_TABLE)"

lemma mhas_apply_recent: "mhas (fst (apply_recent_action a d)) n \<longleftrightarrow> mhas d n \<or> creates n a"
  by (auto simp: apply_recent_action_def Let_def creates_def store_simps mhas_def
      split: action_type.split option.split)

lemma mhas_apply_recents: "mhas (apply_recent_actions as d) n \<longleftrightarrow> mhas d n \<or> list_ex (creates n) as"
  by (induction as arbitrary: d) (auto simp: mhas_apply_recent)

section \<open>HTTP sessions\<close>

text \<open>\<open>std::map<farm, std::map<listener, std::map<service, http_service>>>\<close>.\<close>

type_synonym farm_store = "(u32, (u32, http_service) omap) omap"
type_synonym http_store = "(string, farm_store) omap"

text \<open>
  The additions: when the listener or the service is unknown, the listener is replaced by a map with
  the one new service. Evaluating \<open>http_session_data[farm]\<close> creates the farm.
\<close>

definition add_session :: "http_action \<Rightarrow> farm_store \<Rightarrow> farm_store" where
  "add_session a f =
     (let l = listener a; s = service a; ss = session a;
          f = (if \<not> mhas f l \<or> \<not> mhas (mref [] f l) s
               then mput l (mput s new_http_service []) f else f);
          svcs = mref [] f l;
          svc = mref new_http_service svcs s
      in mput l (mput s (svc\<lparr>sessions := mput (key ss) ss (sessions svc)\<rparr>) svcs) f)"

definition delete_session :: "http_action \<Rightarrow> farm_store \<Rightarrow> farm_store" where
  "delete_session a f =
     (let l = listener a; s = service a; k = key (session a);
          svcs = mref [] f l;
          svc = mref new_http_service svcs s
      in if mhas f l \<and> mhas svcs s \<and> mhas (sessions svc) k
         then mput l (mput s (svc\<lparr>sessions := merase k (sessions svc)\<rparr>) svcs) f
         else f)"

definition apply_http_action :: "http_action option \<Rightarrow> http_store \<Rightarrow> http_store \<times> bool" where
  "apply_http_action act d =
     (case act of
        None \<Rightarrow> (d, False)
      | Some a \<Rightarrow>
          (let n = farm_name a; f = mref [] d n
           in (case http_act a of
                 CLEAR_DATA \<Rightarrow> mput n [] d
               | SESS_WRITE \<Rightarrow> d
               | HTTP_SYNC_REQUEST \<Rightarrow> d
               | SESS_UPDATE \<Rightarrow> mput n (add_session a f) d
               | SESS_ADD \<Rightarrow> mput n (add_session a f) d
               | SESS_DELETE \<Rightarrow> mput n (delete_session a f) d
               | BCK_ADD \<Rightarrow> d
               | BCK_DELETE \<Rightarrow> d
               | BCK_UPDATE \<Rightarrow> d
               | Unlisted_http_action _ \<Rightarrow> d, True)))"

definition apply_http_actions :: "http_action list \<Rightarrow> http_store \<Rightarrow> http_store" where
  "apply_http_actions as d = foldl (\<lambda>d a. fst (apply_http_action (Some a) d)) d as"

definition clear_http_data :: "http_store \<Rightarrow> http_store" where
  "clear_http_data d = []"

definition clear_http_farm_data :: "string \<Rightarrow> http_store \<Rightarrow> http_store" where
  "clear_http_farm_data n d = (if mhas d n then mput n [] d else d)"

text \<open>The abstract view: the session stored under farm, listener, service and key.\<close>

definition service_sessions :: "farm_store \<Rightarrow> u32 \<Rightarrow> u32 \<Rightarrow> (string, http_session) omap option" where
  "service_sessions f l s =
     (case mget f l of None \<Rightarrow> None | Some svcs \<Rightarrow> map_option sessions (mget svcs s))"

definition farm_view :: "farm_store \<Rightarrow> u32 \<Rightarrow> u32 \<Rightarrow> string \<Rightarrow> http_session option" where
  "farm_view f l s k = (case service_sessions f l s of None \<Rightarrow> None | Some m \<Rightarrow> mget m k)"

definition http_view :: "http_store \<Rightarrow> string \<Rightarrow> u32 \<Rightarrow> u32 \<Rightarrow> string \<Rightarrow> http_session option" where
  "http_view d n l s k = (case mget d n of None \<Rightarrow> None | Some f \<Rightarrow> farm_view f l s k)"

definition farm_ok :: "farm_store \<Rightarrow> bool" where
  "farm_ok f \<longleftrightarrow> omap_ok f \<and>
     (\<forall>(l, svcs) \<in> set f. omap_ok svcs \<and>
        (\<forall>(s, svc) \<in> set svcs. omap_ok (sessions svc) \<and> (\<forall>(k, ss) \<in> set (sessions svc). key ss = k)))"

definition http_ok :: "http_store \<Rightarrow> bool" where
  "http_ok d \<longleftrightarrow> omap_ok d \<and> (\<forall>(n, f) \<in> set d. farm_ok f)"

lemma farm_ok_iff:
  "farm_ok f \<longleftrightarrow> omap_ok f \<and> (\<forall>l svcs. mget f l = Some svcs \<longrightarrow> omap_ok svcs \<and>
     (\<forall>s svc. mget svcs s = Some svc \<longrightarrow> omap_ok (sessions svc) \<and>
        (\<forall>k ss. mget (sessions svc) k = Some ss \<longrightarrow> key ss = k)))"
proof (cases "omap_ok f")
  case True
  have outer: "(\<forall>(l, svcs) \<in> set f. P svcs) \<longleftrightarrow> (\<forall>l svcs. mget f l = Some svcs \<longrightarrow> P svcs)" for P
    using omap_in_set [OF True] by fastforce
  have inner: "(\<forall>(s, svc) \<in> set svcs. Q svc) \<longleftrightarrow> (\<forall>s svc. mget svcs s = Some svc \<longrightarrow> Q svc)"
    if "omap_ok svcs" for svcs :: "(u32, http_service) omap" and Q
    using omap_in_set [OF that] by fastforce
  have last: "(\<forall>(k, ss) \<in> set m. key ss = k) \<longleftrightarrow> (\<forall>k ss. mget m k = Some ss \<longrightarrow> key ss = k)"
    if "omap_ok m" for m :: "(string, http_session) omap"
    using omap_in_set [OF that] by fastforce
  show ?thesis
    by (simp add: farm_ok_def outer inner last cong: conj_cong)
qed (simp add: farm_ok_def)

lemma http_ok_iff: "http_ok d \<longleftrightarrow> omap_ok d \<and> (\<forall>n f. mget d n = Some f \<longrightarrow> farm_ok f)"
  using omap_in_set [of d] by (fastforce simp: http_ok_def)

lemma farm_ok_Nil [simp]: "farm_ok []"
  by (simp add: farm_ok_def)

lemma http_ok_Nil [simp]: "http_ok []"
  by (simp add: http_ok_def)

lemma http_ok_mput [simp]: "http_ok d \<Longrightarrow> farm_ok f \<Longrightarrow> http_ok (mput n f d)"
  by (auto simp: http_ok_iff store_simps)

lemma http_ok_mref [simp]: "http_ok d \<Longrightarrow> farm_ok (mref [] d n)"
  by (auto simp: http_ok_iff mref_def split: option.split)

lemma farm_ok_mput: "farm_ok f \<Longrightarrow> omap_ok svcs \<Longrightarrow>
   (\<forall>s svc. mget svcs s = Some svc \<longrightarrow> omap_ok (sessions svc) \<and>
      (\<forall>k ss. mget (sessions svc) k = Some ss \<longrightarrow> key ss = k)) \<Longrightarrow> farm_ok (mput l svcs f)"
  by (auto simp: farm_ok_iff store_simps)

lemma new_http_service_simps [simp]: "sessions new_http_service = []"
  by (simp add: new_http_service_def)

lemma farm_okD:
  assumes "farm_ok f"
  shows "omap_ok (mref [] f l)"
    and "mget (mref [] f l) s = Some svc \<Longrightarrow> omap_ok (sessions svc)"
    and "mget (mref [] f l) s = Some svc \<Longrightarrow> mget (sessions svc) k = Some ss \<Longrightarrow> key ss = k"
  using assms by (auto simp: farm_ok_iff mref_def split: option.splits)

lemma add_session_ok:
  assumes "farm_ok f"
  shows "farm_ok (add_session a f)"
proof -
  let ?f = "if \<not> mhas f (listener a) \<or> \<not> mhas (mref [] f (listener a)) (service a)
            then mput (listener a) (mput (service a) new_http_service []) f else f"
  have "farm_ok ?f" using assms by (auto intro!: farm_ok_mput split: if_splits)
  then show ?thesis
    unfolding add_session_def Let_def
    by (intro farm_ok_mput) (auto simp: store_simps farm_okD mref_def [of new_http_service] split: option.splits)
qed

lemma delete_session_ok:
  assumes "farm_ok f"
  shows "farm_ok (delete_session a f)"
proof (cases "mget (mref [] f (listener a)) (service a)")
  case None
  then show ?thesis
    using assms by (simp add: delete_session_def Let_def mhas_def)
next
  case (Some svc)
  have "farm_ok (mput (listener a) (mput (service a)
      (svc\<lparr>sessions := merase (key (session a)) (sessions svc)\<rparr>) (mref [] f (listener a))) f)"
    using assms Some
    by (intro farm_ok_mput) (auto simp: store_simps farm_okD(1) dest: farm_okD split: if_splits)
  then show ?thesis
    using assms Some by (simp add: delete_session_def Let_def mhas_def mref_def [of new_http_service])
qed

lemma apply_http_ok: "http_ok d \<Longrightarrow> http_ok (fst (apply_http_action a d))"
  by (auto simp: apply_http_action_def Let_def add_session_ok delete_session_ok
      split: option.split http_action_type.split)

lemma apply_http_flag [simp]: "snd (apply_http_action (Some a) d) = True"
  by (simp add: apply_http_action_def Let_def)

text \<open>Sessions of the service an addition targets, and of every other service.\<close>

lemma service_sessions_add:
  "service_sessions (add_session a f) l s =
   (if l = listener a then
      (if s = service a then
         Some (mput (key (session a)) (session a)
           (case service_sessions f l s of None \<Rightarrow> [] | Some m \<Rightarrow> m))
       else if service_sessions f l (service a) = None then None
       else service_sessions f l s)
    else service_sessions f l s)"
  by (auto simp: add_session_def service_sessions_def Let_def store_simps mhas_def mref_def
      split: option.splits)

lemma service_sessions_delete:
  "service_sessions (delete_session a f) l s =
   (if l = listener a \<and> s = service a
    then map_option (merase (key (session a))) (service_sessions f l s)
    else service_sessions f l s)"
proof -
  have absent: "merase k m = m" if "mget m k = None" for k and m :: "(string, http_session) omap"
    using that by (induction m) (auto simp: merase_def split: if_splits)
  show ?thesis
    by (auto simp: delete_session_def service_sessions_def Let_def store_simps mhas_def mref_def absent
        split: option.splits)
qed

text \<open>
  What each action does to the view. An addition keeps every other session, except that it drops the
  other services of its listener when its own service is not there yet.
\<close>

lemma farm_view_add:
  "farm_view (add_session a f) l s k =
   (if l = listener a \<and> s = service a then
      (if k = key (session a) then Some (session a) else farm_view f l s k)
    else if l = listener a \<and> service_sessions f l (service a) = None then None
    else farm_view f l s k)"
  by (auto simp: farm_view_def service_sessions_add store_simps split: option.split)

lemma farm_view_delete:
  "farm_view (delete_session a f) l s k =
   (if l = listener a \<and> s = service a \<and> k = key (session a) then None else farm_view f l s k)"
  by (auto simp: farm_view_def service_sessions_delete store_simps split: option.split)

lemma http_view_mref: "http_view d n l s k = farm_view (mref [] d n) l s k"
  by (auto simp: http_view_def mref_def farm_view_def service_sessions_def split: option.split)

lemma http_view_apply:
  "http_view (fst (apply_http_action (Some a) d)) n l s k =
   (if n = farm_name a then
      (case http_act a of
         CLEAR_DATA \<Rightarrow> None
       | SESS_ADD \<Rightarrow> farm_view (add_session a (mref [] d n)) l s k
       | SESS_UPDATE \<Rightarrow> farm_view (add_session a (mref [] d n)) l s k
       | SESS_DELETE \<Rightarrow> farm_view (delete_session a (mref [] d n)) l s k
       | _ \<Rightarrow> http_view d n l s k)
    else http_view d n l s k)"
  by (auto simp: http_view_mref apply_http_action_def Let_def store_simps farm_view_def
      service_sessions_def split: http_action_type.split)

lemma apply_http_actions_simps [simp]:
  "apply_http_actions [] d = d"
  "apply_http_actions (a # as) d = apply_http_actions as (fst (apply_http_action (Some a) d))"
  "apply_http_actions (as @ bs) d = apply_http_actions bs (apply_http_actions as d)"
  by (simp_all add: apply_http_actions_def)

lemma apply_http_actions_ok: "http_ok d \<Longrightarrow> http_ok (apply_http_actions as d)"
  by (induction as arbitrary: d) (auto simp: apply_http_ok)

text \<open>
  The store as nested partial functions: for each farm, listener and service that is there, the sessions
  by key; and the actions on it. An addition to a service that is not there leaves the listener with this
  service only.
\<close>

type_synonym http_sessions = "string \<Rightarrow> u32 \<Rightarrow> u32 \<Rightarrow> (string \<rightharpoonup> http_session) option"

definition http_abs :: "http_store \<Rightarrow> http_sessions" where
  "http_abs d n l s = map_option mget (service_sessions (mref [] d n) l s)"

definition spec_add :: "http_action \<Rightarrow> http_sessions \<Rightarrow> http_sessions" where
  "spec_add a \<sigma> =
     (let n = farm_name a; l = listener a; s = service a; k = key (session a)
      in \<sigma>(n := (\<sigma> n)(l := (case \<sigma> n l s of
           None \<Rightarrow> [s \<mapsto> [k \<mapsto> session a]]
         | Some m \<Rightarrow> (\<sigma> n l)(s \<mapsto> m(k \<mapsto> session a))))))"

definition spec_delete :: "http_action \<Rightarrow> http_sessions \<Rightarrow> http_sessions" where
  "spec_delete a \<sigma> =
     (let n = farm_name a; l = listener a; s = service a
      in \<sigma>(n := (\<sigma> n)(l := (\<sigma> n l)(s := map_option (\<lambda>m. m(key (session a) := None)) (\<sigma> n l s)))))"

definition spec_action :: "http_sessions \<Rightarrow> http_action \<Rightarrow> http_sessions" where
  "spec_action \<sigma> a =
     (case http_act a of
        SESS_ADD \<Rightarrow> spec_add a \<sigma>
      | SESS_UPDATE \<Rightarrow> spec_add a \<sigma>
      | SESS_DELETE \<Rightarrow> spec_delete a \<sigma>
      | CLEAR_DATA \<Rightarrow> \<sigma>(farm_name a := (\<lambda>_ _. None))
      | _ \<Rightarrow> \<sigma>)"

lemma http_abs_mput:
  "http_abs (mput n f d) = (http_abs d)(n := (\<lambda>l s. map_option mget (service_sessions f l s)))"
  by (auto simp: http_abs_def store_simps fun_eq_iff)

lemma http_abs_add: "http_abs (mput (farm_name a) (add_session a (mref [] d (farm_name a))) d) = spec_add a (http_abs d)"
  by (auto simp: http_abs_mput spec_add_def Let_def service_sessions_add http_abs_def store_simps fun_eq_iff
      split: option.split)

lemma http_abs_delete:
  "http_abs (mput (farm_name a) (delete_session a (mref [] d (farm_name a))) d) = spec_delete a (http_abs d)"
  by (auto simp: http_abs_mput spec_delete_def Let_def service_sessions_delete http_abs_def store_simps
      fun_eq_iff option.map_comp comp_def intro!: option.map_cong0)

lemma http_abs_clear: "http_abs (mput n [] d) = (http_abs d)(n := (\<lambda>_ _. None))"
  by (simp add: http_abs_mput service_sessions_def)

lemma http_abs_action: "http_abs (fst (apply_http_action (Some a) d)) = spec_action (http_abs d) a"
  by (simp add: apply_http_action_def Let_def spec_action_def http_abs_add http_abs_delete http_abs_clear
      split: http_action_type.split)

lemma http_view_abs: "http_view d n l s k = (case http_abs d n l s of None \<Rightarrow> None | Some m \<Rightarrow> m k)"
  by (simp add: http_view_mref farm_view_def http_abs_def split: option.split)

section \<open>Properties\<close>

text \<open>What one recent action does to the tables, on every branch: an addition stores its entry
  under its address, a deletion removes the address, a flush empties the table, any other action and any
  other table or address is left alone; the call always reports success.\<close>

theorem recent_action_effect:
  "recent_view (fst (apply_recent_action a d)) n k =
     (if n = xt_table_name a \<and> action a = FLUSH_TABLE then None
      else if n = xt_table_name a \<and> k = src_ip (target_entry a) \<and> action a = ADD_UPD_ENTRY
      then Some (target_entry a)
      else if n = xt_table_name a \<and> k = src_ip (target_entry a) \<and> action a = DELETE_ENTRY then None
      else recent_view d n k) \<and>
   snd (apply_recent_action a d)"
  by (auto simp: recent_view_apply split: action_type.split)

text \<open>C24: after any sequence of recent actions on any tables, what a table holds for an address is what
  the last action that concerns both says: the entry it carried for an addition, nothing for a deletion
  of the address or a flush of the table, and what was there before when no action concerns them. The
  tables are those from before and those that an addition or a flush names.\<close>

theorem last_action_decides:
  "recent_view (apply_recent_actions as d) n k =
     (case rev (filter (concerns n k) as) of
        [] \<Rightarrow> recent_view d n k
      | a # _ \<Rightarrow> if action a = ADD_UPD_ENTRY then Some (target_entry a) else None) \<and>
   (mhas (apply_recent_actions as d) n \<longleftrightarrow> mhas d n \<or> list_ex (creates n) as)"
  by (simp only: recent_view_last mhas_apply_recents simp_thms)

text \<open>Every sequence of recent actions keeps the tables well formed: keys in increasing order, and
  each entry stored under its own address.\<close>

theorem recent_store_stays_ok:
  assumes "recent_ok d"
  shows "recent_ok (apply_recent_actions as d)"
  using assms by (rule apply_recent_actions_ok)

theorem recent_store_stays_ok_witness: "recent_ok (apply_recent_actions [sample_action, sample_action] [])"
  by (rule recent_store_stays_ok) simp

text \<open>C25: an HTTP session that is added or updated is found under its farm, listener, service and key;
  everything else stays, except that all other services of the listener are dropped when the service is
  not there yet.\<close>

theorem http_add_effect:
  assumes "http_act a = SESS_ADD \<or> http_act a = SESS_UPDATE"
  shows "http_view (fst (apply_http_action (Some a) d)) n l s k =
    (if n = farm_name a \<and> l = listener a then
       (if s = service a \<and> k = key (session a) then Some (session a)
        else if s \<noteq> service a \<and> service_sessions (mref [] d n) l (service a) = None then None
        else http_view d n l s k)
     else http_view d n l s k)"
  using assms unfolding http_view_apply farm_view_add by (auto simp: http_view_mref)

text \<open>A session of service 2 is added to a listener that has service 1 only.\<close>

theorem http_add_effect_witness:
  "http_view (fst (apply_http_action (Some (sample_http\<lparr>http_act := SESS_ADD, farm_name := ''web'', listener := 1, service := 2\<rparr>))
      [(''web'', [(1, [(1, new_http_service\<lparr>sessions := [(''k'', sample_session)]\<rparr>)])])])) ''web'' 1 1 ''k'' = None"
  by (simp add: http_add_effect service_sessions_def mref_def)

text \<open>Deleting an HTTP session removes that session only, clearing a farm removes its sessions only,
  and the requests, the writes and the backend actions change nothing; a null action is refused.\<close>

theorem http_remove_effect:
  "http_view (fst (apply_http_action (Some (a\<lparr>http_act := SESS_DELETE\<rparr>)) d)) n l s k =
     (if n = farm_name a \<and> l = listener a \<and> s = service a \<and> k = key (session a) then None
      else http_view d n l s k) \<and>
   http_view (fst (apply_http_action (Some (a\<lparr>http_act := CLEAR_DATA\<rparr>)) d)) n l s k =
     (if n = farm_name a then None else http_view d n l s k) \<and>
   fst (apply_http_action (Some (a\<lparr>http_act := SESS_WRITE\<rparr>)) d) = d \<and>
   fst (apply_http_action (Some (a\<lparr>http_act := HTTP_SYNC_REQUEST\<rparr>)) d) = d \<and>
   apply_http_action None d = (d, False)"
proof (intro conjI)
  show "http_view (fst (apply_http_action (Some (a\<lparr>http_act := SESS_DELETE\<rparr>)) d)) n l s k =
     (if n = farm_name a \<and> l = listener a \<and> s = service a \<and> k = key (session a) then None
      else http_view d n l s k)"
    unfolding http_view_apply farm_view_delete by (simp add: http_view_mref)
  show "http_view (fst (apply_http_action (Some (a\<lparr>http_act := CLEAR_DATA\<rparr>)) d)) n l s k =
     (if n = farm_name a then None else http_view d n l s k)"
    unfolding http_view_apply by simp
qed (simp_all add: http_view_apply apply_http_action_def Let_def)

text \<open>C26: any sequence of HTTP actions does to the store what it does to the nested partial functions of
  farms, listeners, services and keys: additions and updates set the session of a key, a deletion takes
  it away, a clearing empties the farm, every other action does nothing, and nothing else changes but the
  services an addition drops. The clearings of the worker empty all farms, or one.\<close>

theorem http_store_refines_sessions:
  "http_abs (apply_http_actions as d) = foldl spec_action (http_abs d) as \<and>
   http_abs (clear_http_data d) = (\<lambda>_ _ _. None) \<and>
   http_abs (clear_http_farm_data n d) = (http_abs d)(n := (\<lambda>_ _. None))"
proof (intro conjI)
  show "http_abs (apply_http_actions as d) = foldl spec_action (http_abs d) as"
    by (induction as arbitrary: d) (simp_all add: http_abs_action)
  show "http_abs (clear_http_farm_data n d) = (http_abs d)(n := (\<lambda>_ _. None))"
    by (auto simp: clear_http_farm_data_def http_abs_clear)
      (auto simp: http_abs_def service_sessions_def mref_def mhas_def fun_eq_iff split: option.split)
qed (simp add: http_abs_def clear_http_data_def service_sessions_def mref_def mget_def fun_eq_iff)

text \<open>Every sequence of HTTP actions keeps the store well formed: keys in increasing order at every
  level, and each session stored under its own key.\<close>

theorem http_store_stays_ok:
  assumes "http_ok d"
  shows "http_ok (apply_http_actions as d)"
  using assms by (rule apply_http_actions_ok)

theorem http_store_stays_ok_witness: "http_ok (apply_http_actions [sample_http, sample_http] [])"
  by (rule http_store_stays_ok) simp

end
