(* ===== verification/Xt_Recent_Proc.thy ===== *)
theory Xt_Recent_Proc
  imports Session_Store
begin

text \<open>
  \<open>xt_recent/xt_recent_proc.h\<close> and \<open>.cpp\<close>: reading the kernel's tables from \<open>/proc/net/xt_recent/\<close>.

  RE2 is not part of the repository: \<open>RE2::PartialMatch\<close> is the argument \<open>pm\<close>, which maps a text and
  a pattern to the captured group. Its documented behaviour on a row of the kernel is the named
  hypothesis \<open>re2_reads_rows\<close>. The file system is an argument too: \<open>files\<close> gives the lines of a file
  (none when it cannot be opened, as \<open>std::getline\<close> sees it), a directory is a list of names with the
  flag \<open>d_type == DT_REG\<close>.
\<close>

type_synonym re2 = "string \<Rightarrow> string \<Rightarrow> string option"
type_synonym files = "string \<Rightarrow> string list"
type_synonym directory = "(string \<times> bool) list"

section \<open>The patterns\<close>

definition re_digit :: string where
  "re_digit = [CHR 0x5C, CHR ''d'']"

text \<open>The array has six elements; the initialiser names five of them.\<close>

definition regs_patterns :: "string list" where
  "regs_patterns =
     [''src=('' @ re_digit @ ''{1,3}.'' @ re_digit @ ''{1,3}.'' @ re_digit @ ''{1,3}.'' @ re_digit @
        ''{1,3})'',
      ''.*ttl: ('' @ re_digit @ ''+)'',
      ''.*last_seen: ('' @ re_digit @ ''+)'',
      ''.*oldest_pkt: ('' @ re_digit @ ''+)'',
      ''.*oldest_pkt: '' @ re_digit @ ''+ (.*)'',
      []]"

definition parse_data :: "re2 \<Rightarrow> string \<Rightarrow> string \<Rightarrow> string" where
  "parse_data pm str reg_pattern =
     (case pm str reg_pattern of Some res \<Rightarrow> res | None \<Rightarrow> [])"

section \<open>A row and a table\<close>

text \<open>
  \<open>stoi\<close> and \<open>stoul\<close> throw on a row that does not match. Every member that \<open>u\<close> supplies is assigned.
\<close>

definition parse_file_row :: "re2 \<Rightarrow> xt_recent_entry \<Rightarrow> string \<Rightarrow> conv_error + xt_recent_entry" where
  "parse_file_row pm u str_row =
     (let s_src = parse_data pm str_row (regs_patterns ! 0);
          s_ttl = parse_data pm str_row (regs_patterns ! 1);
          s_last_seen = parse_data pm str_row (regs_patterns ! 2);
          s_oldest_packet_index = parse_data pm str_row (regs_patterns ! 3);
          s_timestamps = parse_data pm str_row (regs_patterns ! 4);
          entry = set_src_ip s_src (new_xt_recent_entry u)
      in case stoi s_oldest_packet_index of Inl e \<Rightarrow> Inl e | Inr index \<Rightarrow>
         case stoul s_last_seen of Inl e \<Rightarrow> Inl e | Inr seen \<Rightarrow>
         case stoi s_ttl of Inl e \<Rightarrow> Inl e | Inr t \<Rightarrow>
         (let entry = (set_ttl t (set_last_seen seen (set_oldest_pkt_index index entry)))
                        \<lparr>ip_fam := IPV4\<rparr>
          in case map_tokens stoul (strsep_tokens (CHR '','') (c_str s_timestamps)) of
               Inl e \<Rightarrow> Inl e
             | Inr tmps \<Rightarrow>
                 Inr (entry\<lparr>timestamps := timestamps entry @ filter (\<lambda>tmp. tmp \<noteq> 0) tmps\<rparr>)))"

fun table_rows ::
    "re2 \<Rightarrow> xt_recent_entry \<Rightarrow> string list \<Rightarrow> xt_recent_table \<Rightarrow> conv_error + xt_recent_table" where
  "table_rows pm u [] table = Inr table"
| "table_rows pm u (line # rest) table =
     (case parse_file_row pm u line of
        Inl e \<Rightarrow> Inl e
      | Inr new_entry \<Rightarrow>
          table_rows pm u rest
            (if get_src_ip new_entry \<noteq> []
             then table\<lparr>entries := mput (get_src_ip new_entry) new_entry (entries table)\<rparr>
             else table))"

definition xt_recent_dir :: string where
  "xt_recent_dir = ''/proc/net/xt_recent/''"

definition get_table ::
    "re2 \<Rightarrow> xt_recent_entry \<Rightarrow> files \<Rightarrow> string \<Rightarrow> conv_error + xt_recent_table" where
  "get_table pm u files name =
     table_rows pm u (files (xt_recent_dir @ name)) (new_xt_recent_table\<lparr>table_name := name\<rparr>)"

fun entry_rows ::
    "re2 \<Rightarrow> xt_recent_entry \<Rightarrow> string list \<Rightarrow> conv_error + xt_recent_entry list" where
  "entry_rows pm u [] = Inr []"
| "entry_rows pm u (line # rest) =
     (case parse_file_row pm u line of
        Inl e \<Rightarrow> Inl e
      | Inr new_entry \<Rightarrow>
          (case entry_rows pm u rest of
             Inl e \<Rightarrow> Inl e
           | Inr es \<Rightarrow> Inr (if get_src_ip new_entry \<noteq> [] then new_entry # es else es)))"

definition get_table_entries ::
    "re2 \<Rightarrow> xt_recent_entry \<Rightarrow> files \<Rightarrow> string \<Rightarrow> conv_error + xt_recent_entry list" where
  "get_table_entries pm u files path = entry_rows pm u (files path)"

definition get_xt_recent_tables ::
    "re2 \<Rightarrow> xt_recent_entry \<Rightarrow> files \<Rightarrow> directory option \<Rightarrow> xt_recent_table list run" where
  "get_xt_recent_tables pm u files dir =
     (case dir of
        None \<Rightarrow> Exits 1
      | Some ds \<Rightarrow>
          (case map_tokens (\<lambda>(name, _). get_table pm u files name) (filter snd ds) of
             Inl e \<Rightarrow> Throws e
           | Inr tables \<Rightarrow> Done tables))"

section \<open>Rows as the kernel prints them\<close>

text \<open>
  A row of \<open>/proc/net/xt_recent/\<close> for an IPv4 entry with at least one time stamp, and what the
  documentation of RE2 says the five patterns capture on it.
\<close>

fun stamps_tail :: "u64 list \<Rightarrow> string" where
  "stamps_tail [] = []"
| "stamps_tail (t # ts) = '', '' @ to_string_u t @ stamps_tail ts"

definition proc_row :: "byte list \<Rightarrow> byte \<Rightarrow> u64 \<Rightarrow> byte \<Rightarrow> u64 \<Rightarrow> u64 list \<Rightarrow> string" where
  "proc_row ip t seen index stamp stamps =
     ''src='' @ ipv4_string ip @ '' ttl: '' @ to_string_u t @ '' last_seen: '' @ to_string_u seen @
     '' oldest_pkt: '' @ to_string_u index @ '' '' @ to_string_u stamp @ stamps_tail stamps"

definition re2_reads_rows :: "re2 \<Rightarrow> bool" where
  "re2_reads_rows pm \<longleftrightarrow> (\<forall>ip t seen index stamp stamps. length ip = 4 \<longrightarrow>
     (let row = proc_row ip t seen index stamp stamps
      in pm row (regs_patterns ! 0) = Some (ipv4_string ip) \<and>
         pm row (regs_patterns ! 1) = Some (to_string_u t) \<and>
         pm row (regs_patterns ! 2) = Some (to_string_u seen) \<and>
         pm row (regs_patterns ! 3) = Some (to_string_u index) \<and>
         pm row (regs_patterns ! 4) = Some (to_string_u stamp @ stamps_tail stamps)))"

definition row_entry :: "xt_recent_entry \<Rightarrow> byte list \<Rightarrow> byte \<Rightarrow> u64 \<Rightarrow> byte \<Rightarrow> u64 list \<Rightarrow> xt_recent_entry" where
  "row_entry u ip t seen index stamps =
     (new_xt_recent_entry u)\<lparr>src_ip := ipv4_string ip, ttl := ucast t, last_seen := Some seen,
        last_seen_index := ucast index, ip_fam := IPV4, timestamps := filter (\<lambda>s. s \<noteq> 0) stamps\<rparr>"

text \<open>The tokens between the commas keep the blank after the comma, which \<open>stoul\<close> skips.\<close>

lemma no_comma_to_string_u: "CHR '','' \<notin> set (to_string_u w)"
  by (auto simp: to_string_u_def dest: dec_no_special)

lemma stamps_join:
  "to_string_u (t :: u64) @ stamps_tail ts = join_with (CHR '','') (to_string_u t # map (\<lambda>t. CHR '' '' # to_string_u t) ts)"
proof (induction ts arbitrary: t)
  case (Cons s ts)
  show ?case
  proof (cases ts)
    case Nil
    then show ?thesis by simp
  next
    case (Cons s' ts')
    with Cons.IH [of s] show ?thesis by simp
  qed
qed simp

lemma c_str_stamps: "c_str (to_string_u (t :: u64) @ stamps_tail ts) = to_string_u t @ stamps_tail ts"
proof -
  have "CHR 0x00 \<notin> set (to_string_u w)" for w :: u64
    by (auto simp: to_string_u_def is_digit_def dest!: dec_all_digits)
  then have "CHR 0x00 \<notin> set (to_string_u t @ stamps_tail ts)"
    by (induction ts) auto
  then show ?thesis unfolding c_str_def takeWhile_eq_all_conv by (metis (full_types))
qed

lemma stoul_space_digits [simp]: "stoul (CHR '' '' # to_string_u (w :: u64)) = Inr w"
proof -
  have "scan_int (CHR '' '' # s) = scan_int s" for s
    by (simp add: scan_int_def is_space_def)
  then have "stoul (CHR '' '' # to_string_u w) = stoul (to_string_u w)"
    by (simp add: stoul_def)
  then show ?thesis by simp
qed

lemma stamps_tokens:
  "map_tokens stoul (strsep_tokens (CHR '','') (c_str (to_string_u (t :: u64) @ stamps_tail ts))) = Inr (t # ts)"
proof -
  have "strsep_tokens (CHR '','') (c_str (to_string_u t @ stamps_tail ts)) =
      to_string_u t # map (\<lambda>t. CHR '' '' # to_string_u t) ts"
    unfolding c_str_stamps
    unfolding stamps_join
    by (rule strsep_tokens_join) (auto simp: no_comma_to_string_u)
  moreover have "map_tokens stoul (map (\<lambda>t. CHR '' '' # to_string_u t) ts) = Inr (map (\<lambda>t. t) ts)"
    by (rule map_tokens_Inr) simp
  ultimately show ?thesis by simp
qed

lemma parse_proc_row:
  assumes "re2_reads_rows pm" and "length ip = 4"
  shows "parse_file_row pm u (proc_row ip t seen index stamp stamps) =
    Inr (row_entry u ip t seen index (stamp # stamps))"
proof -
  have "parse_data pm (proc_row ip t seen index stamp stamps) (regs_patterns ! 0) = ipv4_string ip"
    "parse_data pm (proc_row ip t seen index stamp stamps) (regs_patterns ! 1) = to_string_u t"
    "parse_data pm (proc_row ip t seen index stamp stamps) (regs_patterns ! 2) = to_string_u seen"
    "parse_data pm (proc_row ip t seen index stamp stamps) (regs_patterns ! 3) = to_string_u index"
    "parse_data pm (proc_row ip t seen index stamp stamps) (regs_patterns ! 4) =
      to_string_u stamp @ stamps_tail stamps"
    using assms unfolding re2_reads_rows_def Let_def parse_data_def by auto
  then show ?thesis
    by (simp add: parse_file_row_def Let_def stamps_tokens row_entry_def new_xt_recent_entry_def
        set_src_ip_def set_ttl_def set_last_seen_def set_oldest_pkt_index_def)
qed

text \<open>A row without time stamps makes \<open>stoul\<close> throw, as does any row the patterns do not match.\<close>

lemma stoi_empty [simp]: "stoi [] = Inl Invalid_argument"
  by (simp add: stoi_def scan_int_def)

lemma stoul_empty [simp]: "stoul [] = Inl Invalid_argument"
  by (simp add: stoul_def scan_int_def)

lemma parse_row_unmatched:
  assumes "pm row (regs_patterns ! 3) = None"
  shows "parse_file_row pm u row = Inl Invalid_argument"
  using assms by (simp add: parse_file_row_def Let_def parse_data_def)

section \<open>A file of such rows\<close>

type_synonym row = "byte list \<times> byte \<times> u64 \<times> byte \<times> u64 \<times> u64 list"

fun row_text :: "row \<Rightarrow> string" where
  "row_text (ip, t, seen, index, stamp, stamps) = proc_row ip t seen index stamp stamps"

fun row_ip :: "row \<Rightarrow> string" where
  "row_ip (ip, _) = ipv4_string ip"

fun row_value :: "xt_recent_entry \<Rightarrow> row \<Rightarrow> xt_recent_entry" where
  "row_value u (ip, t, seen, index, stamp, stamps) = row_entry u ip t seen index (stamp # stamps)"

definition rows_ok :: "row list \<Rightarrow> bool" where
  "rows_ok rows \<longleftrightarrow> (\<forall>r \<in> set rows. length (fst r) = 4)"

definition rows_entries ::
    "xt_recent_entry \<Rightarrow> row list \<Rightarrow> (string, xt_recent_entry) omap \<Rightarrow> (string, xt_recent_entry) omap" where
  "rows_entries u rows m = foldl (\<lambda>m r. mput (row_ip r) (row_value u r) m) m rows"

lemma ipv4_string_nonempty [simp]: "length ip = 4 \<Longrightarrow> ipv4_string ip \<noteq> []"
  using is_ipv4_chars(1) [OF is_ipv4_string, of ip] by auto

lemma row_value_ip: "src_ip (row_value u r) = row_ip r"
  by (cases r) (simp add: row_entry_def)

lemma table_rows_texts:
  assumes "re2_reads_rows pm" and "rows_ok rows"
  shows "table_rows pm u (map row_text rows) table =
    Inr (table\<lparr>entries := rows_entries u rows (entries table)\<rparr>)"
  using assms(2)
proof (induction rows arbitrary: table)
  case Nil
  then show ?case by (simp add: rows_entries_def)
next
  case (Cons r rows)
  obtain ip t seen index stamp stamps where r: "r = (ip, t, seen, index, stamp, stamps)"
    by (metis prod_cases6)
  with Cons.prems have ip: "length ip = 4" "rows_ok rows" by (auto simp: rows_ok_def)
  show ?case
    using Cons.IH [OF ip(2)] ip(1) parse_proc_row [OF assms(1) ip(1)]
    by (simp add: r rows_entries_def get_src_ip_def row_entry_def)
qed

lemma get_table_rows:
  assumes "re2_reads_rows pm" and "rows_ok rows" and "files (xt_recent_dir @ n) = map row_text rows"
  shows "get_table pm u files n =
    Inr (new_xt_recent_table\<lparr>table_name := n, entries := rows_entries u rows []\<rparr>)"
  using assms by (simp add: get_table_def table_rows_texts)

lemma rows_entries_ok: "entries_ok m \<Longrightarrow> entries_ok (rows_entries u rows m)"
  unfolding rows_entries_def
  by (induction rows arbitrary: m) (auto simp: row_value_ip)

lemma table_rows_ok:
  "table_rows pm u ls t = Inr t' \<Longrightarrow> entries_ok (entries t) \<Longrightarrow>
   entries_ok (entries t') \<and> table_name t' = table_name t"
proof (induction pm u ls t rule: table_rows.induct)
  case (2 pm u line rest table)
  then show ?case by (force simp: get_src_ip_def split: sum.splits if_splits)
qed simp

lemma get_table_ok:
  assumes "get_table pm u files n = Inr t"
  shows "entries_ok (entries t)" and "table_name t = n"
  using table_rows_ok [OF assms [unfolded get_table_def]] by auto

section \<open>A matcher\<close>

text \<open>
  A concrete function that reads the rows as \<open>re2_reads_rows\<close> says: find the keyword, take the run of
  characters after it.
\<close>

fun after :: "string \<Rightarrow> string \<Rightarrow> string option" where
  "after k [] = None"
| "after k (c # s) = (if take (length k) (c # s) = k then Some (drop (length k) (c # s)) else after k s)"

definition scan_row :: re2 where
  "scan_row row pat =
     (if pat = regs_patterns ! 0 then map_option (takeWhile (\<lambda>c. is_digit c \<or> c = CHR ''.'')) (after ''src='' row)
      else if pat = regs_patterns ! 1 then map_option (takeWhile is_digit) (after ''ttl: '' row)
      else if pat = regs_patterns ! 2 then map_option (takeWhile is_digit) (after ''last_seen: '' row)
      else if pat = regs_patterns ! 3 then map_option (takeWhile is_digit) (after ''oldest_pkt: '' row)
      else if pat = regs_patterns ! 4 then
        map_option (\<lambda>s. drop 1 (dropWhile is_digit s)) (after ''oldest_pkt: '' row)
      else None)"

lemma after_skip: "(\<And>c. c \<in> set p \<Longrightarrow> c \<noteq> x) \<Longrightarrow> after (x # k) (p @ s) = after (x # k) s"
  by (induction p) auto

lemma patterns_distinct [simp]:
  "regs_patterns ! 1 \<noteq> regs_patterns ! 0" "regs_patterns ! 2 \<noteq> regs_patterns ! 0"
  "regs_patterns ! 3 \<noteq> regs_patterns ! 0" "regs_patterns ! 4 \<noteq> regs_patterns ! 0"
  "regs_patterns ! 2 \<noteq> regs_patterns ! 1" "regs_patterns ! 3 \<noteq> regs_patterns ! 1"
  "regs_patterns ! 4 \<noteq> regs_patterns ! 1" "regs_patterns ! 3 \<noteq> regs_patterns ! 2"
  "regs_patterns ! 4 \<noteq> regs_patterns ! 2" "regs_patterns ! 4 \<noteq> regs_patterns ! 3"
  by (simp_all add: regs_patterns_def re_digit_def)

lemma digits_of [simp]: "c \<in> set (to_string_u w) \<Longrightarrow> is_digit c"
  by (simp add: to_string_u_def dec_all_digits)

lemma to_string_u_skip:
  "\<not> is_digit x \<Longrightarrow> after (x # k) (to_string_u w @ s) = after (x # k) s"
  by (rule after_skip) auto

lemma ip_skip:
  "\<not> is_digit x \<Longrightarrow> x \<noteq> CHR ''.'' \<Longrightarrow> after (x # k) (ipv4_string ip @ s) = after (x # k) s"
  by (rule after_skip) (auto dest: ipv4_string_chars)

lemma takeWhile_to_string_u [simp]:
  "takeWhile is_digit (to_string_u w @ s) = to_string_u w @ takeWhile is_digit s"
  by simp

lemma dropWhile_to_string_u [simp]: "dropWhile is_digit (to_string_u w @ s) = dropWhile is_digit s"
  by (simp add: dropWhile_append)

lemma takeWhile_ip:
  "takeWhile (\<lambda>c. is_digit c \<or> c = CHR ''.'') (ipv4_string ip @ s) =
   ipv4_string ip @ takeWhile (\<lambda>c. is_digit c \<or> c = CHR ''.'') s"
  by (rule takeWhile_append2) (auto dest: ipv4_string_chars)

lemma not_digits [simp]:
  "\<not> is_digit (CHR '' '')" "\<not> is_digit (CHR ''s'')" "\<not> is_digit (CHR ''t'')" "\<not> is_digit (CHR ''l'')"
  "\<not> is_digit (CHR ''o'')"
  by (simp_all add: is_digit_def)

lemma scan_row_reads: "re2_reads_rows scan_row"
  unfolding re2_reads_rows_def
  by (simp add: Let_def scan_row_def proc_row_def to_string_u_skip ip_skip takeWhile_ip
      patterns_distinct [unfolded One_nat_def] del: takeWhile_append dropWhile_append)

section \<open>Properties\<close>

text \<open>C23: a table of the kernel with IPv4 rows is read, given that RE2 captures what its documentation
  says, into the entries with their address, TTL, index and non-zero time stamps, a later row of the same
  address replacing an earlier one.\<close>

theorem kernel_table_is_read:
  assumes "re2_reads_rows pm" and "rows_ok rows" and "files (xt_recent_dir @ n) = map row_text rows"
  shows "get_table pm u files n =
    Inr (new_xt_recent_table\<lparr>table_name := n, entries := rows_entries u rows []\<rparr>)"
  using assms by (rule get_table_rows)

definition sample_rows :: "row list" where
  "sample_rows = [([192, 168, 0, 10], 64, 4705398000, 2, 4705397993, [4705398000]),
                  ([10, 0, 0, 1], 63, 4705300000, 1, 4705300000, [])]"

lemma sample_rows_ok: "rows_ok sample_rows"
  by (simp add: rows_ok_def sample_rows_def)

theorem kernel_table_is_read_witness:
  "get_table scan_row sample_entry (\<lambda>f. if f = xt_recent_dir @ ''ssh'' then map row_text sample_rows else []) ''ssh'' =
     Inr (new_xt_recent_table\<lparr>table_name := ''ssh'', entries := rows_entries sample_entry sample_rows []\<rparr>)"
  by (rule kernel_table_is_read [OF scan_row_reads sample_rows_ok]) simp

text \<open>A row in which RE2 finds no \<open>oldest_pkt\<close> makes \<open>std::stoi\<close> throw out of the table reader; the
  polling thread, which does not catch it, ends there.\<close>

theorem unmatched_row_throws:
  assumes "pm row (regs_patterns ! 3) = None" and "files (xt_recent_dir @ n) = row # rest"
    and "directory = (n, True) # ds"
  shows "get_xt_recent_tables pm u files (Some directory) = Throws Invalid_argument"
proof -
  have "parse_file_row pm u row = Inl Invalid_argument" using assms(1) by (rule parse_row_unmatched)
  then have "get_table pm u files n = Inl Invalid_argument"
    by (simp add: get_table_def assms(2))
  then show ?thesis by (simp add: get_xt_recent_tables_def assms(3))
qed

theorem unmatched_row_throws_witness:
  "get_xt_recent_tables scan_row sample_entry (\<lambda>f. [''src=fe80::1'']) (Some [(''v6'', True)]) = Throws Invalid_argument"
  by (rule unmatched_row_throws [where row = "''src=fe80::1''" and rest = "[]" and n = "''v6''" and ds = "[]"])
    (simp_all add: scan_row_def patterns_distinct [unfolded One_nat_def])

end
