(* ===== verification/Safe_Queue.thy ===== *)
theory Safe_Queue
  imports Prelude
begin

text \<open>
  \<open>safe_queue<T>\<close> of \<open>helpers/safe_queue.h\<close>: the thread-safe FIFO between the socket threads and the
  workers. First the effect of each operation on the queue (each runs under the mutex, so it is
  atomic), with the interface \<open>fifo\<close> that the daemon's threads rely on; then the interleavings of
  any number of producers and blocking consumers, with the condition variable.
\<close>

section \<open>The operations\<close>

type_synonym 'a safe_queue = "'a list"

definition enqueue :: "'a safe_queue \<Rightarrow> 'a \<Rightarrow> 'a safe_queue" where
  "enqueue q t = q @ [t]"

text \<open>\<open>None\<close>: the caller blocks in \<open>cond_.wait\<close> because the queue is empty.\<close>

definition dequeue :: "'a safe_queue \<Rightarrow> ('a \<times> 'a safe_queue) option" where
  "dequeue q = (case q of [] \<Rightarrow> None | val # q' \<Rightarrow> Some (val, q'))"

text \<open>\<open>pop\<close> stores the front in its reference parameter, given here as the result.\<close>

definition pop :: "'a safe_queue \<Rightarrow> 'a \<Rightarrow> ('a \<times> 'a safe_queue) option" where
  "pop q item = (case q of [] \<Rightarrow> None | val # q' \<Rightarrow> Some (val, q'))"

text \<open>\<open>None\<close> as the first component is the returned \<open>nullptr\<close>.\<close>

definition try_dequeue :: "'a safe_queue \<Rightarrow> 'a option \<times> 'a safe_queue" where
  "try_dequeue q = (case q of [] \<Rightarrow> (None, q) | val # q' \<Rightarrow> (Some val, q'))"

definition queue_size :: "'a safe_queue \<Rightarrow> nat" where
  "queue_size q = length q"

section \<open>The interface\<close>

locale fifo =
  fixes new :: "'q"
    and enq :: "'q \<Rightarrow> 'a \<Rightarrow> 'q"
    and try_deq :: "'q \<Rightarrow> 'a option \<times> 'q"
    and contents :: "'q \<Rightarrow> 'a list"
  assumes contents_new: "contents new = []"
    and contents_enq: "contents (enq q x) = contents q @ [x]"
    and try_deq_empty: "contents q = [] \<Longrightarrow> fst (try_deq q) = None \<and> contents (snd (try_deq q)) = []"
    and try_deq_cons: "contents q = x # xs \<Longrightarrow> fst (try_deq q) = Some x \<and> contents (snd (try_deq q)) = xs"
begin

lemma contents_enqs: "contents (foldl enq q xs) = contents q @ xs"
  by (induction xs arbitrary: q) (auto simp: contents_enq)

text \<open>What is enqueued on an empty queue comes out first in, first out.\<close>

lemma first_of_enqs: "fst (try_deq (foldl enq new (x # xs))) = Some x"
  using try_deq_cons [of "foldl enq new (x # xs)" x xs] contents_enqs [of new "x # xs"]
  by (simp add: contents_new)

lemma rest_of_enqs: "contents (snd (try_deq (foldl enq new (x # xs)))) = xs"
  using try_deq_cons [of "foldl enq new (x # xs)" x xs] contents_enqs [of new "x # xs"]
  by (simp add: contents_new)

lemma try_deq_cases:
  obtains (empty) q' where "contents q = []" "try_deq q = (None, q')" "contents q' = []"
  | (item) x q' where "contents q = x # contents q'" "try_deq q = (Some x, q')"
  using try_deq_empty [of q] try_deq_cons [of q]
  by (cases "contents q") (metis prod.collapse)+

end

interpretation sq: fifo "[]" enqueue try_dequeue "\<lambda>q. q"
  by unfold_locales (auto simp: enqueue_def try_dequeue_def)

lemma try_dequeue_simps [simp]:
  "try_dequeue [] = (None, [])"
  "try_dequeue (x # q) = (Some x, q)"
  by (auto simp: try_dequeue_def)

section \<open>Interleavings\<close>

text \<open>
  The state of a queue shared by threads: the elements, the history of what was pushed and taken,
  the number of consumers asleep in \<open>cond_.wait\<close>, of consumers woken but not yet holding the mutex,
  and of producers between \<open>lock.unlock()\<close> and \<open>cond_.notify_one()\<close>. Steps are the critical sections
  and the notifications; \<open>spurious\<close> is the wake-up without notification that C++ allows.
\<close>

record 'a queue_sys =
  elems :: "'a safe_queue"
  pushed :: "'a list"
  taken :: "'a list"
  asleep :: nat
  woken :: nat
  notifying :: nat

definition queue_init :: "'a queue_sys" where
  "queue_init = \<lparr>elems = [], pushed = [], taken = [], asleep = 0, woken = 0, notifying = 0\<rparr>"

inductive queue_step :: "'a queue_sys \<Rightarrow> 'a queue_sys \<Rightarrow> bool" where
  push: "queue_step s (s\<lparr>elems := enqueue (elems s) t, pushed := pushed s @ [t],
           notifying := Suc (notifying s)\<rparr>)"
| notify_one: "notifying s = Suc n \<Longrightarrow> asleep s = Suc k \<Longrightarrow>
     queue_step s (s\<lparr>notifying := n, asleep := k, woken := Suc (woken s)\<rparr>)"
| notify_none: "notifying s = Suc n \<Longrightarrow> asleep s = 0 \<Longrightarrow> queue_step s (s\<lparr>notifying := n\<rparr>)"
| dequeue_now: "dequeue (elems s) = Some (v, q) \<Longrightarrow>
     queue_step s (s\<lparr>elems := q, taken := taken s @ [v]\<rparr>)"
| dequeue_wait: "dequeue (elems s) = None \<Longrightarrow> queue_step s (s\<lparr>asleep := Suc (asleep s)\<rparr>)"
| resume_take: "woken s = Suc w \<Longrightarrow> dequeue (elems s) = Some (v, q) \<Longrightarrow>
     queue_step s (s\<lparr>woken := w, elems := q, taken := taken s @ [v]\<rparr>)"
| resume_wait: "woken s = Suc w \<Longrightarrow> dequeue (elems s) = None \<Longrightarrow>
     queue_step s (s\<lparr>woken := w, asleep := Suc (asleep s)\<rparr>)"
| spurious: "asleep s = Suc k \<Longrightarrow> queue_step s (s\<lparr>asleep := k, woken := Suc (woken s)\<rparr>)"
| try_take: "try_dequeue (elems s) = (Some v, q) \<Longrightarrow>
     queue_step s (s\<lparr>elems := q, taken := taken s @ [v]\<rparr>)"
| try_empty: "try_dequeue (elems s) = (None, q) \<Longrightarrow> queue_step s (s\<lparr>elems := q\<rparr>)"

inductive queue_reach :: "'a queue_sys \<Rightarrow> bool" where
  start: "queue_reach queue_init"
| step: "queue_reach s \<Longrightarrow> queue_step s t \<Longrightarrow> queue_reach t"

lemma dequeue_SomeD: "dequeue q = Some (v, q') \<Longrightarrow> q = v # q'"
  by (auto simp: dequeue_def split: list.splits)

lemma dequeue_NoneD: "dequeue q = None \<Longrightarrow> q = []"
  by (auto simp: dequeue_def split: list.splits)

lemma try_dequeue_SomeD: "try_dequeue q = (Some v, q') \<Longrightarrow> q = v # q'"
  by (auto simp: try_dequeue_def split: list.splits)

lemma try_dequeue_NoneD: "try_dequeue q = (None, q') \<Longrightarrow> q = [] \<and> q' = []"
  by (auto simp: try_dequeue_def split: list.splits)

text \<open>
  The history invariant, and the wake-up invariant: while a consumer sleeps, every element in the
  queue is matched by a notification on its way or by a consumer already woken.
\<close>

definition queue_inv :: "'a queue_sys \<Rightarrow> bool" where
  "queue_inv s \<longleftrightarrow> pushed s = taken s @ elems s \<and>
     (0 < asleep s \<longrightarrow> length (elems s) \<le> woken s + notifying s)"

lemma queue_step_inv: "queue_step s t \<Longrightarrow> queue_inv s \<Longrightarrow> queue_inv t"
  by (induction rule: queue_step.induct)
    (auto simp: queue_inv_def enqueue_def
      dest!: dequeue_SomeD dequeue_NoneD try_dequeue_SomeD try_dequeue_NoneD)

lemma queue_reach_inv: "queue_reach s \<Longrightarrow> queue_inv s"
proof (induction rule: queue_reach.induct)
  case start
  show ?case by (simp add: queue_inv_def queue_init_def)
next
  case (step s t)
  then show ?case by (blast intro: queue_step_inv)
qed

section \<open>The property of the queue\<close>

text \<open>C21: in every interleaving of producers, blocking and non-blocking consumers and spurious wake-ups,
  the elements leave \<open>safe_queue\<close> in the order in which they were pushed, none lost and none twice, and
  while a consumer sleeps on a non-empty queue a wake-up for every element is on its way.\<close>

theorem safe_queue_fifo_no_lost_wakeup:
  assumes "queue_reach s"
  shows "pushed s = taken s @ elems s \<and> (0 < asleep s \<longrightarrow> length (elems s) \<le> woken s + notifying s)"
  using queue_reach_inv [OF assms] by (simp add: queue_inv_def)

text \<open>A consumer goes to sleep on the empty queue, then a producer pushes.\<close>

theorem safe_queue_fifo_no_lost_wakeup_witness:
  "pushed \<lparr>elems = [7::nat], pushed = [7], taken = [], asleep = 1, woken = 0, notifying = 1\<rparr> =
     taken \<lparr>elems = [7::nat], pushed = [7], taken = [], asleep = 1, woken = 0, notifying = 1\<rparr> @
     elems \<lparr>elems = [7::nat], pushed = [7], taken = [], asleep = 1, woken = 0, notifying = 1\<rparr> \<and>
   length [7::nat] \<le> 0 + 1"
proof -
  let ?s = "(queue_init :: nat queue_sys)\<lparr>asleep := Suc (asleep (queue_init :: nat queue_sys))\<rparr>"
  let ?t = "?s\<lparr>elems := enqueue (elems ?s) (7::nat), pushed := pushed ?s @ [7], notifying := Suc (notifying ?s)\<rparr>"
  have "queue_step queue_init ?s" by (rule queue_step.dequeue_wait) (simp add: queue_init_def dequeue_def)
  then have "queue_reach ?s" by (rule queue_reach.step [OF queue_reach.start])
  moreover have "queue_step ?s ?t" by (rule queue_step.push)
  ultimately have "queue_reach ?t" by (rule queue_reach.step)
  from safe_queue_fifo_no_lost_wakeup [OF this] show ?thesis
    by (simp add: queue_init_def enqueue_def)
qed

end
