(* ===== verification/Xt_Recent_Sync.thy ===== *)
theory Xt_Recent_Sync
  imports Xt_Recent_Proc Safe_Queue
begin

text \<open>
  \<open>xt_recent/xt_recent_sync.h\<close> and \<open>.cpp\<close>: the thread that polls the kernel's tables, compares each
  with the copy of the previous round and queues an action per difference. The last part proves what
  a worker that applies the queued actions ends up with.
\<close>

section \<open>State and operations\<close>

text \<open>No constructor initialises \<open>is_running\<close>; its first value is an argument.\<close>

record xt_recent_sync =
  recent_known :: recent_store
  update_time_sec :: int
  recent_input :: "xt_recent_action safe_queue"
  recent_running :: bool

definition new_xt_recent_sync :: "bool \<Rightarrow> xt_recent_sync" where
  "new_xt_recent_sync u =
     \<lparr>recent_known = [], update_time_sec = 1000, recent_input = [], recent_running = u\<rparr>"

definition set_update_time :: "int \<Rightarrow> xt_recent_sync \<Rightarrow> xt_recent_sync" where
  "set_update_time milliseconds s = s\<lparr>update_time_sec := milliseconds\<rparr>"

definition recent_sync_start :: "xt_recent_sync \<Rightarrow> xt_recent_sync" where
  "recent_sync_start s = s\<lparr>recent_running := True\<rparr>"

definition recent_sync_stop :: "xt_recent_sync \<Rightarrow> xt_recent_sync" where
  "recent_sync_stop s = s\<lparr>recent_running := False\<rparr>"

definition get_entry_as_action :: "string \<Rightarrow> xt_recent_entry \<Rightarrow> bool \<Rightarrow> xt_recent_action" where
  "get_entry_as_action target_table entry delete_action =
     (new_xt_recent_action entry (if delete_action then DELETE_ENTRY else ADD_UPD_ENTRY))
       \<lparr>xt_table_name := target_table, target_entry := entry, pkt_len := 0\<rparr>"

text \<open>
  Only the index is compared. \<open>recent_data[xtable.name]\<close> creates the table in the copy.
\<close>

definition get_table_updates ::
    "re2 \<Rightarrow> xt_recent_entry \<Rightarrow> files \<Rightarrow> string \<Rightarrow> xt_recent_sync \<Rightarrow>
     conv_error + xt_recent_table \<times> xt_recent_sync" where
  "get_table_updates pm u files name s =
     (case get_table pm u files name of
        Inl e \<Rightarrow> Inl e
      | Inr xtable \<Rightarrow>
          (let known = mtouch new_xt_recent_table (recent_known s) (table_name xtable);
               old = entries (mref new_xt_recent_table known (table_name xtable));
               q = foldl (\<lambda>q (k, entry).
                     if mhas old k then
                       (if get_oldest_pkt_index (mref entry old k) \<noteq> get_oldest_pkt_index entry
                        then enqueue q (get_entry_as_action name entry False) else q)
                     else enqueue q (get_entry_as_action name entry False))
                   (recent_input s) (entries xtable);
               q = foldl (\<lambda>q (k, entry).
                     if \<not> mhas (entries xtable) k
                     then enqueue q (get_entry_as_action name entry True) else q) q old
           in Inr (xtable, s\<lparr>recent_known := known, recent_input := q\<rparr>)))"

text \<open>One pass over the directory, and the loop with the value of \<open>is_running\<close> read in each round.\<close>

fun scan_tables ::
    "re2 \<Rightarrow> xt_recent_entry \<Rightarrow> files \<Rightarrow> directory \<Rightarrow> xt_recent_sync \<Rightarrow> conv_error + xt_recent_sync" where
  "scan_tables pm u files [] s = Inr s"
| "scan_tables pm u files ((name, regular) # ds) s =
     (if regular then
        (case get_table_updates pm u files name s of
           Inl e \<Rightarrow> Inl e
         | Inr (xtable, s) \<Rightarrow>
             scan_tables pm u files ds (s\<lparr>recent_known := mput name xtable (recent_known s)\<rparr>))
      else scan_tables pm u files ds s)"

fun proc_task ::
    "re2 \<Rightarrow> xt_recent_entry \<Rightarrow> (bool \<times> directory option \<times> files) list \<Rightarrow> xt_recent_sync \<Rightarrow>
     xt_recent_sync run" where
  "proc_task pm u [] s = Done s"
| "proc_task pm u ((running, dir, files) # rounds) s =
     (if \<not> running then Done s
      else (case dir of
              None \<Rightarrow> Exits 1
            | Some ds \<Rightarrow>
                (case scan_tables pm u files ds s of
                   Inl e \<Rightarrow> Throws e
                 | Inr s \<Rightarrow> proc_task pm u rounds s)))"

section \<open>The actions of a comparison\<close>

definition changed :: "(string, xt_recent_entry) omap \<Rightarrow> string \<times> xt_recent_entry \<Rightarrow> bool" where
  "changed old = (\<lambda>(k, e). case mget old k of None \<Rightarrow> True
     | Some e0 \<Rightarrow> last_seen_index e0 \<noteq> last_seen_index e)"

definition table_actions ::
    "string \<Rightarrow> (string, xt_recent_entry) omap \<Rightarrow> (string, xt_recent_entry) omap \<Rightarrow> xt_recent_action list" where
  "table_actions n old new =
     map (\<lambda>(k, e). get_entry_as_action n e False) (filter (changed old) new) @
     map (\<lambda>(k, e). get_entry_as_action n e True) (filter (\<lambda>(k, e). \<not> mhas new k) old)"

lemma get_entry_as_action_simps [simp]:
  "xt_table_name (get_entry_as_action n e b) = n"
  "target_entry (get_entry_as_action n e b) = e"
  "action (get_entry_as_action n e b) = (if b then DELETE_ENTRY else ADD_UPD_ENTRY)"
  "pkt_len (get_entry_as_action n e b) = 0"
  "pkt_type (get_entry_as_action n e b) = XT_RECENT_SYNC"
  "pkt_fd (get_entry_as_action n e b) = - 1"
  by (auto simp: get_entry_as_action_def new_xt_recent_action_def conn_packet.extend_def
      new_typed_packet_def)

lemma enqueue_changed:
  "foldl (\<lambda>q (k, entry).
      if mhas old k then
        (if get_oldest_pkt_index (mref entry old k) \<noteq> get_oldest_pkt_index entry
         then enqueue q (get_entry_as_action n entry False) else q)
      else enqueue q (get_entry_as_action n entry False)) q xs =
   q @ map (\<lambda>(k, e). get_entry_as_action n e False) (filter (changed old) xs)"
  by (induction xs arbitrary: q)
    (auto simp: changed_def mhas_def mref_def enqueue_def get_oldest_pkt_index_def split: option.splits)

lemma enqueue_removed:
  "foldl (\<lambda>q (k, entry). if \<not> mhas new k then enqueue q (get_entry_as_action n entry True) else q) q xs =
   q @ map (\<lambda>(k, e). get_entry_as_action n e True) (filter (\<lambda>(k, e). \<not> mhas new k) xs)"
  by (induction xs arbitrary: q) (auto simp: enqueue_def)

text \<open>The copy of the table that the comparison starts from.\<close>

definition known_entries :: "recent_store \<Rightarrow> string \<Rightarrow> (string, xt_recent_entry) omap" where
  "known_entries d n = entries (mref new_xt_recent_table d n)"

lemma recent_view_known: "recent_view d n k = mget (known_entries d n) k"
  by (auto simp: recent_view_def known_entries_def mref_def split: option.split)

lemma known_entries_ok: "recent_ok d \<Longrightarrow> entries_ok (known_entries d n)"
  by (auto simp: recent_ok_iff known_entries_def mref_def split: option.split)

lemma get_table_updates_eq:
  assumes "get_table pm u files n = Inr t"
  shows "get_table_updates pm u files n s =
    Inr (t, s\<lparr>recent_known := mtouch new_xt_recent_table (recent_known s) n,
              recent_input := recent_input s @ table_actions n (known_entries (recent_known s) n) (entries t)\<rparr>)"
  using assms get_table_ok(2) [OF assms]
  by (simp only: get_table_updates_def Let_def enqueue_changed enqueue_removed sum.case)
    (simp add: table_actions_def known_entries_def store_simps)

section \<open>Replaying the actions\<close>

lemma map_of_filter_keys:
  assumes "distinct (map fst m)"
  shows "map_of (map (\<lambda>(k, e). (k, f e)) (filter P m)) k =
    (case map_of m k of None \<Rightarrow> None | Some e \<Rightarrow> if P (k, e) then Some (f e) else None)"
  using assms
proof (induction m)
  case (Cons a m)
  have "fst ` set (map (\<lambda>(k, e). (k, f e)) (filter P m)) \<subseteq> fst ` set m"
    by force
  then have "fst a \<notin> fst ` set (map (\<lambda>(k, e). (k, f e)) (filter P m))"
    using Cons.prems by (metis distinct.simps(2) list.set_map list.simps(9) subsetD)
  then have "map_of (map (\<lambda>(k, e). (k, f e)) (filter P m)) (fst a) = None"
    by (simp only: map_of_eq_None_iff simp_thms)
  moreover have "map_of m (fst a) = None"
    using Cons.prems by (simp add: map_of_eq_None_iff)
  ultimately show ?case
    using Cons by (cases a) (auto split: option.split)
qed simp

lemma map_of_rev_distinct: "distinct (map fst xs) \<Longrightarrow> map_of (rev xs) k = map_of xs k"
  by (rule fun_cong [OF map_of_inject_set [THEN iffD2]]) (simp_all add: rev_map [symmetric])

lemma omap_distinct: "omap_ok m \<Longrightarrow> distinct (map fst m)"
  by (rule om.distinct_items)

definition actions_updates ::
    "(string, xt_recent_entry) omap \<Rightarrow> (string, xt_recent_entry) omap \<Rightarrow>
     (string \<times> xt_recent_entry option) list" where
  "actions_updates old new =
     map (\<lambda>(k, e). (k, Some e)) (filter (changed old) new) @
     map (\<lambda>(k, e). (k, None)) (filter (\<lambda>(k, e). \<not> mhas new k) old)"

lemma table_actions_updates:
  assumes "entries_ok old" and "entries_ok new"
  shows "concat (map action_update (table_actions n old new)) = actions_updates old new"
proof -
  have adds: "concat (map action_update (map (\<lambda>(k, e). get_entry_as_action n e False) xs)) =
      map (\<lambda>(k, e). (k, Some e)) xs"
    if "\<forall>(k, e) \<in> set xs. src_ip e = k" for xs
    using that by (induction xs) (auto simp: action_update_def)
  have dels: "concat (map action_update (map (\<lambda>(k, e). get_entry_as_action n e True) xs)) =
      map (\<lambda>(k, e). (k, None)) xs"
    if "\<forall>(k, e) \<in> set xs. src_ip e = k" for xs
    using that by (induction xs) (auto simp: action_update_def)
  have "\<forall>(k, e) \<in> set (filter (changed old) new). src_ip e = k"
    and "\<forall>(k, e) \<in> set (filter (\<lambda>(k, e). \<not> mhas new k) old). src_ip e = k"
    using assms by (auto simp: entries_ok_def)
  from adds [OF this(1)] dels [OF this(2)] show ?thesis
    by (simp add: table_actions_def actions_updates_def)
qed

lemma updates_lookup:
  assumes "omap_ok old" and "omap_ok new"
  shows "map_of (rev (actions_updates old new)) k =
    (case mget new k of
       Some e \<Rightarrow> if changed old (k, e) then Some (Some e) else None
     | None \<Rightarrow> if mhas old k then Some None else None)"
proof -
  let ?a = "map (\<lambda>(k, e). (k, Some e)) (filter (changed old) new)"
  let ?d = "map (\<lambda>(k, e). (k, None :: xt_recent_entry option)) (filter (\<lambda>(k, e). \<not> mhas new k) old)"
  have fst: "map fst ?a = map fst (filter (changed old) new)"
    "map fst ?d = map fst (filter (\<lambda>(k, e). \<not> mhas new k) old)"
    by (simp_all add: case_prod_beta comp_def)
  have da: "distinct (map fst ?a)" and dd: "distinct (map fst ?d)"
    unfolding fst using omap_distinct assms by (auto intro: distinct_map_filter)
  have ra: "map_of (rev ?a) k = map_of ?a k" and rd: "map_of (rev ?d) k = map_of ?d k"
    using da dd by (simp_all only: map_of_rev_distinct)
  have a: "map_of ?a k = (case mget new k of None \<Rightarrow> None | Some e \<Rightarrow> if changed old (k, e) then Some (Some e) else None)"
    using map_of_filter_keys [OF omap_distinct [OF assms(2)], of Some] by (simp add: mget_def)
  have d: "map_of ?d k = (case mget old k of None \<Rightarrow> None | Some e \<Rightarrow> if \<not> mhas new k then Some None else None)"
    using map_of_filter_keys [OF omap_distinct [OF assms(1)],
      of "\<lambda>_. None :: xt_recent_entry option" "\<lambda>(k, e). \<not> mhas new k" k]
    by (simp add: mget_def split: option.split)
  have "map_of (rev (actions_updates old new)) k =
      (case map_of (rev ?d) k of None \<Rightarrow> map_of (rev ?a) k | Some u \<Rightarrow> Some u)"
    unfolding actions_updates_def rev_append map_of_append map_add_def ..
  then show ?thesis
    unfolding ra rd a d by (auto simp: mhas_def split: option.splits)
qed

text \<open>
  After the replay the worker holds the new table, with the old contents for the entries whose index
  did not change; no other table is touched.
\<close>

lemma replay_table:
  assumes "entries_ok old" and "entries_ok new"
  shows "recent_view (apply_recent_actions (table_actions m old new) d) n k =
    (if n = m then
       (case mget new k of
          Some e \<Rightarrow> if changed old (k, e) then Some e else recent_view d n k
        | None \<Rightarrow> if mhas old k then None else recent_view d n k)
     else recent_view d n k)"
proof -
  have act: "\<forall>a \<in> set (table_actions m old new). action a = ADD_UPD_ENTRY \<or> action a = DELETE_ENTRY"
    by (auto simp: table_actions_def)
  have names: "filter (\<lambda>a. xt_table_name a = n) (table_actions m old new) =
      (if n = m then table_actions m old new else [])"
  proof -
    have "\<forall>a \<in> set (table_actions m old new). xt_table_name a = m"
      by (auto simp: table_actions_def)
    then show ?thesis by (auto simp: filter_empty_conv intro!: filter_True)
  qed
  have ok: "omap_ok old" "omap_ok new"
    using assms by (auto simp: entries_ok_def)
  show ?thesis
  proof (cases "n = m")
    case True
    then show ?thesis
      unfolding recent_view_actions [OF act] names
      by (simp add: table_actions_updates [OF assms] updates_lookup [OF ok] split: option.split)
  next
    case False
    then show ?thesis unfolding recent_view_actions [OF act] names by simp
  qed
qed

text \<open>
  The worker's store keeps up with the copy: the same addresses in every table, with the same index
  of the last packet.
\<close>

definition keeps_up :: "recent_store \<Rightarrow> recent_store \<Rightarrow> bool" where
  "keeps_up d known \<longleftrightarrow>
     (\<forall>n k. map_option last_seen_index (recent_view d n k) = map_option last_seen_index (recent_view known n k))"

lemma keeps_up_table:
  assumes "keeps_up d known" and "recent_ok known" and "entries_ok (entries t)"
  shows "keeps_up (apply_recent_actions (table_actions m (known_entries known m) (entries t)) d) (mput m t known)"
  unfolding keeps_up_def
proof (intro allI)
  fix n k
  have old: "map_option last_seen_index (recent_view d n k) = map_option last_seen_index (mget (known_entries known n) k)"
    using assms(1) by (simp add: keeps_up_def recent_view_known)
  have new: "recent_view (mput m t known) n k = (if n = m then mget (entries t) k else recent_view known n k)"
    by (simp add: recent_view_def store_simps)
  show "map_option last_seen_index
      (recent_view (apply_recent_actions (table_actions m (known_entries known m) (entries t)) d) n k) =
    map_option last_seen_index (recent_view (mput m t known) n k)"
    unfolding replay_table [OF known_entries_ok [OF assms(2)] assms(3)] new
    using old by (auto simp: changed_def mhas_def recent_view_known split: option.splits)
qed

lemma recent_ok_mput: "recent_ok d \<Longrightarrow> entries_ok (entries t) \<Longrightarrow> recent_ok (mput n t d)"
  by (auto simp: recent_ok_iff store_simps)

lemma mput_mtouch: "omap_ok m \<Longrightarrow> mput k v (mtouch d m k) = mput k v m"
  by (rule omap_ext) (auto simp: store_simps)

section \<open>What the thread reads, and what the worker holds\<close>

text \<open>The tables a scan reads, in order, and those of a run of the thread.\<close>

definition scan_readings :: "re2 \<Rightarrow> xt_recent_entry \<Rightarrow> files \<Rightarrow> directory \<Rightarrow> (string \<times> xt_recent_table) list" where
  "scan_readings pm u files ds =
     concat (map (\<lambda>(n, regular).
       if regular then (case get_table pm u files n of Inr t \<Rightarrow> [(n, t)] | Inl _ \<Rightarrow> []) else []) ds)"

fun task_readings ::
    "re2 \<Rightarrow> xt_recent_entry \<Rightarrow> (bool \<times> directory option \<times> files) list \<Rightarrow> (string \<times> xt_recent_table) list" where
  "task_readings pm u [] = []"
| "task_readings pm u ((running, dir, files) # rounds) =
     (if \<not> running then []
      else case dir of
             None \<Rightarrow> []
           | Some ds \<Rightarrow> scan_readings pm u files ds @ task_readings pm u rounds)"

text \<open>What the readings of the table \<open>n\<close> show for the address \<open>k\<close>, one after the other.\<close>

definition shown :: "(string \<times> xt_recent_table) list \<Rightarrow> string \<Rightarrow> string \<Rightarrow> xt_recent_entry option list" where
  "shown rs n k = map (\<lambda>(_, t). mget (entries t) k) (filter (\<lambda>(m, _). m = n) rs)"

lemma shown_simps [simp]:
  "shown [] n k = []" "shown (rs @ rs') n k = shown rs n k @ shown rs' n k"
  "shown ((m, t) # rs) n k = (if m = n then mget (entries t) k # shown rs n k else shown rs n k)"
  by (simp_all add: shown_def)

text \<open>
  One reading of an address: what the worker holds stays exactly when the reading has the index of it,
  and is replaced by the reading otherwise.
\<close>

definition refresh :: "xt_recent_entry option \<Rightarrow> xt_recent_entry option \<Rightarrow> xt_recent_entry option" where
  "refresh held reading =
     (if map_option last_seen_index held = map_option last_seen_index reading then held else reading)"

lemma refresh_index: "map_option last_seen_index (refresh h r) = map_option last_seen_index r"
  by (simp add: refresh_def)

text \<open>The index tells the readings apart: no two in a row have the same index and different contents.\<close>

fun index_tells :: "xt_recent_entry option list \<Rightarrow> bool" where
  "index_tells (a # b # rs) \<longleftrightarrow>
     (map_option last_seen_index a = map_option last_seen_index b \<longrightarrow> a = b) \<and> index_tells (b # rs)"
| "index_tells _ \<longleftrightarrow> True"

lemma refresh_tells: "index_tells (h # rs) \<Longrightarrow> foldl refresh h rs = last (h # rs)"
proof (induction rs arbitrary: h)
  case (Cons r rs)
  then have "refresh h r = r" by (auto simp: refresh_def)
  with Cons show ?case by simp
qed simp

lemma last_last: "last (a # xs @ ys) = last (last (a # xs) # ys)"
  by (cases ys) simp_all

text \<open>The worker's store \<open>d\<close> and the thread's copy before and after the readings.\<close>

definition follows ::
    "(string \<times> xt_recent_table) list \<Rightarrow> recent_store \<Rightarrow> recent_store \<Rightarrow> recent_store \<Rightarrow> recent_store \<Rightarrow> bool" where
  "follows rs d known d' known' \<longleftrightarrow>
     (\<forall>n k. recent_view d' n k = foldl refresh (recent_view d n k) (shown rs n k) \<and>
            recent_view known' n k = last (recent_view known n k # shown rs n k))"

lemma follows_Nil: "follows [] d known d known"
  by (simp add: follows_def)

lemma follows_append:
  "follows rs d known d1 known1 \<Longrightarrow> follows rs' d1 known1 d2 known2 \<Longrightarrow> follows (rs @ rs') d known d2 known2"
  by (simp only: follows_def shown_simps foldl_append last_last simp_thms)

lemma follows_table:
  assumes "keeps_up d known" and "recent_ok known" and "entries_ok (entries t)"
  shows "follows [(m, t)] d known
    (apply_recent_actions (table_actions m (known_entries known m) (entries t)) d) (mput m t known)"
proof -
  have old: "map_option last_seen_index (mget (known_entries known n) k) = map_option last_seen_index (recent_view d n k)"
    for n k using assms(1) by (simp add: keeps_up_def recent_view_known)
  have "recent_view (mput m t known) n k = (if n = m then mget (entries t) k else recent_view known n k)" for n k
    by (simp add: recent_view_def store_simps)
  moreover have "(case mget (entries t) k of
       Some e \<Rightarrow> if changed (known_entries known n) (k, e) then Some e else recent_view d n k
     | None \<Rightarrow> if mhas (known_entries known n) k then None else recent_view d n k) =
     refresh (recent_view d n k) (mget (entries t) k)" for n k
    using old [of n k]
    by (cases "mget (entries t) k"; cases "recent_view d n k"; cases "mget (known_entries known n) k")
      (auto simp: refresh_def changed_def mhas_def)
  ultimately show ?thesis
    by (simp add: follows_def replay_table [OF known_entries_ok [OF assms(2)] assms(3)])
qed

lemma scan_tables_spec:
  assumes "scan_tables pm u files ds s = Inr s'" and "recent_ok (recent_known s)"
    and "keeps_up d (recent_known s)"
  shows "\<exists>as. recent_input s' = recent_input s @ as \<and> recent_ok (recent_known s') \<and>
    keeps_up (apply_recent_actions as d) (recent_known s') \<and>
    follows (scan_readings pm u files ds) d (recent_known s) (apply_recent_actions as d) (recent_known s')"
  using assms
proof (induction pm u files ds s arbitrary: d rule: scan_tables.induct)
  case (1 pm u files s)
  then show ?case by (auto simp: scan_readings_def follows_Nil intro: exI [of _ "[]"])
next
  case (2 pm u files name regular ds s)
  show ?case
  proof (cases regular)
    case False
    then have "scan_readings pm u files ((name, regular) # ds) = scan_readings pm u files ds"
      by (simp add: scan_readings_def split: sum.split)
    with 2 False show ?thesis by simp
  next
    case True
    with 2(3) obtain t where t: "get_table pm u files name = Inr t"
      by (auto simp: get_table_updates_def split: sum.splits)
    let ?as = "table_actions name (known_entries (recent_known s) name) (entries t)"
    let ?s = "s\<lparr>recent_known := mtouch new_xt_recent_table (recent_known s) name,
      recent_input := recent_input s @ ?as\<rparr>"
    have upd: "get_table_updates pm u files name s = Inr (t, ?s)"
      using t by (rule get_table_updates_eq)
    let ?s' = "?s\<lparr>recent_known := mput name t (recent_known ?s)\<rparr>"
    have k: "recent_known ?s' = mput name t (recent_known s)"
      using 2(4) by (simp add: recent_ok_def mput_mtouch)
    have rs: "scan_readings pm u files ((name, regular) # ds) = [(name, t)] @ scan_readings pm u files ds"
      using True t by (simp add: scan_readings_def)
    have scan: "scan_tables pm u files ds ?s' = Inr s'"
      using 2(3) True upd by simp
    have s: "recent_ok (recent_known ?s')" "keeps_up (apply_recent_actions ?as d) (recent_known ?s')"
      "follows [(name, t)] d (recent_known s) (apply_recent_actions ?as d) (recent_known ?s')"
      unfolding k using 2(4,5) get_table_ok(1) [OF t] by (auto intro: recent_ok_mput keeps_up_table follows_table)
    from 2(1) [OF True upd refl scan s(1,2)] obtain bs where bs: "recent_input s' = recent_input ?s' @ bs"
      "recent_ok (recent_known s')" "keeps_up (apply_recent_actions bs (apply_recent_actions ?as d)) (recent_known s')"
      "follows (scan_readings pm u files ds) (apply_recent_actions ?as d) (recent_known ?s')
        (apply_recent_actions bs (apply_recent_actions ?as d)) (recent_known s')"
      by blast
    with follows_append [OF s(3) bs(4)] show ?thesis
      unfolding rs by (intro exI [of _ "?as @ bs"]) simp
  qed
qed

text \<open>The same for any number of rounds of the thread.\<close>

lemma proc_task_spec:
  assumes "proc_task pm u rounds s = Done s'" and "recent_ok (recent_known s)"
    and "keeps_up d (recent_known s)"
  shows "\<exists>as. recent_input s' = recent_input s @ as \<and> recent_ok (recent_known s') \<and>
    keeps_up (apply_recent_actions as d) (recent_known s') \<and>
    follows (task_readings pm u rounds) d (recent_known s) (apply_recent_actions as d) (recent_known s')"
  using assms
proof (induction pm u rounds s arbitrary: d rule: proc_task.induct)
  case (1 pm u s)
  then show ?case by (auto simp: follows_Nil intro: exI [of _ "[]"])
next
  case (2 pm u running dir files rounds s)
  show ?case
  proof (cases running)
    case False
    with 2 show ?thesis by (auto simp: follows_Nil intro: exI [of _ "[]"])
  next
    case True
    with 2(2) obtain ds s1 where r: "dir = Some ds" "scan_tables pm u files ds s = Inr s1"
      "proc_task pm u rounds s1 = Done s'"
      by (auto split: option.splits sum.splits)
    from scan_tables_spec [OF r(2) 2(3,4)] obtain as where as: "recent_input s1 = recent_input s @ as"
      "recent_ok (recent_known s1)" "keeps_up (apply_recent_actions as d) (recent_known s1)"
      "follows (scan_readings pm u files ds) d (recent_known s) (apply_recent_actions as d) (recent_known s1)" by blast
    from 2(1) [OF _ r(1,2,3) as(2,3)] True obtain bs where bs: "recent_input s' = recent_input s1 @ bs"
      "recent_ok (recent_known s')" "keeps_up (apply_recent_actions bs (apply_recent_actions as d)) (recent_known s')"
      "follows (task_readings pm u rounds) (apply_recent_actions as d) (recent_known s1)
        (apply_recent_actions bs (apply_recent_actions as d)) (recent_known s')"
      by auto
    with as(1) follows_append [OF as(4) bs(4)] True r(1) show ?thesis by (intro exI [of _ "as @ bs"]) simp
  qed
qed

section \<open>Properties\<close>

text \<open>C19: the actions one comparison queues, applied in order to any store, leave the scanned table with
  the new entry for every address that is new or whose index changed, without the addresses that
  vanished, and untouched otherwise; no other table changes.\<close>

theorem table_updates_replay:
  assumes "get_table_updates pm u files name s = Inr (t, s')" and "recent_ok (recent_known s)"
  shows "\<exists>as. recent_input s' = recent_input s @ as \<and>
    (\<forall>d n k. recent_view (apply_recent_actions as d) n k =
      (if n = name then
         (case mget (entries t) k of
            Some e \<Rightarrow> if map_option last_seen_index (recent_view (recent_known s) n k) \<noteq> Some (last_seen_index e)
                      then Some e else recent_view d n k
          | None \<Rightarrow> if recent_view (recent_known s) n k \<noteq> None then None else recent_view d n k)
       else recent_view d n k))"
proof -
  have t: "get_table pm u files name = Inr t"
    using assms(1) by (auto simp: get_table_updates_def Let_def split: sum.splits)
  let ?old = "known_entries (recent_known s) name"
  have s': "recent_input s' = recent_input s @ table_actions name ?old (entries t)"
    using assms(1) get_table_updates_eq [OF t, of s] by auto
  show ?thesis
    using s' replay_table [OF known_entries_ok [OF assms(2)] get_table_ok(1) [OF t]]
    by (intro exI [of _ "table_actions name ?old (entries t)"])
      (auto simp: recent_view_known changed_def mhas_def split: option.split)
qed

definition sample_files :: files where
  "sample_files = (\<lambda>f. if f = xt_recent_dir @ ''ssh'' then map row_text sample_rows else [])"

lemma sample_table:
  "get_table scan_row u sample_files ''ssh'' =
     Inr (new_xt_recent_table\<lparr>table_name := ''ssh'', entries := rows_entries u sample_rows []\<rparr>)"
  by (rule get_table_rows [OF scan_row_reads sample_rows_ok]) (simp add: sample_files_def)

theorem table_updates_replay_witness:
  "\<exists>t s' as. get_table_updates scan_row sample_entry sample_files ''ssh'' (new_xt_recent_sync True) = Inr (t, s') \<and>
     recent_input s' = as \<and> recent_view (apply_recent_actions as []) ''ssh'' ''10.0.0.1'' = mget (entries t) ''10.0.0.1''"
proof -
  obtain t s' where upd: "get_table_updates scan_row sample_entry sample_files ''ssh'' (new_xt_recent_sync True) = Inr (t, s')"
    using get_table_updates_eq [OF sample_table] by blast
  have known: "recent_known (new_xt_recent_sync True) = []" "recent_input (new_xt_recent_sync True) = []"
    by (simp_all add: new_xt_recent_sync_def)
  have none: "recent_view [] n k = None" for n k by (simp add: recent_view_def)
  from table_updates_replay [OF upd] obtain as where "recent_input s' = recent_input (new_xt_recent_sync True) @ as"
    "recent_view (apply_recent_actions as []) ''ssh'' ''10.0.0.1'' =
       (case mget (entries t) ''10.0.0.1'' of Some e \<Rightarrow> Some e | None \<Rightarrow> None)"
    unfolding known by (auto simp: none split: option.splits if_splits)
  with upd known show ?thesis by (auto split: option.splits)
qed

text \<open>C20: after any number of polling rounds, a worker that started from a store in step with the
  thread's copy (the same addresses in every table, each with the same index) and applied all queued
  actions is in step with it again. Address by address, the copy is the last reading, and the worker
  holds, whole, with TTL and stamps, the first of the last readings in a row that have the same index:
  an entry is replaced exactly when its index changed, came or vanished. So the worker has the copy's
  entries whenever the index tells the readings apart, and an entry that changed without its index, as
  after a full turn of the ring, is not seen.\<close>

theorem polling_keeps_worker_in_step:
  assumes "proc_task pm u rounds s = Done s'" and "recent_ok (recent_known s)"
    and "keeps_up d (recent_known s)"
  shows "\<exists>as. recent_input s' = recent_input s @ as \<and> recent_ok (recent_known s') \<and>
    keeps_up (apply_recent_actions as d) (recent_known s') \<and>
    (\<forall>n k. recent_view (apply_recent_actions as d) n k =
        foldl refresh (recent_view d n k) (shown (task_readings pm u rounds) n k) \<and>
      recent_view (recent_known s') n k =
        last (recent_view (recent_known s) n k # shown (task_readings pm u rounds) n k) \<and>
      (index_tells (recent_view (recent_known s) n k # shown (task_readings pm u rounds) n k) \<and>
       recent_view d n k = recent_view (recent_known s) n k \<longrightarrow>
         recent_view (apply_recent_actions as d) n k = recent_view (recent_known s') n k))"
  using proc_task_spec [OF assms] by (auto simp: follows_def refresh_tells)

text \<open>Two rounds: a second table of the same addresses in which one has new stamps under its old index.
  The worker sees the other one change and not this one.\<close>

definition turned_rows :: "row list" where
  "turned_rows = [([192, 168, 0, 10], 64, 4705399000, 3, 4705397993, [4705398000, 4705399000]),
                  ([10, 0, 0, 1], 60, 4705310000, 1, 4705310000, [])]"

definition turned_files :: files where
  "turned_files = (\<lambda>f. if f = xt_recent_dir @ ''ssh'' then map row_text turned_rows else [])"

lemma turned_table:
  "get_table scan_row u turned_files ''ssh'' =
     Inr (new_xt_recent_table\<lparr>table_name := ''ssh'', entries := rows_entries u turned_rows []\<rparr>)"
  by (rule get_table_rows [OF scan_row_reads]) (simp_all add: turned_files_def rows_ok_def turned_rows_def)

abbreviation sample_rounds :: "(bool \<times> directory option \<times> files) list" where
  "sample_rounds \<equiv> [(True, Some [(''ssh'', True), (''.'', False)], sample_files),
     (True, Some [(''ssh'', True)], turned_files)]"

lemma sample_rounds_run: "\<exists>s'. proc_task scan_row sample_entry sample_rounds (new_xt_recent_sync True) = Done s'"
  by (simp add: get_table_updates_eq [OF sample_table] get_table_updates_eq [OF turned_table])

lemma sample_addresses:
  "ipv4_string [192, 168, 0, 10] = ''192.168.0.10''" "ipv4_string [10, 0, 0, 1] = ''10.0.0.1''"
  by code_simp+

lemma sample_shown:
  "shown (task_readings scan_row sample_entry sample_rounds) ''ssh'' ''10.0.0.1'' =
     [Some (row_value sample_entry (sample_rows ! 1)), Some (row_value sample_entry (turned_rows ! 1))]"
  "shown (task_readings scan_row sample_entry sample_rounds) ''ssh'' ''192.168.0.10'' =
     [Some (row_value sample_entry (sample_rows ! 0)), Some (row_value sample_entry (turned_rows ! 0))]"
  by (simp_all add: sample_addresses scan_readings_def sample_table turned_table rows_entries_def sample_rows_def turned_rows_def
      mget_mput)

theorem polling_keeps_worker_in_step_witness:
  "\<exists>s' as. proc_task scan_row sample_entry sample_rounds (new_xt_recent_sync True) = Done s' \<and>
    recent_input s' = as \<and> recent_ok (recent_known s') \<and> keeps_up (apply_recent_actions as []) (recent_known s') \<and>
    recent_view (apply_recent_actions as []) ''ssh'' ''192.168.0.10'' = Some (row_value sample_entry (turned_rows ! 0)) \<and>
    recent_view (apply_recent_actions as []) ''ssh'' ''10.0.0.1'' = Some (row_value sample_entry (sample_rows ! 1)) \<and>
    recent_view (recent_known s') ''ssh'' ''10.0.0.1'' = Some (row_value sample_entry (turned_rows ! 1))"
proof -
  obtain s' where s': "proc_task scan_row sample_entry sample_rounds (new_xt_recent_sync True) = Done s'"
    using sample_rounds_run by blast
  have "recent_ok (recent_known (new_xt_recent_sync True))" "keeps_up [] (recent_known (new_xt_recent_sync True))"
    by (simp_all add: new_xt_recent_sync_def keeps_up_def)
  from polling_keeps_worker_in_step [OF s' this] s' show ?thesis
    by (auto simp: sample_shown refresh_def new_xt_recent_sync_def row_entry_def sample_rows_def turned_rows_def
        recent_view_def simp del: task_readings.simps)
qed

end
