(* ===== verification/Packet_Parser.thy ===== *)
theory Packet_Parser
  imports Conn_Packet
begin

text \<open>
  \<open>connection/packet_parser.h\<close> and \<open>.cpp\<close>: the abstract class \<open>packet_parser\<close>, as the locale
  \<open>packet_codec\<close> of the laws its users rely on, and \<open>base_pkt_parser\<close>, the five-byte header.
\<close>

section \<open>Results of the two virtual functions\<close>

text \<open>
  \<open>deserialize\<close> gets the array, the number of received bytes in it and returns the new packet with
  the number of bytes used, or \<open>nullptr\<close>; reading outside the array is undefined behaviour.
\<close>

datatype parsed = Null_pkt | Parsed packet nat | Read_fault

text \<open>
  \<open>serialize\<close> fills the output buffer and sets \<open>*out_size\<close> and the length of the packet; the caller
  sends the first \<open>*out_size\<close> bytes. It may also return false, throw, or be undefined (a packet of
  the wrong class, bytes of an uninitialised array).
\<close>

datatype serialized = Serialized "byte list" nat packet | Not_serialized | Threw conv_error | Undefined

definition parsed_of :: "parsed option \<Rightarrow> parsed" where
  "parsed_of r = (case r of None \<Rightarrow> Read_fault | Some x \<Rightarrow> x)"

lemma parsed_of_simps [simp]: "parsed_of None = Read_fault" "parsed_of (Some x) = x"
  by (simp_all add: parsed_of_def)

section \<open>The header\<close>

definition base_serialize :: "conn_packet \<Rightarrow> byte list" where
  "base_serialize pkt =
     [ucast (header_1 pkt), ucast (header_2 pkt), packet_type_code (pkt_type pkt),
      ucast (pkt_len pkt), ucast (drop_bit 8 (pkt_len pkt))]"

definition base_deserialize :: "byte list \<Rightarrow> nat \<Rightarrow> (conn_packet \<times> nat) option option" where
  "base_deserialize buf buffer_size =
     (if 5 \<le> buffer_size then do {
        (b0, _) \<leftarrow> rd buf 0;
        (b1, _) \<leftarrow> rd buf 1;
        (b2, _) \<leftarrow> rd buf 2;
        (b3, _) \<leftarrow> rd buf 3;
        (b4, _) \<leftarrow> rd buf 4;
        let len = ucast b3 OR push_bit 8 (ucast b4);
        Some (if buffer_size < unat len then None
              else Some (new_conn_packet\<lparr>header_1 := ucast b0, header_2 := ucast b1,
                           pkt_type := packet_type_of_byte b2, pkt_len := len\<rparr>, 5))
      } else Some None)"

text \<open>The virtual functions of \<open>base_pkt_parser\<close> itself, as \<open>pkt_parser\<close> calls them.\<close>

definition base_parser_serialize :: "packet \<Rightarrow> serialized" where
  "base_parser_serialize pkt = Serialized (base_serialize (base_of pkt)) 5 pkt"

definition base_parser_deserialize :: "byte list \<Rightarrow> nat \<Rightarrow> parsed" where
  "base_parser_deserialize buf buffer_size =
     parsed_of (map_option (\<lambda>r. case r of None \<Rightarrow> Null_pkt | Some (p, used) \<Rightarrow> Parsed (Base_pkt p) used)
       (base_deserialize buf buffer_size))"

text \<open>
  The derived serialisers overwrite bytes 3 and 4 with the final size and store the size, cast to
  \<open>char\<close> and therefore sign extended, in \<open>pkt_len\<close>.
\<close>

definition patch_size :: "nat \<Rightarrow> byte list \<Rightarrow> byte list" where
  "patch_size n out = out[3 := word_of_nat n, 4 := word_of_nat (n div 256)]"

lemma length_patch_size [simp]: "length (patch_size n out) = length out"
  by (simp add: patch_size_def)

definition char_len :: "nat \<Rightarrow> u32" where
  "char_len n = scast (word_of_nat n :: byte)"

definition size_header :: "'a conn_packet_scheme \<Rightarrow> nat \<Rightarrow> byte list" where
  "size_header p n =
     [ucast (header_1 p), ucast (header_2 p), packet_type_code (pkt_type p), word_of_nat n,
      word_of_nat (n div 256)]"

lemma length_base_serialize [simp]: "length (base_serialize p) = 5"
  by (simp add: base_serialize_def)

lemma length_size_header [simp]: "length (size_header p n) = 5"
  by (simp add: size_header_def)

lemma size_header_truncate [simp]: "size_header (conn_packet.truncate p) n = size_header p n"
  by (simp add: size_header_def)

lemma nat_4_Suc: "(4::nat) = Suc (Suc (Suc (Suc 0)))"
  by simp

lemma holds_rd_4 [wire_simps]:
  "rd buf p = Some (a, Suc p) \<Longrightarrow> rd buf (Suc p) = Some (b, Suc (Suc p)) \<Longrightarrow>
   rd buf (Suc (Suc p)) = Some (c, Suc (Suc (Suc p))) \<Longrightarrow>
   rd buf (Suc (Suc (Suc p))) = Some (d, Suc (Suc (Suc (Suc p)))) \<Longrightarrow>
   rd_n 4 buf p = Some ([a, b, c, d], Suc (Suc (Suc (Suc p))))"
  by (simp add: nat_4_Suc)

lemma patch_base_serialize [simp]:
  "patch_size n (base_serialize (conn_packet.truncate p) @ out) = size_header p n @ out"
  by (simp add: patch_size_def base_serialize_def size_header_def numeral_3_eq_3 nat_4_Suc)

lemma ucast_as_nat:
  fixes w :: "'a::len word"
  shows "(ucast w :: byte) = word_of_nat (unat w)"
  by simp

lemma ucast_drop_bit_8:
  fixes w :: u32
  shows "(ucast (drop_bit 8 w) :: byte) = word_of_nat (unat w div 256)"
proof -
  have "unat (drop_bit 8 w) = unat w div 256"
    by (simp add: unat_drop_bit_eq drop_bit_eq_div [where ?'a = nat])
  then show ?thesis by (metis ucast_as_nat)
qed

lemma size_header_word:
  assumes "n < 65536"
  shows "(ucast (word_of_nat n :: byte) OR push_bit 8 (ucast (word_of_nat (n div 256) :: byte)) :: u32)
       = word_of_nat n"
proof -
  have n: "unat (word_of_nat n :: u32) = n"
    using assms by (simp add: unat_of_nat)
  then have "(ucast (drop_bit 8 (word_of_nat n :: u32)) :: byte) = word_of_nat (n div 256)"
    by (simp add: ucast_drop_bit_8)
  then have "put_le 2 (word_of_nat n :: u32) = [word_of_nat n, word_of_nat (n div 256)]"
    using n ucast_as_nat [of "word_of_nat n :: u32"] by (simp add: numeral_2_eq_2)
  moreover have "take_bit 16 (word_of_nat n :: u32) = word_of_nat n"
    using assms n by (simp add: word_unat_eq_iff unsigned_take_bit_eq take_bit_nat_eq_self)
  ultimately show ?thesis
    using join_le_put_le [of 0 0 2 "word_of_nat n :: u32"] by simp
qed

text \<open>The header as a receiver sees it.\<close>

definition header_decoded :: "'a conn_packet_scheme \<Rightarrow> nat \<Rightarrow> conn_packet" where
  "header_decoded p n =
     \<lparr>pkt_fd = - 1, pkt_type = packet_type_of_byte (packet_type_code (pkt_type p)),
      header_1 = ucast (ucast (header_1 p) :: byte), header_2 = ucast (ucast (header_2 p) :: byte),
      pkt_len = word_of_nat n\<rparr>"

lemma header_decoded_simps [simp]:
  "pkt_fd (header_decoded p n) = - 1" "pkt_len (header_decoded p n) = word_of_nat n"
  "pkt_type (header_decoded p n) = packet_type_of_byte (packet_type_code (pkt_type p))"
  by (simp_all add: header_decoded_def)

lemma base_deserialize_header [wire_simps]:
  assumes "holds buf 0 (size_header p n)" and "n < 65536" and "5 \<le> sz"
  shows "base_deserialize buf sz =
    Some (if sz < n then None else Some (header_decoded p n, 5))"
proof -
  have u: "unat (word_of_nat n :: u32) = n"
    using assms(2) by (simp add: unat_of_nat)
  have "rd buf 0 = Some (ucast (header_1 p), 1)" "rd buf 1 = Some (ucast (header_2 p), 2)"
    "rd buf 2 = Some (packet_type_code (pkt_type p), 3)" "rd buf 3 = Some (word_of_nat n, 4)"
    "rd buf 4 = Some (word_of_nat (n div 256), 5)"
    using assms(1)
    by (simp_all add: size_header_def holds_Cons Suc_eq_plus1 del: One_nat_def)
  then show ?thesis
    using assms(2,3)
    by (simp add: base_deserialize_def Let_def size_header_word u header_decoded_def new_conn_packet_def)
qed

lemma base_deserialize_short: "sz < 5 \<Longrightarrow> base_deserialize buf sz = Some None"
  by (simp add: base_deserialize_def)

text \<open>
  The same for a packet cut after its first \<open>sz\<close> bytes: too little for a header, or a header that
  announces more than has arrived.
\<close>

lemma base_deserialize_cut:
  assumes "holds buf 0 (take sz (size_header p n @ F))" and "n = 5 + length F" and "n < 65536"
    and "sz < n"
  shows "base_deserialize buf sz = Some None"
proof (cases "sz < 5")
  case False
  then have "take sz (size_header p n @ F) = size_header p n @ take (sz - 5) F"
    by simp
  then have "holds buf 0 (size_header p n)"
    using assms(1) by (simp add: holds_append)
  with assms False show ?thesis by (simp add: base_deserialize_header)
qed (simp add: base_deserialize_short)

section \<open>The interface \<open>packet_parser\<close>\<close>

text \<open>
  What \<open>connection\<close> and \<open>http_sync\<close> rely on: a packet in the domain \<open>good\<close> is serialised without
  failure into its wire form; a buffer that starts with the whole wire form yields the packet
  \<open>decoded p\<close> and uses exactly its bytes, whatever follows; a buffer that ends inside it yields
  \<open>nullptr\<close>.
\<close>

locale packet_codec =
  fixes serialize :: "packet \<Rightarrow> serialized"
    and deserialize :: "byte list \<Rightarrow> nat \<Rightarrow> parsed"
    and good :: "packet \<Rightarrow> bool"
    and wire :: "packet \<Rightarrow> byte list"
    and decoded :: "packet \<Rightarrow> packet"
  assumes serialize_good: "good p \<Longrightarrow>
      \<exists>out p'. serialize p = Serialized out (length (wire p)) p' \<and> take (length (wire p)) out = wire p"
    and wire_min: "good p \<Longrightarrow> 5 \<le> length (wire p)"
    and deserialize_whole: "good p \<Longrightarrow> holds buf 0 (wire p) \<Longrightarrow> length (wire p) \<le> sz \<Longrightarrow>
      deserialize buf sz = Parsed (decoded p) (length (wire p))"
    and deserialize_cut: "good p \<Longrightarrow> sz < length (wire p) \<Longrightarrow> holds buf 0 (take sz (wire p)) \<Longrightarrow>
      deserialize buf sz = Null_pkt"
    and deserialize_short: "sz < 5 \<Longrightarrow> deserialize buf sz = Null_pkt"
begin

lemma roundtrip:
  "good p \<Longrightarrow> deserialize (wire p @ rest) (length (wire p) + k) = Parsed (decoded p) (length (wire p))"
  by (rule deserialize_whole) auto

text \<open>
  What a receiver makes of the bytes of a successful \<open>serialize\<close>: the packet when they are all there,
  whatever follows them, and nothing while some are missing.
\<close>

lemma serialize_deserialize:
  assumes "good p"
  shows "\<exists>out n p'. serialize p = Serialized out n p' \<and>
    (\<forall>rest k. deserialize (take n out @ rest) (n + k) = Parsed (decoded p) n) \<and>
    (\<forall>j < n. deserialize (take j out) j = Null_pkt)"
proof -
  from assms obtain out p' where s: "serialize p = Serialized out (length (wire p)) p'"
    and w: "take (length (wire p)) out = wire p" using serialize_good by blast
  have "deserialize (take (length (wire p)) out @ rest) (length (wire p) + k) =
      Parsed (decoded p) (length (wire p))" for rest k
    unfolding w using assms by (rule roundtrip)
  moreover have "deserialize (take j out) j = Null_pkt" if "j < length (wire p)" for j
  proof (rule deserialize_cut [OF assms that])
    have "take j (take (length (wire p)) out) = take j out"
      using that by simp
    then have "take j (wire p) = take j out" unfolding w .
    then show "holds (take j out) 0 (take j (wire p))" by simp
  qed
  ultimately show ?thesis using s by blast
qed

lemma wire_nonempty: "good p \<Longrightarrow> wire p \<noteq> []"
  using wire_min [of p] by auto

text \<open>The wire form is prefix free on good packets with different decodings.\<close>

lemma wire_decodes_uniquely:
  assumes "good p" and "good q" and "wire p @ xs = wire q @ ys"
  shows "decoded p = decoded q \<and> length (wire p) = length (wire q) \<and> xs = ys"
proof -
  let ?n = "length (wire p) + length (wire q)"
  have "deserialize (wire p @ xs) ?n = Parsed (decoded p) (length (wire p))"
    using assms(1) by (intro deserialize_whole) auto
  moreover have "deserialize (wire q @ ys) ?n = Parsed (decoded q) (length (wire q))"
    using assms(2) by (intro deserialize_whole) auto
  ultimately show ?thesis using assms(3) by auto
qed

end

section \<open>\<open>base_pkt_parser\<close> implements it for plain packets\<close>

definition base_good :: "packet \<Rightarrow> bool" where
  "base_good pkt \<longleftrightarrow> (case pkt of Base_pkt p \<Rightarrow> pkt_len p \<le> 5 | _ \<Rightarrow> False)"

definition base_wire :: "packet \<Rightarrow> byte list" where
  "base_wire pkt = base_serialize (base_of pkt)"

definition base_decoded :: "packet \<Rightarrow> packet" where
  "base_decoded pkt = Base_pkt (header_decoded (base_of pkt) (unat (pkt_len (base_of pkt))))"

lemma base_serialize_size_header:
  assumes "pkt_len p < 65536"
  shows "base_serialize p = size_header p (unat (pkt_len p))"
proof -
  show ?thesis
    by (simp add: base_serialize_def size_header_def ucast_drop_bit_8)
qed

interpretation base: packet_codec base_parser_serialize base_parser_deserialize base_good base_wire
  base_decoded
proof unfold_locales
  show "\<exists>out p'. base_parser_serialize p = Serialized out (length (base_wire p)) p' \<and>
      take (length (base_wire p)) out = base_wire p" if "base_good p" for p
    by (simp add: base_parser_serialize_def base_wire_def)
  show "5 \<le> length (base_wire p)" if "base_good p" for p
    by (simp add: base_wire_def)
  show "base_parser_deserialize buf sz = Null_pkt" if "sz < 5" for buf sz
    using that by (simp add: base_parser_deserialize_def base_deserialize_short)
  fix p buf sz
  assume g: "base_good p"
  then obtain q where q: "p = Base_pkt q" "pkt_len q \<le> 5"
    by (auto simp: base_good_def split: packet.splits)
  then have len: "unat (pkt_len q) \<le> 5" "pkt_len q < 65536"
    by (auto simp: word_le_nat_alt word_less_nat_alt)
  show "base_parser_deserialize buf sz = Parsed (base_decoded p) (length (base_wire p))"
    if "holds buf 0 (base_wire p)" "length (base_wire p) \<le> sz"
    using that len base_deserialize_header [of buf q "unat (pkt_len q)" sz]
    by (simp add: q base_wire_def base_parser_deserialize_def base_serialize_size_header base_decoded_def)
  show "base_parser_deserialize buf sz = Null_pkt" if "sz < length (base_wire p)"
    using that by (simp add: base_wire_def base_parser_deserialize_def base_deserialize_short)
qed

end
