(* ===== verification/Recent_Parser.thy ===== *)
theory Recent_Parser
  imports Packet_Parser
begin

text \<open>
  \<open>xt_recent/xt_recent_parser.cpp\<close>: the wire format of the actions on the recent-match tables, and
  the table parser, which is a stub. The last section shows that the action parser implements
  \<open>packet_codec\<close> and says exactly what of an action survives the wire.
\<close>

section \<open>The table parser\<close>

definition table_deserialize :: "byte list \<Rightarrow> nat \<Rightarrow> parsed" where
  "table_deserialize buffer buffer_size = Null_pkt"

definition table_serialize :: "packet \<Rightarrow> serialized" where
  "table_serialize pkt = Not_serialized"

section \<open>The action parser\<close>

text \<open>The loop over the timestamps, each rebuilt from eight bytes.\<close>

fun rd_timestamps :: "nat \<Rightarrow> byte list \<Rightarrow> nat \<Rightarrow> (u64 list \<times> nat) option" where
  "rd_timestamps 0 buf p = Some ([], p)"
| "rd_timestamps (Suc n) buf p =
     do { (t, p) \<leftarrow> rd_le 8 buf p; (ts, p) \<leftarrow> rd_timestamps n buf p; Some (t # ts, p) }"

text \<open>
  The table name: a length byte \<open>len\<close> at the current position, then the loop \<open>for (i = 1; i < len;
  i++)\<close> that advances before it reads, and one more advance.
\<close>

definition rd_table_name :: "byte list \<Rightarrow> nat \<Rightarrow> (string \<times> nat) option" where
  "rd_table_name buf p = do { (len, _) \<leftarrow> rd buf p; rd_string (unat len - 1) buf (Suc p) }"

definition recent_body :: "xt_recent_action \<Rightarrow> byte list \<Rightarrow> nat \<Rightarrow> (xt_recent_action \<times> nat) option" where
  "recent_body new_packet buf p = do {
     (ab, p) \<leftarrow> rd buf p;
     let act = action_type_of_byte ab;
     let e = target_entry new_packet;
     (e, p) \<leftarrow>
       (if act = ADD_UPD_ENTRY \<or> act = DELETE_ENTRY then do {
          (fam, p) \<leftarrow> rd buf p;
          (ip, p) \<leftarrow> rd_n 4 buf p;
          Some (set_src_ip (ipv4_string ip) (e\<lparr>ip_fam := ip_family_of_byte fam\<rparr>), p)
        } else Some (e, p));
     (e, p) \<leftarrow>
       (if act = ADD_UPD_ENTRY then do {
          (idx, p) \<leftarrow> rd buf p;
          (t, p) \<leftarrow> rd buf p;
          (cnt, p) \<leftarrow> rd buf p;
          (ts, p) \<leftarrow> rd_timestamps (unat cnt) buf p;
          Some ((set_ttl (ucast t) (set_oldest_pkt_index (ucast idx) e))
                  \<lparr>timestamps := timestamps e @ ts\<rparr>, p)
        } else Some (e, p));
     (name, p) \<leftarrow> rd_table_name buf p;
     Some (new_packet\<lparr>action := act, target_entry := e, xt_table_name := name\<rparr>, p)
   }"

definition recent_deserialize :: "xt_recent_action \<Rightarrow> byte list \<Rightarrow> nat \<Rightarrow> parsed" where
  "recent_deserialize u buffer buffer_size = parsed_of (do {
     ret \<leftarrow> base_deserialize buffer buffer_size;
     case ret of
       None \<Rightarrow> Some Null_pkt
     | Some (pkt, used) \<Rightarrow>
         if pkt_type pkt = XT_RECENT_SYNC then do {
           (a, used) \<leftarrow> recent_body (xt_recent_action_of u pkt) buffer used;
           Some (Parsed (Recent_pkt a) used)
         } else Some Null_pkt
   })"

text \<open>
  The bytes the serialiser appends to the header; the address may make \<open>std::stoi\<close> throw. The table
  name is copied with \<open>strcpy\<close> into an uninitialised array of \<open>size() + 1\<close> bytes which is then
  written out: with a NUL inside the name the rest of the array is indeterminate.
\<close>

definition recent_fields :: "xt_recent_action \<Rightarrow> conv_error + byte list" where
  "recent_fields a =
     (let e = target_entry a;
          name = word_of_nat (length (xt_table_name a) + 1) # bytes_of_string (xt_table_name a);
          stamps = (if action a = ADD_UPD_ENTRY
             then [ucast (get_oldest_pkt_index e), ucast (get_ttl e),
                   word_of_nat (length (timestamps e))] @ concat (map (put_le 8) (timestamps e))
             else [])
      in if action a = ADD_UPD_ENTRY \<or> action a = DELETE_ENTRY
         then (case get_ip_address_v4 (get_src_ip e) of
                 Inl err \<Rightarrow> Inl err
               | Inr parts \<Rightarrow> Inr (action_type_code (action a) #
                                  ip_family_code (ip_fam e) # parts @ stamps @ name))
         else Inr (action_type_code (action a) # stamps @ name))"

definition recent_serialize :: "packet \<Rightarrow> serialized" where
  "recent_serialize pkt =
     (case pkt of
        Recent_pkt a \<Rightarrow>
          (case recent_fields a of
             Inl err \<Rightarrow> Threw err
           | Inr fs \<Rightarrow>
               if CHR 0x00 \<in> set (xt_table_name a) then Undefined
               else
                 (let out = base_serialize (conn_packet.truncate a) @ fs @ [0];
                      out_size = length out - 1
                  in Serialized (patch_size out_size out) out_size
                       (Recent_pkt (a\<lparr>pkt_len := char_len out_size\<rparr>))))
      | _ \<Rightarrow> Undefined)"

section \<open>What the wire carries\<close>

text \<open>
  The actions the wire format is for: an IPv4 address in canonical form, at most 255 timestamps, a
  table name of at most 253 characters, an action and a family that are enumerators.
\<close>

definition recent_good :: "packet \<Rightarrow> bool" where
  "recent_good pkt \<longleftrightarrow> (case pkt of
     Recent_pkt a \<Rightarrow>
       pkt_type a = XT_RECENT_SYNC \<and>
       action_type_of_byte (action_type_code (action a)) = action a \<and>
       length (xt_table_name a) \<le> 253 \<and> CHR 0x00 \<notin> set (xt_table_name a) \<and>
       (action a = ADD_UPD_ENTRY \<or> action a = DELETE_ENTRY \<longrightarrow>
          is_ipv4 (src_ip (target_entry a)) \<and>
          ip_family_of_byte (ip_family_code (ip_fam (target_entry a))) =
            ip_fam (target_entry a)) \<and>
       (action a = ADD_UPD_ENTRY \<longrightarrow> length (timestamps (target_entry a)) \<le> 255)
   | _ \<Rightarrow> False)"

definition recent_wire :: "packet \<Rightarrow> byte list" where
  "recent_wire pkt = (case pkt of
     Recent_pkt a \<Rightarrow> (case recent_fields a of Inl _ \<Rightarrow> []
       | Inr fs \<Rightarrow> size_header a (5 + length fs) @ fs)
   | _ \<Rightarrow> [])"

text \<open>
  The entry a receiver gets: of \<open>ttl\<close> and the index only the low byte, the address and timestamps of
  the sender, and of a deletion the address alone.
\<close>

definition entry_decoded :: "xt_recent_entry \<Rightarrow> action_type \<Rightarrow> xt_recent_entry \<Rightarrow> xt_recent_entry" where
  "entry_decoded u act e =
     (if act = ADD_UPD_ENTRY then
        \<lparr>src_ip = src_ip e, ttl = ucast (ucast (ttl e) :: byte), last_seen = None,
         last_seen_index = ucast (ucast (last_seen_index e) :: byte), ip_fam = ip_fam e,
         timestamps = timestamps e\<rparr>
      else if act = DELETE_ENTRY then
        (new_xt_recent_entry u)\<lparr>src_ip := src_ip e, ip_fam := ip_fam e\<rparr>
      else new_xt_recent_entry u)"

definition recent_decoded :: "xt_recent_action \<Rightarrow> packet \<Rightarrow> packet" where
  "recent_decoded u pkt = (case pkt of
     Recent_pkt a \<Rightarrow> Recent_pkt (conn_packet.extend (header_decoded a (length (recent_wire pkt)))
       \<lparr>action_timestamp = None, target_entry = entry_decoded (target_entry u) (action a) (target_entry a),
        action = action a, xt_table_name = xt_table_name a\<rparr>)
   | _ \<Rightarrow> pkt)"

lemma holds_rd_timestamps [wire_simps]:
  "holds buf p (concat (map (put_le 8) ts)) \<Longrightarrow>
   rd_timestamps (length ts) buf p = Some (ts, p + 8 * length ts)"
  by (induction ts arbitrary: p) (auto simp: wire_simps)

lemma length_stamps [simp]: "length (concat (map (put_le 8) ts)) = 8 * length ts"
  by (induction ts) auto

lemma holds_rd_table_name [wire_simps]:
  assumes "rd buf p = Some (1 + word_of_nat (length s), Suc p)"
    and "holds buf (Suc p) (bytes_of_string s)" and "length s \<le> 253"
  shows "rd_table_name buf p = Some (s, Suc p + length s)"
proof -
  have "unat (word_of_nat (length s + 1) :: byte) = length s + 1"
    using assms(3) by (intro unat_byte_of_nat) simp
  then show ?thesis
    using assms(1,2) by (simp add: rd_table_name_def wire_simps)
qed

text \<open>One case distinction per kind of action gives the fields.\<close>

lemma recent_fields_cases:
  assumes "recent_good (Recent_pkt a)"
  obtains (entry) ip where "action a = ADD_UPD_ENTRY \<or> action a = DELETE_ENTRY"
      "length ip = 4" "src_ip (target_entry a) = ipv4_string ip"
      "recent_fields a = Inr (action_type_code (action a) # ip_family_code (ip_fam (target_entry a)) #
         ip @ (if action a = ADD_UPD_ENTRY
           then [ucast (last_seen_index (target_entry a)), ucast (ttl (target_entry a)),
                 word_of_nat (length (timestamps (target_entry a)))] @
                concat (map (put_le 8) (timestamps (target_entry a)))
           else []) @
         word_of_nat (length (xt_table_name a) + 1) # bytes_of_string (xt_table_name a))"
  | (table) "action a \<noteq> ADD_UPD_ENTRY" "action a \<noteq> DELETE_ENTRY"
      "recent_fields a = Inr (action_type_code (action a) #
         word_of_nat (length (xt_table_name a) + 1) # bytes_of_string (xt_table_name a))"
proof (cases "action a = ADD_UPD_ENTRY \<or> action a = DELETE_ENTRY")
  case True
  then have "is_ipv4 (src_ip (target_entry a))"
    using assms by (auto simp: recent_good_def)
  then obtain i j k l where "src_ip (target_entry a) = ipv4_string [i, j, k, l]"
      "get_ip_address_v4 (src_ip (target_entry a)) = Inr [i, j, k, l]"
    by (rule is_ipv4E)
  then show ?thesis
    using True
    by (intro entry [of "[i, j, k, l]"]) (auto simp: recent_fields_def get_src_ip_def get_ttl_def
        get_oldest_pkt_index_def Let_def)
next
  case False
  then show ?thesis by (intro table) (auto simp: recent_fields_def)
qed

lemma recent_wire_length:
  assumes "recent_good (Recent_pkt a)" and "recent_fields a = Inr fs"
  shows "5 + length fs \<le> 2309"
  using assms(1)
proof (cases rule: recent_fields_cases)
  case (entry ip)
  with assms show ?thesis by (auto simp: recent_good_def)
next
  case table
  with assms show ?thesis by (auto simp: recent_good_def)
qed

text \<open>Reading back the fields of a good action.\<close>

lemma recent_body_fields:
  assumes "recent_good (Recent_pkt a)" and "recent_fields a = Inr fs" and "holds buf p fs"
  shows "recent_body b buf p =
    Some (b\<lparr>action := action a, xt_table_name := xt_table_name a, target_entry :=
        (if action a = ADD_UPD_ENTRY then
           (target_entry b)\<lparr>src_ip := src_ip (target_entry a), ip_fam := ip_fam (target_entry a),
              ttl := ucast (ucast (ttl (target_entry a)) :: byte),
              last_seen_index := ucast (ucast (last_seen_index (target_entry a)) :: byte),
              timestamps := timestamps (target_entry b) @ timestamps (target_entry a)\<rparr>
         else if action a = DELETE_ENTRY then
           (target_entry b)\<lparr>src_ip := src_ip (target_entry a), ip_fam := ip_fam (target_entry a)\<rparr>
         else target_entry b)\<rparr>, p + length fs)"
  using assms(1)
proof (cases rule: recent_fields_cases)
  case (entry ip)
  obtain i1 i2 i3 i4 where ip: "ip = [i1, i2, i3, i4]"
    using entry(2) by (auto simp: numeral_eq_Suc length_Suc_conv)
  have good: "action_type_of_byte (action_type_code (action a)) = action a"
      "ip_family_of_byte (ip_family_code (ip_fam (target_entry a))) = ip_fam (target_entry a)"
      "length (xt_table_name a) \<le> 253"
      "action a = ADD_UPD_ENTRY \<Longrightarrow> length (timestamps (target_entry a)) < 256"
    using assms(1) entry(1) by (auto simp: recent_good_def)
  then show ?thesis
    using assms(2,3) entry(3,4) entry(1)
    by (auto simp: ip recent_body_def wire_simps set_src_ip_def set_ttl_def set_oldest_pkt_index_def)
next
  case table
  then show ?thesis
    using assms by (auto simp: recent_good_def recent_body_def holds_Cons holds_rd_table_name)
qed

section \<open>The action parser implements \<open>packet_parser\<close>\<close>

lemma recent_goodE:
  assumes "recent_good p"
  obtains a fs where "p = Recent_pkt a" "recent_good (Recent_pkt a)" "recent_fields a = Inr fs"
    "pkt_type a = XT_RECENT_SYNC" "CHR 0x00 \<notin> set (xt_table_name a)"
    "recent_wire p = size_header a (5 + length fs) @ fs" "5 + length fs \<le> 2309"
proof -
  from assms obtain a where a: "p = Recent_pkt a" by (auto simp: recent_good_def split: packet.splits)
  with assms have g: "recent_good (Recent_pkt a)" by simp
  then obtain fs where fs: "recent_fields a = Inr fs" by (cases rule: recent_fields_cases) auto
  show ?thesis
    by (rule that [OF a g fs]) (use g recent_wire_length [OF g fs] in
        \<open>auto simp: recent_good_def recent_wire_def a fs\<close>)
qed

lemma recent_serialize_wire:
  assumes "recent_good p"
  shows "\<exists>out p'. recent_serialize p = Serialized out (length (recent_wire p)) p' \<and>
    take (length (recent_wire p)) out = recent_wire p"
  using assms
proof (rule recent_goodE)
  fix a fs
  assume a: "p = Recent_pkt a" "recent_fields a = Inr fs" "CHR 0x00 \<notin> set (xt_table_name a)"
    and w: "recent_wire p = size_header a (5 + length fs) @ fs"
  show ?thesis
    by (simp add: w) (simp add: a recent_serialize_def Let_def)
qed

lemma recent_deserialize_wire:
  assumes "recent_good p" and "holds buf 0 (recent_wire p)" and "length (recent_wire p) \<le> sz"
  shows "recent_deserialize u buf sz = Parsed (recent_decoded u p) (length (recent_wire p))"
  using assms(1)
proof (rule recent_goodE)
  fix a fs
  assume a: "p = Recent_pkt a" "recent_good (Recent_pkt a)" "recent_fields a = Inr fs"
    "pkt_type a = XT_RECENT_SYNC" and n: "5 + length fs \<le> 2309"
    and w: "recent_wire p = size_header a (5 + length fs) @ fs"
  have h: "holds buf 0 (size_header a (5 + length fs))" "holds buf 5 fs"
    using assms(2) by (auto simp: w holds_append)
  have b: "base_deserialize buf sz = Some (Some (header_decoded a (5 + length fs), 5))"
    using base_deserialize_header [OF h(1), of sz] n assms(3) by (simp add: w)
  have l: "length (recent_wire (Recent_pkt a)) = 5 + length fs"
    using w by (simp add: a)
  show ?thesis
    by (simp add: recent_deserialize_def b a(4) recent_body_fields [OF a(2,3) h(2)] w)
      (auto simp: a(1,4) recent_decoded_def l xt_recent_action_of_def new_xt_recent_entry_def
        entry_decoded_def conn_packet.extend_def header_decoded_def new_conn_packet_def
        packet_type_of_byte_def)
qed

lemma recent_deserialize_cut:
  assumes "recent_good p" and "sz < length (recent_wire p)" and "holds buf 0 (take sz (recent_wire p))"
  shows "recent_deserialize u buf sz = Null_pkt"
  using assms(1)
proof (rule recent_goodE)
  fix a fs
  assume "recent_wire p = size_header a (5 + length fs) @ fs" "5 + length fs \<le> 2309"
  with assms(2,3) have "base_deserialize buf sz = Some None"
    by (intro base_deserialize_cut [where p = a and n = "5 + length fs" and F = fs]) auto
  then show ?thesis by (simp add: recent_deserialize_def)
qed

interpretation recent: packet_codec recent_serialize "recent_deserialize u" recent_good recent_wire
  "recent_decoded u" for u
proof unfold_locales
  show "5 \<le> length (recent_wire p)" if "recent_good p" for p
    using that by (rule recent_goodE) simp
  show "recent_deserialize u buf sz = Null_pkt" if "sz < 5" for buf sz
    using that by (simp add: recent_deserialize_def base_deserialize_short)
qed (rule recent_serialize_wire recent_deserialize_wire recent_deserialize_cut; assumption)+

section \<open>Property\<close>

text \<open>C16: a recent action in the domain of the wire format is serialised without failure; the bytes,
  followed by anything, are read back to the action as the format carries it, using exactly its bytes,
  and no proper prefix of them is taken for an action.\<close>

theorem recent_action_roundtrip:
  assumes "recent_good p"
  shows "\<exists>out n p'. recent_serialize p = Serialized out n p' \<and>
    (\<forall>rest k. recent_deserialize u (take n out @ rest) (n + k) = Parsed (recent_decoded u p) n) \<and>
    (\<forall>j < n. recent_deserialize u (take j out) j = Null_pkt)"
  using assms by (rule recent.serialize_deserialize)

lemma sample_action_good: "recent_good (Recent_pkt sample_action)"
  by (simp add: recent_good_def sample_entry_def is_ipv4_string action_type_of_byte_def)

theorem recent_action_roundtrip_witness:
  "\<exists>out n p'. recent_serialize (Recent_pkt sample_action) = Serialized out n p' \<and>
    (\<forall>rest k. recent_deserialize sample_action (take n out @ rest) (n + k) =
       Parsed (recent_decoded sample_action (Recent_pkt sample_action)) n) \<and>
    (\<forall>j < n. recent_deserialize sample_action (take j out) j = Null_pkt)"
  by (rule recent_action_roundtrip [OF sample_action_good])

end
