(* ===== verification/Http_Parser.thy ===== *)
theory Http_Parser
  imports Packet_Parser
begin

text \<open>
  \<open>http/http_parser.cpp\<close>: the wire format of the HTTP session actions, used both between the nodes
  and with the reverse proxy, and what of an action survives it.
\<close>

section \<open>The two functions\<close>

text \<open>
  The serialiser writes an \<open>unsigned int\<close> as the low bytes of \<open>x << (8 * i)\<close> for \<open>i = 0..3\<close>; the
  parser reads it back with \<open>|= byte << (8 * i)\<close>.
\<close>

definition put_shl :: "u32 \<Rightarrow> byte list" where
  "put_shl x = map (\<lambda>i. ucast (push_bit (8 * i) x)) [0, 1, 2, 3]"

definition carries_session :: "http_action_type \<Rightarrow> bool" where
  "carries_session a \<longleftrightarrow> a = SESS_ADD \<or> a = SESS_UPDATE \<or> a = SESS_WRITE"

definition http_body :: "http_action \<Rightarrow> byte list \<Rightarrow> nat \<Rightarrow> (http_action \<times> nat) option" where
  "http_body new_packet buf p = do {
     (ab, p) \<leftarrow> rd buf p;
     (farm_size, p) \<leftarrow> rd buf p;
     (farm, p) \<leftarrow> rd_string (unat farm_size) buf p;
     let new_packet = new_packet\<lparr>http_act := http_action_of_byte ab, farm_name := farm\<rparr>;
     if http_act new_packet = HTTP_SYNC_REQUEST then Some (new_packet, p)
     else do {
       (lst, p) \<leftarrow> rd_le 4 buf p;
       (srv, p) \<leftarrow> rd_le 4 buf p;
       (bck, p) \<leftarrow> rd_le 4 buf p;
       (ksize, p) \<leftarrow> rd buf p;
       (k, p) \<leftarrow> rd_string (unat ksize) buf p;
       let new_packet = new_packet\<lparr>listener := lst, service := srv, backend := bck,
             session := (session new_packet)\<lparr>backend_id := bck, key := k\<rparr>\<rparr>;
       if carries_session (http_act new_packet) then do {
         (csize, p) \<leftarrow> rd buf p;
         (cnt, p) \<leftarrow> rd_string (unat csize) buf p;
         (timestamp, p) \<leftarrow> rd_le 8 buf p;
         Some (new_packet\<lparr>session := (session new_packet)\<lparr>content := cnt, last_acc := timestamp\<rparr>,
                 pkt_len := word_of_nat p\<rparr>, p)
       } else Some (new_packet, p)
     }
   }"

definition http_deserialize :: "http_action \<Rightarrow> byte list \<Rightarrow> nat \<Rightarrow> parsed" where
  "http_deserialize u buffer buffer_size = parsed_of (do {
     ret \<leftarrow> base_deserialize buffer buffer_size;
     case ret of
       None \<Rightarrow> Some Null_pkt
     | Some (pkt, used) \<Rightarrow>
         if pkt_type pkt = HTTP_SYNC then do {
           let new_packet = new_http_action u;
           let new_packet = new_packet\<lparr>listener := 0, service := 0, backend := 0,
                 session := (session new_packet)\<lparr>last_acc := 0\<rparr>\<rparr>;
           (a, used) \<leftarrow> http_body new_packet buffer used;
           Some (Parsed (Http_pkt a) used)
         } else Some Null_pkt
   })"

definition http_fields :: "http_action \<Rightarrow> byte list" where
  "http_fields a =
     http_action_code (http_act a) # word_of_nat (length (farm_name a)) #
     bytes_of_string (farm_name a) @
     (if http_act a = HTTP_SYNC_REQUEST then []
      else put_shl (listener a) @ put_shl (service a) @ put_shl (backend a) @
        word_of_nat (length (key (session a))) # bytes_of_string (key (session a)) @
        (if carries_session (http_act a)
         then word_of_nat (length (content (session a))) # bytes_of_string (content (session a)) @
              put_le 8 (last_acc (session a))
         else []))"

definition http_serialize :: "packet \<Rightarrow> serialized" where
  "http_serialize pkt =
     (if pkt_type (base_of pkt) \<noteq> HTTP_SYNC then Not_serialized
      else (case pkt of
        Http_pkt a \<Rightarrow>
          (let out = base_serialize (conn_packet.truncate a) @ http_fields a;
               out_size = length out
           in Serialized (patch_size out_size out) out_size
                (Http_pkt (a\<lparr>pkt_len := char_len out_size\<rparr>)))
      | _ \<Rightarrow> Undefined))"

section \<open>What the wire carries\<close>

definition http_good :: "packet \<Rightarrow> bool" where
  "http_good pkt \<longleftrightarrow> (case pkt of
     Http_pkt a \<Rightarrow>
       pkt_type a = HTTP_SYNC \<and>
       http_action_of_byte (http_action_code (http_act a)) = http_act a \<and>
       length (farm_name a) \<le> 255 \<and>
       (http_act a \<noteq> HTTP_SYNC_REQUEST \<longrightarrow> length (key (session a)) \<le> 255) \<and>
       (carries_session (http_act a) \<longrightarrow> length (content (session a)) \<le> 255)
   | _ \<Rightarrow> False)"

definition http_wire :: "packet \<Rightarrow> byte list" where
  "http_wire pkt = (case pkt of
     Http_pkt a \<Rightarrow> size_header a (5 + length (http_fields a)) @ http_fields a
   | _ \<Rightarrow> [])"

text \<open>
  Of the listener, service and backend numbers only the low byte arrives. The header members of the
  received action are those of a fresh one.
\<close>

definition low_byte :: "u32 \<Rightarrow> u32" where
  "low_byte x = ucast (ucast x :: byte)"

definition http_decoded :: "http_action \<Rightarrow> packet \<Rightarrow> packet" where
  "http_decoded u pkt = (case pkt of
     Http_pkt a \<Rightarrow>
       (let s = (session (new_http_action u))\<lparr>last_acc := 0\<rparr>;
            b = (new_http_action u)\<lparr>http_act := http_act a, farm_name := farm_name a\<rparr>
        in Http_pkt
          (if http_act a = HTTP_SYNC_REQUEST
           then b\<lparr>listener := 0, service := 0, backend := 0, session := s\<rparr>
           else if carries_session (http_act a)
           then b\<lparr>listener := low_byte (listener a), service := low_byte (service a),
                  backend := low_byte (backend a),
                  session := (session a)\<lparr>backend_id := low_byte (backend a)\<rparr>,
                  pkt_len := word_of_nat (5 + length (http_fields a))\<rparr>
           else b\<lparr>listener := low_byte (listener a), service := low_byte (service a),
                  backend := low_byte (backend a),
                  session := s\<lparr>backend_id := low_byte (backend a), key := key (session a)\<rparr>\<rparr>))
   | _ \<Rightarrow> pkt)"

lemma low_byte_small [simp]: "unat x < 256 \<Longrightarrow> low_byte x = x"
  by (simp add: low_byte_def ucast_ucast_byte)

lemma put_shl_bytes: "put_shl x = ucast x # replicate 3 0"
proof -
  have "(ucast (push_bit (8 * i) x) :: byte) = 0" if "0 < i" for i
    by (rule bit_word_eqI) (use that in \<open>auto simp: bit_simps\<close>)
  from this [of 1] this [of 2] this [of 3] show ?thesis
    by (simp add: put_shl_def numeral_3_eq_3)
qed

lemma length_put_shl [simp]: "length (put_shl x) = 4"
  by (simp add: put_shl_def)

lemma holds_put_shl [wire_simps]:
  assumes "holds buf p (put_shl x)"
  shows "rd_le 4 buf p = Some (low_byte x, p + 4)"
proof -
  have "join_le 0 0 (put_shl x) = low_byte x"
    by (simp add: put_shl_bytes low_byte_def numeral_3_eq_3)
  with holds_rd_le [OF assms, where ?'a = 32] show ?thesis by simp
qed

lemma unat_len_byte [simp]: "n \<le> 255 \<Longrightarrow> unat (word_of_nat n :: byte) = n"
  by simp

lemma http_body_fields:
  assumes "http_good (Http_pkt a)" and "holds buf p (http_fields a)"
  shows "http_body b buf p =
    Some (let b = b\<lparr>http_act := http_act a, farm_name := farm_name a\<rparr>
          in if http_act a = HTTP_SYNC_REQUEST then b
             else let b = b\<lparr>listener := low_byte (listener a), service := low_byte (service a),
                    backend := low_byte (backend a),
                    session := (session b)\<lparr>backend_id := low_byte (backend a), key := key (session a)\<rparr>\<rparr>
             in if carries_session (http_act a)
                then b\<lparr>session := (session b)\<lparr>content := content (session a), last_acc := last_acc (session a)\<rparr>,
                       pkt_len := word_of_nat (p + length (http_fields a))\<rparr>
                else b,
          p + length (http_fields a))"
  using assms
  by (auto simp: http_good_def http_fields_def http_body_def wire_simps Let_def)

lemma http_goodE:
  assumes "http_good p"
  obtains a where "p = Http_pkt a" "http_good (Http_pkt a)" "pkt_type a = HTTP_SYNC"
    "http_wire p = size_header a (5 + length (http_fields a)) @ http_fields a"
    "5 + length (http_fields a) \<le> 797"
proof -
  from assms obtain a where a: "p = Http_pkt a" by (auto simp: http_good_def split: packet.splits)
  show ?thesis
    by (rule that [OF a]) (use assms in \<open>auto simp: a http_good_def http_wire_def http_fields_def\<close>)
qed

section \<open>The parser implements \<open>packet_parser\<close>\<close>

lemma http_serialize_wire:
  assumes "http_good p"
  shows "\<exists>out p'. http_serialize p = Serialized out (length (http_wire p)) p' \<and>
    take (length (http_wire p)) out = http_wire p"
  using assms
proof (rule http_goodE)
  fix a
  assume a: "p = Http_pkt a" "pkt_type a = HTTP_SYNC"
    and w: "http_wire p = size_header a (5 + length (http_fields a)) @ http_fields a"
  show ?thesis
    by (simp add: w) (simp add: a http_serialize_def Let_def)
qed

lemma http_deserialize_wire:
  assumes "http_good p" and "holds buf 0 (http_wire p)" and "length (http_wire p) \<le> sz"
  shows "http_deserialize u buf sz = Parsed (http_decoded u p) (length (http_wire p))"
  using assms(1)
proof (rule http_goodE)
  fix a
  assume a: "p = Http_pkt a" "http_good (Http_pkt a)" "pkt_type a = HTTP_SYNC"
    and w: "http_wire p = size_header a (5 + length (http_fields a)) @ http_fields a"
    and n: "5 + length (http_fields a) \<le> 797"
  have h: "holds buf 0 (size_header a (5 + length (http_fields a)))" "holds buf 5 (http_fields a)"
    using assms(2) by (auto simp: w holds_append)
  have b: "base_deserialize buf sz = Some (Some (header_decoded a (5 + length (http_fields a)), 5))"
    using base_deserialize_header [OF h(1), of sz] n assms(3) by (simp add: w)
  show ?thesis
    by (simp add: http_deserialize_def b a(3) http_body_fields [OF a(2) h(2)] w)
      (auto simp: a(1) http_decoded_def Let_def new_http_action_def conn_packet.extend_def
        packet_type_of_byte_def carries_session_def)
qed

lemma http_deserialize_cut:
  assumes "http_good p" and "sz < length (http_wire p)" and "holds buf 0 (take sz (http_wire p))"
  shows "http_deserialize u buf sz = Null_pkt"
  using assms(1)
proof (rule http_goodE)
  fix a
  assume "http_wire p = size_header a (5 + length (http_fields a)) @ http_fields a"
    "5 + length (http_fields a) \<le> 797"
  with assms(2,3) have "base_deserialize buf sz = Some None"
    by (intro base_deserialize_cut [where p = a and n = "5 + length (http_fields a)"
          and F = "http_fields a"]) auto
  then show ?thesis by (simp add: http_deserialize_def)
qed

interpretation http: packet_codec http_serialize "http_deserialize u" http_good http_wire
  "http_decoded u" for u
proof unfold_locales
  show "5 \<le> length (http_wire p)" if "http_good p" for p
    using that by (rule http_goodE) simp
  show "http_deserialize u buf sz = Null_pkt" if "sz < 5" for buf sz
    using that by (simp add: http_deserialize_def base_deserialize_short)
qed (rule http_serialize_wire http_deserialize_wire http_deserialize_cut; assumption)+

lemma http_serialize_room:
  "http_serialize (Http_pkt a) = Serialized out n p \<Longrightarrow> length out = n"
  by (auto simp: http_serialize_def Let_def split: if_splits)

section \<open>Properties\<close>

text \<open>C17: an HTTP action whose strings fit a length byte is serialised without failure; the bytes,
  followed by anything, are read back to the action as the format carries it, using exactly its bytes,
  and no proper prefix of them is taken for an action.\<close>

theorem http_action_roundtrip:
  assumes "http_good p"
  shows "\<exists>out n p'. http_serialize p = Serialized out n p' \<and>
    (\<forall>rest k. http_deserialize u (take n out @ rest) (n + k) = Parsed (http_decoded u p) n) \<and>
    (\<forall>j < n. http_deserialize u (take j out) j = Null_pkt)"
  using assms by (rule http.serialize_deserialize)

lemma sample_http_good: "http_good (Http_pkt sample_http)"
  by (simp add: http_good_def sample_session_def http_action_of_byte_def)

theorem http_action_roundtrip_witness:
  "\<exists>out n p'. http_serialize (Http_pkt sample_http) = Serialized out n p' \<and>
    (\<forall>rest k. http_deserialize sample_http (take n out @ rest) (n + k) =
       Parsed (http_decoded sample_http (Http_pkt sample_http)) n) \<and>
    (\<forall>j < n. http_deserialize sample_http (take j out) j = Null_pkt)"
  by (rule http_action_roundtrip [OF sample_http_good])

text \<open>C29: of the listener, service and backend numbers only the low byte survives the wire, because the
  serialiser shifts left where it means to shift right: the receiver of a good action (other than a
  synchronisation request) gets each number modulo 256.\<close>

theorem http_numbers_lose_high_bytes:
  assumes "http_good (Http_pkt a)" and "http_act a \<noteq> HTTP_SYNC_REQUEST"
    and "http_serialize (Http_pkt a) = Serialized out n p'"
  shows "\<exists>b. http_deserialize u (take n out) n = Parsed (Http_pkt b) n \<and>
    unat (listener b) = unat (listener a) mod 256 \<and> unat (service b) = unat (service a) mod 256 \<and>
    unat (backend b) = unat (backend a) mod 256"
proof -
  have low: "unat (low_byte x) = unat x mod 256" for x
    by (simp add: low_byte_def unsigned_ucast_eq take_bit_eq_mod unat_mod)
  have "\<forall>rest k. http_deserialize u (take n out @ rest) (n + k) = Parsed (http_decoded u (Http_pkt a)) n"
    using http.serialize_deserialize [OF assms(1), of u] assms(3) by auto
  from this [THEN spec [of _ "[]"], THEN spec [of _ 0]]
  have "http_deserialize u (take n out) n = Parsed (http_decoded u (Http_pkt a)) n" by simp
  then show ?thesis
    using assms(2) by (auto simp: http_decoded_def Let_def low)
qed

theorem http_numbers_lose_high_bytes_witness:
  "\<exists>out n p' b. http_serialize (Http_pkt (sample_http\<lparr>listener := 300\<rparr>)) = Serialized out n p' \<and>
     http_deserialize sample_http (take n out) n = Parsed (Http_pkt b) n \<and> unat (listener b) = 44"
proof -
  have g: "http_good (Http_pkt (sample_http\<lparr>listener := 300\<rparr>))"
    by (simp add: http_good_def sample_session_def http_action_of_byte_def)
  then obtain out n p' where s: "http_serialize (Http_pkt (sample_http\<lparr>listener := 300\<rparr>)) = Serialized out n p'"
    using http.serialize_deserialize by blast
  from http_numbers_lose_high_bytes [OF g _ s, of sample_http] s show ?thesis
    by auto
qed

end
