(* ===== verification/Pkt_Parser.thy ===== *)
theory Pkt_Parser
  imports Recent_Parser Http_Parser
begin

text \<open>
  \<open>sync/pkt_parser.cpp\<close>: the parser of the link between master and backup, which dispatches on the
  packet type.
\<close>

datatype parser_id = Action_parser | Table_parser | Pound_parser | Base_parser

definition get_packet_parser :: "packet_type \<Rightarrow> parser_id" where
  "get_packet_parser t =
     (case t of XT_RECENT_SYNC \<Rightarrow> Action_parser | XT_RECENT_TABLE \<Rightarrow> Table_parser
      | HTTP_SYNC \<Rightarrow> Pound_parser | _ \<Rightarrow> Base_parser)"

text \<open>The virtual calls on the parser object that \<open>get_packet_parser\<close> returns.\<close>

definition parser_deserialize ::
    "xt_recent_action \<Rightarrow> http_action \<Rightarrow> parser_id \<Rightarrow> byte list \<Rightarrow> nat \<Rightarrow> parsed" where
  "parser_deserialize ur uh i =
     (case i of Action_parser \<Rightarrow> recent_deserialize ur | Table_parser \<Rightarrow> table_deserialize
      | Pound_parser \<Rightarrow> http_deserialize uh | Base_parser \<Rightarrow> base_parser_deserialize)"

definition parser_serialize :: "parser_id \<Rightarrow> packet \<Rightarrow> serialized" where
  "parser_serialize i =
     (case i of Action_parser \<Rightarrow> recent_serialize | Table_parser \<Rightarrow> table_serialize
      | Pound_parser \<Rightarrow> http_serialize | Base_parser \<Rightarrow> base_parser_serialize)"

definition pkt_deserialize ::
    "xt_recent_action \<Rightarrow> http_action \<Rightarrow> byte list \<Rightarrow> nat \<Rightarrow> parsed" where
  "pkt_deserialize ur uh buffer buffer_size = parsed_of (do {
     ret \<leftarrow> base_deserialize buffer buffer_size;
     case ret of
       None \<Rightarrow> Some Null_pkt
     | Some (p, _) \<Rightarrow>
         Some (parser_deserialize ur uh (get_packet_parser (pkt_type p)) buffer buffer_size)
   })"

definition pkt_serialize :: "packet \<Rightarrow> serialized" where
  "pkt_serialize pkt = parser_serialize (get_packet_parser (pkt_type (base_of pkt))) pkt"

section \<open>It implements \<open>packet_parser\<close>\<close>

text \<open>
  The good packets of the link: the recent actions, the HTTP actions, and the plain packets of a
  type that the base parser handles (\<open>CONNECT\<close>, \<open>DISCONNECT\<close>, \<open>GENERIC\<close>, \<open>SYNC_REQUEST\<close> and any other
  without a parser of its own).
\<close>

definition link_good :: "packet \<Rightarrow> bool" where
  "link_good pkt \<longleftrightarrow> (case get_packet_parser (pkt_type (base_of pkt)) of
     Action_parser \<Rightarrow> recent_good pkt | Table_parser \<Rightarrow> False
   | Pound_parser \<Rightarrow> http_good pkt
   | Base_parser \<Rightarrow> base_good pkt \<and>
       packet_type_of_byte (packet_type_code (pkt_type (base_of pkt))) = pkt_type (base_of pkt))"

definition link_wire :: "packet \<Rightarrow> byte list" where
  "link_wire pkt = (case get_packet_parser (pkt_type (base_of pkt)) of
     Action_parser \<Rightarrow> recent_wire pkt | Pound_parser \<Rightarrow> http_wire pkt | _ \<Rightarrow> base_wire pkt)"

definition link_decoded :: "xt_recent_action \<Rightarrow> http_action \<Rightarrow> packet \<Rightarrow> packet" where
  "link_decoded ur uh pkt = (case get_packet_parser (pkt_type (base_of pkt)) of
     Action_parser \<Rightarrow> recent_decoded ur pkt | Pound_parser \<Rightarrow> http_decoded uh pkt
   | _ \<Rightarrow> base_decoded pkt)"

lemma base_goodE:
  assumes "base_good p"
  obtains q where "p = Base_pkt q" "unat (pkt_len q) \<le> 5"
    "base_wire p = size_header q (unat (pkt_len q))"
proof -
  from assms obtain q where q: "p = Base_pkt q" "pkt_len q \<le> 5"
    by (auto simp: base_good_def split: packet.splits)
  then have "unat (pkt_len q) \<le> 5" "pkt_len q < 65536"
    by (auto simp: word_le_nat_alt word_less_nat_alt)
  then show ?thesis
    by (intro that [OF q(1)]) (auto simp: q base_wire_def base_serialize_size_header)
qed

text \<open>Every good packet starts with a header that names its own type and its size.\<close>

lemma link_headerE:
  assumes "link_good p"
  obtains q :: conn_packet and n F where "link_wire p = size_header q n @ F" "n < 65536"
    "n = 5 + length F \<or> n \<le> 5 \<and> F = []"
    "packet_type_of_byte (packet_type_code (pkt_type q)) = pkt_type (base_of p)"
proof (cases "get_packet_parser (pkt_type (base_of p))")
  case Action_parser
  with assms have "recent_good p" by (simp add: link_good_def)
  then obtain a fs where a: "p = Recent_pkt a" "pkt_type a = XT_RECENT_SYNC"
    "recent_wire p = size_header a (5 + length fs) @ fs" "5 + length fs \<le> 2309"
    by (rule recent_goodE)
  show ?thesis
    by (rule that [of "conn_packet.truncate a" "5 + length fs" fs])
      (use a Action_parser in \<open>auto simp: link_wire_def packet_type_of_byte_def\<close>)
next
  case Table_parser
  with assms show ?thesis by (simp add: link_good_def)
next
  case Pound_parser
  with assms have "http_good p" by (simp add: link_good_def)
  then obtain a where a: "p = Http_pkt a" "pkt_type a = HTTP_SYNC"
    "http_wire p = size_header a (5 + length (http_fields a)) @ http_fields a"
    "5 + length (http_fields a) \<le> 797"
    by (rule http_goodE)
  show ?thesis
    by (rule that [of "conn_packet.truncate a" "5 + length (http_fields a)" "http_fields a"])
      (use a Pound_parser in \<open>auto simp: link_wire_def packet_type_of_byte_def\<close>)
next
  case Base_parser
  with assms have "base_good p" by (simp add: link_good_def)
  then obtain q where q: "p = Base_pkt q" "unat (pkt_len q) \<le> 5"
    "base_wire p = size_header q (unat (pkt_len q))"
    by (rule base_goodE)
  show ?thesis
    by (rule that [of q "unat (pkt_len q)" "[]"])
      (use q assms Base_parser in \<open>auto simp: link_wire_def link_good_def\<close>)
qed

text \<open>So the header leads the dispatch to the parser that wrote the packet.\<close>

lemma link_dispatch:
  assumes "link_good p" and "holds buf 0 (link_wire p)" and "length (link_wire p) \<le> sz"
  shows "pkt_deserialize ur uh buf sz =
    parser_deserialize ur uh (get_packet_parser (pkt_type (base_of p))) buf sz"
proof -
  from assms(1) obtain q :: conn_packet and n F where w: "link_wire p = size_header q n @ F" "n < 65536"
    and n: "n = 5 + length F \<or> n \<le> 5 \<and> F = []"
    and t: "packet_type_of_byte (packet_type_code (pkt_type q)) = pkt_type (base_of p)"
    by (rule link_headerE)
  have "holds buf 0 (size_header q n)" "5 \<le> sz"
    using assms(2,3) by (auto simp: w holds_append)
  from base_deserialize_header [OF this(1) w(2) this(2)] n t assms(3) show ?thesis
    by (auto simp: pkt_deserialize_def w)
qed

lemma link_deserialize_cut:
  assumes "link_good p" and "sz < length (link_wire p)" and "holds buf 0 (take sz (link_wire p))"
  shows "pkt_deserialize ur uh buf sz = Null_pkt"
proof -
  from assms(1) obtain q :: conn_packet and n F where w: "link_wire p = size_header q n @ F" "n < 65536"
    and n: "n = 5 + length F \<or> n \<le> 5 \<and> F = []"
    by (rule link_headerE)
  have "base_deserialize buf sz = Some None"
    using n assms(2,3) w base_deserialize_cut [of buf sz q n F] base_deserialize_short [of sz buf]
    by auto
  then show ?thesis by (simp add: pkt_deserialize_def)
qed

interpretation link: packet_codec pkt_serialize "pkt_deserialize ur uh" link_good link_wire
  "link_decoded ur uh" for ur uh
proof unfold_locales
  show "pkt_deserialize ur uh buf sz = Null_pkt" if "sz < 5" for buf sz
    using that by (simp add: pkt_deserialize_def base_deserialize_short)
next
  fix p :: packet assume g: "link_good p"
  show "\<exists>out p'. pkt_serialize p = Serialized out (length (link_wire p)) p' \<and>
      take (length (link_wire p)) out = link_wire p"
    using g recent.serialize_good [of p] http.serialize_good [of p] base.serialize_good [of p]
    by (auto simp: link_good_def link_wire_def pkt_serialize_def parser_serialize_def split: parser_id.splits)
  show "5 \<le> length (link_wire p)"
    using g recent.wire_min [of p] http.wire_min [of p] base.wire_min [of p]
    by (auto simp: link_good_def link_wire_def split: parser_id.splits)
  show "pkt_deserialize ur uh buf sz = Parsed (link_decoded ur uh p) (length (link_wire p))"
    if "holds buf 0 (link_wire p)" "length (link_wire p) \<le> sz" for buf sz
    using g that recent_deserialize_wire [of p buf sz] http_deserialize_wire [of p buf sz]
      base.deserialize_whole [of p buf sz]
    by (simp add: link_dispatch [OF g that])
      (auto simp: link_good_def link_wire_def link_decoded_def parser_deserialize_def split: parser_id.splits)
qed (rule link_deserialize_cut; assumption)

text \<open>What a good packet needs of the array the caller offers: the bytes of its wire form and, after a table
  name, the terminator.\<close>

lemma pkt_serialize_room:
  assumes "link_good p" and "pkt_serialize p = Serialized out n p'"
  shows "length out \<le> 65536"
proof -
  have "length out \<le> Suc n"
    using assms(2)
    by (auto simp: pkt_serialize_def parser_serialize_def recent_serialize_def http_serialize_def
        base_parser_serialize_def table_serialize_def Let_def
        split: parser_id.splits packet.splits sum.splits if_splits)
  moreover have "n = length (link_wire p)" using link.serialize_good [OF assms(1)] assms(2) by auto
  moreover have "length (link_wire p) \<le> 65535" using assms(1) by (rule link_headerE) (auto simp: size_header_def)
  ultimately show ?thesis by simp
qed

end
