(* ===== verification/Connection.thy ===== *)
theory Connection
  imports Pkt_Parser Safe_Queue
begin

text \<open>
  \<open>connection/connection.cpp\<close>: the TCP link between the nodes. The socket thread \<open>receive_task\<close>
  collects bytes per peer, cuts them into packets with the virtual \<open>deserialize\<close> and queues the
  packets for the worker; \<open>send_packet\<close> is called by the worker.

  The kernel's answers (\<open>accept\<close>, \<open>recv\<close>, \<open>send\<close>, \<open>connect\<close>, \<open>close\<close>) are inputs: an event carries the
  results of the calls made while it is handled.
\<close>

section \<open>State\<close>

definition MAX_PACKET_SIZE :: nat where
  "MAX_PACKET_SIZE = 65555 * 100"

definition ERROR_NOT_DEFINED :: int where
  "ERROR_NOT_DEFINED = - 2"

text \<open>The array is \<open>ev_buffer\<close>; its length stands for the capacity constant of the class.\<close>

record connection_event_data =
  ev_fd :: int
  ev_buffer :: "byte list"
  ev_size :: nat

text \<open>
  \<open>connected_nodes\<close> holds the peers of a server. A client's only peer is the event data that
  \<open>receive_task\<close> registers for its own socket, \<open>server_link\<close>.
\<close>

record connection =
  is_server :: bool
  conn_running :: bool
  listen_fd :: int
  connected_nodes :: "(int, connection_event_data) omap"
  server_link :: "connection_event_data option"
  input_packet_queue :: "packet safe_queue"

definition new_event_data :: "byte list \<Rightarrow> int \<Rightarrow> connection_event_data" where
  "new_event_data mem d = \<lparr>ev_fd = d, ev_buffer = mem, ev_size = 0\<rparr>"

text \<open>\<open>set_socket_options\<close>: only the two \<open>fcntl\<close> calls are checked.\<close>

definition set_socket_options :: "bool \<Rightarrow> bool \<Rightarrow> int" where
  "set_socket_options getfl_ok setfl_ok =
     (if \<not> getfl_ok then - 1 else if \<not> setfl_ok then - 1 else 0)"

text \<open>The two constructors; for a client the socket is created by \<open>start\<close>.\<close>

definition new_server :: "int option \<Rightarrow> bool \<Rightarrow> bool \<Rightarrow> connection run" where
  "new_server sock options_ok bind_ok =
     (case sock of
        None \<Rightarrow> Exits ERROR_NOT_DEFINED
      | Some d \<Rightarrow>
          if set_socket_options options_ok True < 0 then Exits ERROR_NOT_DEFINED
          else if \<not> bind_ok then Exits ERROR_NOT_DEFINED
          else Done \<lparr>is_server = True, conn_running = False, listen_fd = d, connected_nodes = [],
                     server_link = None, input_packet_queue = []\<rparr>)"

definition new_client :: "int \<Rightarrow> connection" where
  "new_client d = \<lparr>is_server = False, conn_running = False, listen_fd = d, connected_nodes = [],
                   server_link = None, input_packet_queue = []\<rparr>"

datatype connect_result = Connected | In_progress | Connect_failed

text \<open>
  \<open>start\<close>: a client opens a socket and connects; a failure leaves it stopped, so that the worker
  retries. The receive thread registers the client's event data.
\<close>

definition conn_start :: "byte list \<Rightarrow> int \<Rightarrow> connect_result \<Rightarrow> bool \<Rightarrow> connection \<Rightarrow> connection run" where
  "conn_start mem sock res options_ok c =
     (if is_server c then Done (c\<lparr>conn_running := True\<rparr>)
      else
        (let c = c\<lparr>listen_fd := sock\<rparr>;
             started = c\<lparr>conn_running := True, server_link := Some (new_event_data mem sock)\<rparr>
         in case res of
              Connect_failed \<Rightarrow> Done (c\<lparr>conn_running := False\<rparr>)
            | In_progress \<Rightarrow> Done started
            | Connected \<Rightarrow>
                if set_socket_options options_ok True < 0 then Exits ERROR_NOT_DEFINED
                else Done started))"

definition conn_stop :: "connection \<Rightarrow> connection" where
  "conn_stop c = c\<lparr>conn_running := False\<rparr>"

text \<open>\<open>get_packet(false)\<close>, and \<open>get_packet(true)\<close>, which blocks on an empty queue (\<open>None\<close>).\<close>

definition get_packet_nowait :: "connection \<Rightarrow> packet option \<times> connection" where
  "get_packet_nowait c =
     (let (p, q) = try_dequeue (input_packet_queue c) in (p, c\<lparr>input_packet_queue := q\<rparr>))"

definition get_packet_wait :: "connection \<Rightarrow> (packet \<times> connection) option" where
  "get_packet_wait c =
     map_option (\<lambda>(p, q). (p, c\<lparr>input_packet_queue := q\<rparr>)) (dequeue (input_packet_queue c))"

section \<open>Receiving\<close>

text \<open>One result of \<open>recv\<close>; \<open>Closed\<close> is the return value 0.\<close>

datatype recv_result = Data "byte list" | Would_block | Recv_error | Closed

definition store_at :: "byte list \<Rightarrow> nat \<Rightarrow> byte list \<Rightarrow> byte list" where
  "store_at buf p bs = take p buf @ bs @ drop (p + length bs) buf"

text \<open>\<open>clear header\<close>: five zero bytes after the pending ones, where there is room.\<close>

definition clear_header :: "connection_event_data \<Rightarrow> connection_event_data" where
  "clear_header c =
     (if 4 < length (ev_buffer c) - ev_size c
      then c\<lparr>ev_buffer := store_at (ev_buffer c) (ev_size c) (replicate 5 0)\<rparr> else c)"

fun recv_loop :: "connection_event_data \<Rightarrow> recv_result list \<Rightarrow>
    (connection_event_data \<times> recv_result) option" where
  "recv_loop c [] = None"
| "recv_loop c (Data bs # rs) =
     (let c' = c\<lparr>ev_buffer := store_at (ev_buffer c) (ev_size c) bs, ev_size := ev_size c + length bs\<rparr>
      in if length (ev_buffer c) \<le> length bs then Some (c', Data bs) else recv_loop c' rs)"
| "recv_loop c (r # rs) = Some (c, r)"

text \<open>
  What \<open>recv\<close> can return when asked for \<open>room\<close> bytes: between one and \<open>room\<close> bytes; when \<open>room\<close> is 0,
  only 0.
\<close>

fun recv_ok :: "nat \<Rightarrow> recv_result list \<Rightarrow> bool" where
  "recv_ok room [] = True"
| "recv_ok room (Data bs # rs) = (0 < length bs \<and> length bs \<le> room \<and> recv_ok (room - length bs) rs)"
| "recv_ok room (r # rs) = (0 < room \<or> r = Closed)"

fun received_bytes :: "recv_result list \<Rightarrow> byte list" where
  "received_bytes (Data bs # rs) = bs @ received_bytes rs"
| "received_bytes _ = []"

text \<open>\<open>memmove\<close> of what follows the used bytes to the front.\<close>

definition consume :: "nat \<Rightarrow> connection_event_data \<Rightarrow> connection_event_data" where
  "consume used c =
     (let n = ev_size c - used
      in c\<lparr>ev_buffer := take n (drop used (ev_buffer c)) @ drop n (ev_buffer c), ev_size := n\<rparr>)"

text \<open>
  The loop that cuts packets off the buffer. The bytes of a packet are removed only when at least as
  many bytes are free at the end of the array. A packet that used more than the received bytes makes
  the unsigned size wrap and \<open>memmove\<close> run outside the array. \<open>None\<close>: the loop does not end.
\<close>

datatype drained = Drained connection_event_data "packet safe_queue" | Drain_fault

partial_function (option) drain ::
    "(byte list \<Rightarrow> nat \<Rightarrow> parsed) \<Rightarrow> connection_event_data \<Rightarrow> packet safe_queue \<Rightarrow> drained option" where
  "drain deser c q =
     (case deser (ev_buffer c) (ev_size c) of
        Read_fault \<Rightarrow> Some Drain_fault
      | Null_pkt \<Rightarrow> Some (Drained c q)
      | Parsed p used \<Rightarrow>
          let q = enqueue q (set_pkt_fd (ev_fd c) p) in
          if used \<le> length (ev_buffer c) - ev_size c then
            (if ev_size c < used then Some Drain_fault
             else if ev_size (consume used c) < 5 then Some (Drained (consume used c) q)
             else drain deser (consume used c) q)
          else if ev_size c < 5 then Some (Drained c q)
          else drain deser c q)"

section \<open>The events of \<open>receive_task\<close>\<close>

text \<open>
  An event of \<open>epoll_wait\<close> with the results of the calls its handler makes: \<open>accept\<close> on the listening
  socket (with the memory of the new event data), readable data with the \<open>recv\<close> results and whether
  \<open>close\<close> succeeds, a hang-up without data, or an error, which is only logged.
\<close>

datatype conn_event =
  Incoming "int option" "byte list"
| Readable int "recv_result list" bool
| Hangup int bool
| Epoll_error int

definition event_data :: "connection \<Rightarrow> int \<Rightarrow> connection_event_data option" where
  "event_data cnt d = (if is_server cnt then mget (connected_nodes cnt) d else server_link cnt)"

definition put_event_data :: "int \<Rightarrow> connection_event_data \<Rightarrow> connection \<Rightarrow> connection" where
  "put_event_data d cd cnt =
     (if is_server cnt then cnt\<lparr>connected_nodes := mput d cd (connected_nodes cnt)\<rparr>
      else cnt\<lparr>server_link := Some cd\<rparr>)"

text \<open>
  A peer that is gone: the worker is told with a \<open>DISCONNECT\<close> packet; a client stops (and leaves the
  event loop: the second component), a server forgets the peer.
\<close>

definition peer_gone :: "connection \<Rightarrow> int \<Rightarrow> connection \<times> bool" where
  "peer_gone cnt d =
     (let packet = Base_pkt ((new_typed_packet DISCONNECT)\<lparr>pkt_fd := d\<rparr>);
          cnt = cnt\<lparr>input_packet_queue := enqueue (input_packet_queue cnt) packet\<rparr>
      in if \<not> is_server cnt then (cnt\<lparr>conn_running := False\<rparr>, True)
         else (cnt\<lparr>connected_nodes := merase d (connected_nodes cnt)\<rparr>, False))"

definition handle_readable ::
    "(byte list \<Rightarrow> nat \<Rightarrow> parsed) \<Rightarrow> connection \<Rightarrow> int \<Rightarrow> recv_result list \<Rightarrow> (connection \<times> bool) run" where
  "handle_readable deser cnt d rs =
     (case event_data cnt d of
        None \<Rightarrow> Fault
      | Some c_data \<Rightarrow>
          (case recv_loop (clear_header c_data) rs of
             None \<Rightarrow> Diverges
           | Some (c_data, Recv_error) \<Rightarrow> Done (put_event_data d c_data cnt, False)
           | Some (c_data, Closed) \<Rightarrow> Done (peer_gone cnt (ev_fd c_data))
           | Some (c_data, _) \<Rightarrow>
               (case drain deser c_data (input_packet_queue cnt) of
                  None \<Rightarrow> Diverges
                | Some Drain_fault \<Rightarrow> Fault
                | Some (Drained c_data q) \<Rightarrow>
                    Done ((put_event_data d c_data cnt)\<lparr>input_packet_queue := q\<rparr>, False))))"

definition handle_event ::
    "(byte list \<Rightarrow> nat \<Rightarrow> parsed) \<Rightarrow> connection \<Rightarrow> conn_event \<Rightarrow> (connection \<times> bool) run" where
  "handle_event deser cnt e =
     (case e of
        Incoming None _ \<Rightarrow> Done (cnt, True)
      | Incoming (Some connFD) mem \<Rightarrow>
          (let packet = Base_pkt ((new_typed_packet CONNECT)\<lparr>pkt_fd := connFD\<rparr>)
           in Done (cnt\<lparr>connected_nodes := mput connFD (new_event_data mem connFD) (connected_nodes cnt),
                        input_packet_queue := enqueue (input_packet_queue cnt) packet\<rparr>, False))
      | Readable d rs close_ok \<Rightarrow> handle_readable deser cnt d rs
      | Hangup d close_ok \<Rightarrow> Done (peer_gone cnt d)
      | Epoll_error d \<Rightarrow> Done (cnt, False))"

text \<open>One round of the loop over the events of \<open>epoll_wait\<close>; the flag ends it (\<open>break\<close>).\<close>

fun handle_events :: "(byte list \<Rightarrow> nat \<Rightarrow> parsed) \<Rightarrow> connection \<Rightarrow> conn_event list \<Rightarrow> connection run" where
  "handle_events deser cnt [] = Done cnt"
| "handle_events deser cnt (e # es) =
     run_bind (handle_event deser cnt e)
       (\<lambda>(cnt, stop). if stop then Done cnt else handle_events deser cnt es)"

text \<open>\<open>receive_task\<close> over the rounds of \<open>epoll_wait\<close>, while the connection is running.\<close>

fun receive_task :: "(byte list \<Rightarrow> nat \<Rightarrow> parsed) \<Rightarrow> connection \<Rightarrow> conn_event list list \<Rightarrow> connection run" where
  "receive_task deser cnt [] = Done cnt"
| "receive_task deser cnt (es # rounds) =
     (if conn_running cnt
      then run_bind (handle_events deser cnt es) (\<lambda>cnt. receive_task deser cnt rounds)
      else Done (cnt\<lparr>conn_running := False\<rparr>))"

section \<open>Sending\<close>

datatype send_result = Sent nat | Send_again | Send_error

text \<open>
  \<open>handle_send\<close>: the results of the successive \<open>send\<close> calls; the bytes the kernel took and the
  returned flag. \<open>None\<close>: still in the loop after these calls.
\<close>

fun handle_send :: "byte list \<Rightarrow> send_result list \<Rightarrow> byte list \<times> bool option" where
  "handle_send data [] = ([], None)"
| "handle_send data (Send_again # rs) = handle_send data rs"
| "handle_send data (Send_error # rs) = ([], Some False)"
| "handle_send data (Sent n # rs) =
     (if n = length data then (data, Some True)
      else (let (bs, r) = handle_send (drop n data) rs in (take n data @ bs, r)))"

text \<open>The loop over the peers of a broadcast, which stops at the first failure.\<close>

fun send_all :: "int list \<Rightarrow> byte list \<Rightarrow> (int \<Rightarrow> send_result list) \<Rightarrow>
    (int \<times> byte list) list \<times> bool option" where
  "send_all [] data net = ([], Some True)"
| "send_all (d # ds) data net =
     (case handle_send data (net d) of
        (bs, Some True) \<Rightarrow> (let (out, r) = send_all ds data net in ((d, bs) # out, r))
      | (bs, r) \<Rightarrow> ([(d, bs)], r))"

text \<open>
  The result of \<open>send_packet\<close>: what each peer got, the returned flag, and the packet, whose \<open>fd\<close> and
  length the call writes. A packet that cannot be serialised is logged and reported as sent; one that
  does not fit the array on the heap is written past its end.
\<close>

definition send_packet ::
    "(packet \<Rightarrow> serialized) \<Rightarrow> connection \<Rightarrow> packet \<Rightarrow> (int \<Rightarrow> send_result list) \<Rightarrow>
     ((int \<times> byte list) list \<times> bool \<times> packet) run" where
  "send_packet ser cnt pkt net =
     (if is_server cnt \<and> connected_nodes cnt = [] then Done ([], False, pkt)
      else if \<not> conn_running cnt then Done ([], False, pkt)
      else
        (let pkt = (if is_server cnt then pkt else set_pkt_fd (listen_fd cnt) pkt)
         in case ser pkt of
              Not_serialized \<Rightarrow> Done ([], True, pkt)
            | Threw e \<Rightarrow> Throws e
            | Undefined \<Rightarrow> Fault
            | Serialized to_send to_send_size pkt' \<Rightarrow>
                if MAX_PACKET_SIZE < length to_send then Fault
                else (let data = take to_send_size to_send;
                     fds = (if is_server cnt \<and> pkt_fd (base_of pkt') = - 1
                            then map fst (connected_nodes cnt) else [pkt_fd (base_of pkt')])
                 in case send_all fds data net of
                      (_, None) \<Rightarrow> Diverges
                    | (out, Some ok) \<Rightarrow> Done (out, ok, pkt'))))"

section \<open>The bytes in the buffer\<close>

definition ev_ok :: "connection_event_data \<Rightarrow> bool" where
  "ev_ok c \<longleftrightarrow> ev_size c \<le> length (ev_buffer c)"

definition pending :: "connection_event_data \<Rightarrow> byte list" where
  "pending c = take (ev_size c) (ev_buffer c)"

lemma length_pending [simp]: "ev_ok c \<Longrightarrow> length (pending c) = ev_size c"
  by (simp add: pending_def ev_ok_def)

lemma holds_pending: "pending c = bs @ r \<Longrightarrow> holds (ev_buffer c) 0 bs"
  by (metis append_assoc append_take_drop_id holds_at_0 pending_def)

lemma length_store_at [simp]: "p + length bs \<le> length buf \<Longrightarrow> length (store_at buf p bs) = length buf"
  by (simp add: store_at_def)

lemma clear_header_frame [simp]:
  assumes "ev_ok c"
  shows "pending (clear_header c) = pending c" and "ev_ok (clear_header c)"
    and "ev_fd (clear_header c) = ev_fd c" and "ev_size (clear_header c) = ev_size c"
    and "length (ev_buffer (clear_header c)) = length (ev_buffer c)"
  using assms by (auto simp: clear_header_def pending_def ev_ok_def store_at_def)

lemma consume_frame [simp]:
  assumes "ev_ok c" and "used \<le> ev_size c"
  shows "pending (consume used c) = drop used (pending c)" and "ev_ok (consume used c)"
    and "ev_fd (consume used c) = ev_fd c" and "ev_size (consume used c) = ev_size c - used"
    and "length (ev_buffer (consume used c)) = length (ev_buffer c)"
  using assms by (auto simp: consume_def pending_def ev_ok_def Let_def drop_take)

text \<open>The received bytes are appended to the pending ones.\<close>

lemma recv_loop_spec:
  assumes "ev_ok c" and "recv_ok (length (ev_buffer c) - ev_size c) rs" and "recv_loop c rs = Some (c', r)"
  shows "ev_ok c' \<and> ev_fd c' = ev_fd c \<and> length (ev_buffer c') = length (ev_buffer c) \<and>
    (length (received_bytes rs) < length (ev_buffer c) \<longrightarrow> pending c' = pending c @ received_bytes rs)"
  using assms
proof (induction c rs rule: recv_loop.induct)
  case (2 c bs rs)
  let ?c = "c\<lparr>ev_buffer := store_at (ev_buffer c) (ev_size c) bs, ev_size := ev_size c + length bs\<rparr>"
  have len: "ev_size c + length bs \<le> length (ev_buffer c)"
    using 2(2,3) by (auto simp: ev_ok_def)
  then have ok: "ev_ok ?c" by (simp add: ev_ok_def)
  have pend: "pending ?c = pending c @ bs"
    using len by (simp add: pending_def store_at_def)
  show ?case
  proof (cases "length (ev_buffer c) \<le> length bs")
    case True
    with 2(4) len ok show ?thesis by auto
  next
    case False
    then have "recv_loop ?c rs = Some (c', r)" using 2(4) by (simp add: Let_def)
    from 2(1) [OF refl False ok _ this] 2(3) len pend show ?thesis by (auto simp: ev_ok_def)
  qed
qed auto

section \<open>Cutting packets off the buffer\<close>

lemma drain_Null: "deser (ev_buffer c) (ev_size c) = Null_pkt \<Longrightarrow> drain deser c q = Some (Drained c q)"
  by (simp add: drain.simps)

lemma drain_Parsed:
  assumes "deser (ev_buffer c) (ev_size c) = Parsed p used"
    and "used \<le> ev_size c" and "used \<le> length (ev_buffer c) - ev_size c"
  shows "drain deser c q =
    (let q = enqueue q (set_pkt_fd (ev_fd c) p)
     in if ev_size (consume used c) < 5 then Some (Drained (consume used c) q)
        else drain deser (consume used c) q)"
  using assms by (subst drain.simps) (simp add: Let_def)

text \<open>
  A packet that is whole but has more bytes than are free at the end of the array is queued again
  and again: the loop does not end.
\<close>

lemma drain_stuck:
  assumes "deser (ev_buffer c) (ev_size c) = Parsed p used"
    and "length (ev_buffer c) - ev_size c < used" and "5 \<le> ev_size c"
  shows "drain deser c q = None"
proof (rule ccontr)
  assume "drain deser c q \<noteq> None"
  then obtain r where "drain deser c q = Some r" by auto
  then have ret: "drain deser c q = Some r" .
  have "deser = deser \<longrightarrow> c = c \<longrightarrow> False"
  proof (rule drain.raw_induct [where P = "\<lambda>d c' q r. d = deser \<longrightarrow> c' = c \<longrightarrow> False", OF _ ret])
    fix f d c' q r
    assume IH: "\<And>d c' q r. f d c' q = Some r \<Longrightarrow> d = deser \<longrightarrow> c' = c \<longrightarrow> False"
      and eq: "(case d (ev_buffer c') (ev_size c') of
        Null_pkt \<Rightarrow> Some (Drained c' q)
      | Parsed p used \<Rightarrow>
          let q = enqueue q (set_pkt_fd (ev_fd c') p) in
          if used \<le> length (ev_buffer c') - ev_size c' then
            (if ev_size c' < used then Some Drain_fault
             else if ev_size (consume used c') < 5 then Some (Drained (consume used c') q)
             else f d (consume used c') q)
          else if ev_size c' < 5 then Some (Drained c' q)
          else f d c' q
      | Read_fault \<Rightarrow> Some Drain_fault) = Some r"
    show "d = deser \<longrightarrow> c' = c \<longrightarrow> False"
    proof (intro impI)
      assume "d = deser" "c' = c"
      with eq assms have "f d c' (enqueue q (set_pkt_fd (ev_fd c') p)) = Some r"
        by (simp add: Let_def)
      from IH [OF this] \<open>d = deser\<close> \<open>c' = c\<close> show False by simp
    qed
  qed
  then show False by simp
qed

context packet_codec
begin

text \<open>
  What may be left behind the last whole packet: nothing, or a proper prefix of the next one.
\<close>

lemma drain_rest:
  assumes "ev_ok c" and "pending c = tail" and "tail = [] \<or> (good t \<and> k < length (wire t) \<and> tail = take k (wire t))"
  shows "drain deserialize c q = Some (Drained c q)"
proof (rule drain_Null)
  have "ev_size c = length tail" using assms(1,2) by auto
  moreover have "holds (ev_buffer c) 0 tail"
    using assms(2) holds_pending [of c tail "[]"] by simp
  ultimately show "deserialize (ev_buffer c) (ev_size c) = Null_pkt"
    using assms(3) deserialize_cut [of t "length tail" "ev_buffer c"] by (auto simp: deserialize_short)
qed

lemma drain_frames:
  assumes "\<forall>p \<in> set ps. good p \<and> length (wire p) + ev_size c \<le> length (ev_buffer c)"
    and "ev_ok c" and "pending c = concat (map wire ps) @ tail"
    and "tail = [] \<or> (good t \<and> k < length (wire t) \<and> tail = take k (wire t))"
  shows "\<exists>c'. drain deserialize c q =
      Some (Drained c' (q @ map (\<lambda>p. set_pkt_fd (ev_fd c) (decoded p)) ps)) \<and>
    ev_ok c' \<and> pending c' = tail \<and> ev_fd c' = ev_fd c \<and> length (ev_buffer c') = length (ev_buffer c)"
  using assms(1-3)
proof (induction ps arbitrary: c q)
  case Nil
  then show ?case using drain_rest [OF Nil(2) _ assms(4)] by simp
next
  case (Cons p ps)
  let ?q = "enqueue q (set_pkt_fd (ev_fd c) (decoded p))"
  let ?c = "consume (length (wire p)) c"
  have p: "good p" "length (wire p) \<le> ev_size c" "length (wire p) \<le> length (ev_buffer c) - ev_size c"
    using Cons.prems length_pending [OF Cons.prems(2)] by auto
  have "holds (ev_buffer c) 0 (wire p)"
    using Cons.prems(3) by (intro holds_pending [where r = "concat (map wire ps) @ tail"]) simp
  then have d: "deserialize (ev_buffer c) (ev_size c) = Parsed (decoded p) (length (wire p))"
    using p by (intro deserialize_whole)
  have c: "ev_ok ?c" "pending ?c = concat (map wire ps) @ tail"
    "\<forall>p \<in> set ps. good p \<and> length (wire p) + ev_size ?c \<le> length (ev_buffer ?c)"
    using Cons.prems p by auto
  have "drain deserialize c q =
      (if ev_size ?c < 5 then Some (Drained ?c ?q) else drain deserialize ?c ?q)"
    using drain_Parsed [of deserialize c "decoded p" "length (wire p)" q, OF d p(2,3)] by (simp add: Let_def)
  moreover have "drain deserialize ?c ?q = Some (Drained ?c ?q)" if "ev_size ?c < 5"
    using that by (intro drain_Null deserialize_short)
  ultimately have "drain deserialize c q = drain deserialize ?c ?q" by auto
  with Cons.IH [OF c(3,1,2), of ?q] Cons.prems(2) p(2) show ?case
    by (simp add: enqueue_def)
qed

text \<open>Where a prefix of a stream of packets ends.\<close>

lemma split_stream:
  assumes "xs @ ys = concat (map wire ps)"
  obtains ps1 ps2 tail where "ps = ps1 @ ps2" "xs = concat (map wire ps1) @ tail"
    "tail @ ys = concat (map wire ps2)"
    "tail = [] \<or> (\<exists>t k. t \<in> set ps2 \<and> k < length (wire t) \<and> tail = take k (wire t))"
  using assms
proof (induction ps arbitrary: xs thesis)
  case Nil
  then show ?case by (metis append_Nil append_is_Nil_conv concat.simps(1) list.simps(8))
next
  case (Cons p ps)
  show ?case
  proof (cases "length (wire p) \<le> length xs")
    case True
    with Cons.prems(2) have "xs = wire p @ drop (length (wire p)) xs"
      by (metis append_eq_append_conv_if append_take_drop_id concat.simps(2) list.simps(9))
    then obtain xs' where xs: "xs = wire p @ xs'" ..
    with Cons.prems(2) have "xs' @ ys = concat (map wire ps)" by simp
    then obtain ps1 ps2 tail where "ps = ps1 @ ps2" "xs' = concat (map wire ps1) @ tail"
      "tail @ ys = concat (map wire ps2)"
      "tail = [] \<or> (\<exists>t k. t \<in> set ps2 \<and> k < length (wire t) \<and> tail = take k (wire t))"
      using Cons.IH by blast
    with xs show ?thesis by (intro Cons.prems(1) [of "p # ps1"]) auto
  next
    case False
    with Cons.prems(2) have "xs = take (length xs) (wire p)"
      by (metis append_eq_append_conv_if concat.simps(2) list.simps(9) nle_le)
    then have "\<exists>t k. t \<in> set (p # ps) \<and> k < length (wire t) \<and> xs = take k (wire t)"
      using False by (intro exI [of _ p] exI [of _ "length xs"]) auto
    then show ?thesis
      using Cons.prems(2) by (intro Cons.prems(1) [of "[]" "p # ps" xs]) auto
  qed
qed

end

section \<open>A stream in arbitrary segments\<close>

text \<open>
  What one readable event delivers when the peer's bytes arrive in the pieces \<open>chunks\<close>: each \<open>recv\<close>
  returns one piece, then the socket would block.
\<close>

definition readable :: "int \<Rightarrow> byte list list \<Rightarrow> conn_event" where
  "readable d chunks = Readable d (map Data chunks @ [Would_block]) True"

lemma recv_loop_chunks:
  assumes "ev_ok c" and "[] \<notin> set chunks" and "ev_size c + length (concat chunks) < length (ev_buffer c)"
  shows "\<exists>c'. recv_loop c (map Data chunks @ [Would_block]) = Some (c', Would_block) \<and> ev_ok c' \<and>
    ev_fd c' = ev_fd c \<and> length (ev_buffer c') = length (ev_buffer c) \<and>
    pending c' = pending c @ concat chunks"
  using assms
proof (induction chunks arbitrary: c)
  case Nil
  then show ?case by simp
next
  case (Cons b chunks)
  let ?c = "c\<lparr>ev_buffer := store_at (ev_buffer c) (ev_size c) b, ev_size := ev_size c + length b\<rparr>"
  have "ev_ok ?c" "pending ?c = pending c @ b" "length (ev_buffer ?c) = length (ev_buffer c)"
    using Cons.prems by (auto simp: ev_ok_def pending_def store_at_def)
  moreover have "\<not> length (ev_buffer c) \<le> length b"
    using Cons.prems(3) by simp
  ultimately show ?case
    using Cons.IH [of ?c] Cons.prems by (auto simp: Let_def)
qed

lemma event_data_put [simp]: "event_data (put_event_data d c cnt) d = Some c"
  by (simp add: event_data_def put_event_data_def store_simps)

lemma event_data_queue [simp]: "event_data (cnt\<lparr>input_packet_queue := q\<rparr>) d = event_data cnt d"
  by (simp add: event_data_def)

lemma put_event_data_queue [simp]: "input_packet_queue (put_event_data d c cnt) = input_packet_queue cnt"
  by (simp add: put_event_data_def)

context packet_codec
begin

lemma handle_readable_frames:
  assumes "event_data cnt d = Some c" and "ev_fd c = d" and "ev_ok c" and "[] \<notin> set chunks"
    and room: "ev_size c + length (concat chunks) < length (ev_buffer c)"
    and "\<forall>p \<in> set ps. good p \<and>
        length (wire p) + ev_size c + length (concat chunks) \<le> length (ev_buffer c)"
    and "pending c @ concat chunks = concat (map wire ps) @ tail"
    and "tail = [] \<or> (good t \<and> k < length (wire t) \<and> tail = take k (wire t))"
  shows "\<exists>cnt' c'. handle_event deserialize cnt (readable d chunks) = Done (cnt', False) \<and>
    event_data cnt' d = Some c' \<and> ev_fd c' = d \<and> ev_ok c' \<and> pending c' = tail \<and>
    length (ev_buffer c') = length (ev_buffer c) \<and>
    input_packet_queue cnt' = input_packet_queue cnt @ map (\<lambda>p. set_pkt_fd d (decoded p)) ps"
proof -
  obtain c1 where c1: "recv_loop (clear_header c) (map Data chunks @ [Would_block]) = Some (c1, Would_block)"
    "ev_ok c1" "ev_fd c1 = d" "length (ev_buffer c1) = length (ev_buffer c)"
    "pending c1 = pending c @ concat chunks"
    using recv_loop_chunks [of "clear_header c" chunks] assms(2-5) by auto
  have size: "ev_size c1 = ev_size c + length (concat chunks)"
    using length_pending [OF c1(2)] length_pending [OF assms(3)] c1(5) by simp
  have pre: "\<forall>p \<in> set ps. good p \<and> length (wire p) + ev_size c1 \<le> length (ev_buffer c1)"
    using assms(6) by (simp add: size c1(4) add.assoc)
  have pend: "pending c1 = concat (map wire ps) @ tail"
    by (simp add: c1(5) assms(7))
  obtain c2 where "drain deserialize c1 (input_packet_queue cnt) =
      Some (Drained c2 (input_packet_queue cnt @ map (\<lambda>p. set_pkt_fd (ev_fd c1) (decoded p)) ps))"
    "ev_ok c2" "pending c2 = tail" "ev_fd c2 = d" "length (ev_buffer c2) = length (ev_buffer c)"
    using drain_frames [OF pre c1(2) pend assms(8), of "input_packet_queue cnt"] c1(3,4) by auto
  then show ?thesis
    using assms(1) c1(1,3)
    by (simp add: readable_def handle_event_def handle_readable_def)
qed

text \<open>
  The packets of a stream reach the input queue once each and in order, however TCP cuts it.
\<close>

lemma receive_stream:
  assumes "event_data cnt d = Some c" and "ev_fd c = d" and "ev_ok c"
    and "\<forall>p \<in> set ps. good p \<and> length (wire p) \<le> M"
    and "\<forall>chunks \<in> set rounds. [] \<notin> set chunks \<and> length (concat chunks) + 2 * M < length (ev_buffer c)"
    and "pending c @ concat (map concat rounds) = concat (map wire ps)"
    and "pending c = [] \<or> (\<exists>t k. t \<in> set ps \<and> k < length (wire t) \<and> pending c = take k (wire t))"
  shows "\<exists>cnt' c'. handle_events deserialize cnt (map (readable d) rounds) = Done cnt' \<and>
    event_data cnt' d = Some c' \<and> ev_fd c' = d \<and> ev_ok c' \<and> pending c' = [] \<and>
    input_packet_queue cnt' = input_packet_queue cnt @ map (\<lambda>p. set_pkt_fd d (decoded p)) ps"
  using assms
proof (induction rounds arbitrary: cnt c ps)
  case Nil
  have "ps = []"
  proof (rule ccontr)
    assume ps: "ps \<noteq> []"
    then have "concat (map wire ps) \<noteq> []"
      using Nil.prems(4) wire_nonempty by (cases ps) auto
    then obtain t k where t: "t \<in> set ps" "k < length (wire t)" "concat (map wire ps) = take k (wire t)"
      using Nil.prems(6,7) by auto
    from split_list [OF t(1)] obtain as bs where "ps = as @ t # bs" by blast
    then have "length (wire t) \<le> length (concat (map wire ps))" by simp
    with t(2) show False by (simp add: t(3))
  qed
  with Nil show ?case by auto
next
  case (Cons chunks rounds)
  have eq: "(pending c @ concat chunks) @ concat (map concat rounds) = concat (map wire ps)"
    using Cons.prems(6) by simp
  obtain ps1 ps2 tail where split: "ps = ps1 @ ps2" "pending c @ concat chunks = concat (map wire ps1) @ tail"
    "tail @ concat (map concat rounds) = concat (map wire ps2)"
    and tail: "tail = [] \<or> (\<exists>t k. t \<in> set ps2 \<and> k < length (wire t) \<and> tail = take k (wire t))"
    using split_stream [OF eq] by metis
  have size: "ev_size c \<le> M"
  proof (cases "pending c = []")
    case False
    then obtain t k where t: "t \<in> set ps" "k < length (wire t)" "pending c = take k (wire t)"
      using Cons.prems(7) by blast
    then have "ev_size c \<le> k" using length_pending [OF Cons.prems(3)] by simp
    moreover have "length (wire t) \<le> M" using Cons.prems(4) t(1) by blast
    ultimately show ?thesis using t(2) by simp
  qed (use length_pending [OF Cons.prems(3)] in simp)
  have tail': "\<exists>t k. tail = [] \<or> (good t \<and> k < length (wire t) \<and> tail = take k (wire t))"
    using tail Cons.prems(4) split(1) by auto
  then obtain t k where cut: "tail = [] \<or> (good t \<and> k < length (wire t) \<and> tail = take k (wire t))"
    by blast
  have room: "ev_size c + length (concat chunks) < length (ev_buffer c)" "[] \<notin> set chunks"
    using Cons.prems(5) size by auto
  have fits: "\<forall>p \<in> set ps1. good p \<and>
      length (wire p) + ev_size c + length (concat chunks) \<le> length (ev_buffer c)"
  proof
    fix p assume "p \<in> set ps1"
    then have "good p" "length (wire p) \<le> M" using Cons.prems(4) split(1) by auto
    moreover have "length (concat chunks) + 2 * M < length (ev_buffer c)" using Cons.prems(5) by simp
    ultimately show "good p \<and>
      length (wire p) + ev_size c + length (concat chunks) \<le> length (ev_buffer c)"
      using size by simp
  qed
  from cut obtain cnt1 c1 where c1: "handle_event deserialize cnt (readable d chunks) = Done (cnt1, False)"
    "event_data cnt1 d = Some c1" "ev_fd c1 = d" "ev_ok c1" "pending c1 = tail"
    "length (ev_buffer c1) = length (ev_buffer c)"
    "input_packet_queue cnt1 = input_packet_queue cnt @ map (\<lambda>p. set_pkt_fd d (decoded p)) ps1"
    using handle_readable_frames [OF Cons.prems(1-3) room(2,1) fits split(2)] by blast
  from Cons.IH [OF c1(2-4), of ps2] Cons.prems(4,5) split c1(5,6) tail obtain cnt2 c2 where
    "handle_events deserialize cnt1 (map (readable d) rounds) = Done cnt2"
    "event_data cnt2 d = Some c2" "ev_fd c2 = d" "ev_ok c2" "pending c2 = []"
    "input_packet_queue cnt2 = input_packet_queue cnt1 @ map (\<lambda>p. set_pkt_fd d (decoded p)) ps2"
    by auto
  with c1 split(1) show ?case by simp
qed

end

section \<open>Sending\<close>

text \<open>\<open>send\<close> takes between one and all of the bytes offered to it.\<close>

fun send_ok :: "nat \<Rightarrow> send_result list \<Rightarrow> bool" where
  "send_ok room [] = True"
| "send_ok room (Sent n # rs) = (n \<le> room \<and> (0 < room \<longrightarrow> 0 < n) \<and> send_ok (room - n) rs)"
| "send_ok room (r # rs) = send_ok room rs"

lemma handle_send_True: "handle_send data rs = (bs, Some True) \<Longrightarrow> bs = data"
  by (induction data rs arbitrary: bs rule: handle_send.induct)
    (auto simp: Let_def split: prod.splits if_splits)

lemma handle_send_prefix: "handle_send data rs = (bs, r) \<Longrightarrow> \<exists>k. bs = take k data"
proof (induction data rs arbitrary: bs r rule: handle_send.induct)
  case (4 data n rs)
  show ?case
  proof (cases "n = length data")
    case True
    with 4(2) show ?thesis by (auto intro: exI [of _ n])
  next
    case False
    with 4(2) obtain bs' where bs: "handle_send (drop n data) rs = (bs', r)" "bs = take n data @ bs'"
      by (auto simp: Let_def split: prod.splits)
    with 4(1) [OF False] obtain k where "bs' = take k (drop n data)" by blast
    with bs(2) have "bs = take (n + k) data" by (simp add: take_add)
    then show ?thesis ..
  qed
qed (auto intro: exI [of _ 0])

lemma handle_send_completes:
  assumes "send_ok (length data) rs" and "Send_error \<notin> set rs"
    and "length data < length (filter (\<lambda>r. r \<noteq> Send_again) rs)"
  shows "handle_send data rs = (data, Some True)"
  using assms
proof (induction data rs rule: handle_send.induct)
  case (4 data n rs)
  then show ?case by (cases "n = length data"; cases "n = 0") (auto simp: Let_def)
qed auto

text \<open>A successful \<open>send_packet\<close> has given its peers the wire form of the packet, whole.\<close>

lemma send_all_True:
  "send_all ds data net = (out, Some True) \<Longrightarrow> out = map (\<lambda>d. (d, data)) ds"
  by (induction ds arbitrary: out)
    (auto dest: handle_send_True split: prod.splits option.splits bool.splits)

lemma pkt_fd_unchanged:
  "pkt_serialize p = Serialized out n p' \<Longrightarrow> pkt_fd (base_of p') = pkt_fd (base_of p)"
  by (auto simp: pkt_serialize_def parser_serialize_def recent_serialize_def http_serialize_def
      base_parser_serialize_def table_serialize_def Let_def
      split: parser_id.splits packet.splits sum.splits if_splits)

definition recipients :: "connection \<Rightarrow> packet \<Rightarrow> int list" where
  "recipients cnt p =
     (if is_server cnt then
        (if pkt_fd (base_of p) = - 1 then map fst (connected_nodes cnt) else [pkt_fd (base_of p)])
      else [listen_fd cnt])"

lemma link_good_set_fd [simp]: "link_good (set_pkt_fd d p) = link_good p"
  by (cases p) (simp_all add: link_good_def recent_good_def http_good_def base_good_def
      split: parser_id.split)

lemma fields_set_fd [simp]:
  "size_header (a\<lparr>pkt_fd := d\<rparr>) n = size_header a n"
  "recent_fields (r\<lparr>pkt_fd := d\<rparr>) = recent_fields r"
  "http_fields (h\<lparr>pkt_fd := d\<rparr>) = http_fields h"
  "base_serialize (b\<lparr>pkt_fd := d\<rparr>) = base_serialize b"
  by (simp_all add: size_header_def recent_fields_def http_fields_def base_serialize_def Let_def
      split: sum.split)

lemma link_wire_set_fd [simp]: "link_wire (set_pkt_fd d p) = link_wire p"
  by (cases p) (simp_all add: link_wire_def recent_wire_def http_wire_def base_wire_def
      base_serialize_def split: parser_id.split sum.split)

text \<open>The packet that is serialised: the backup's packets go to its one descriptor.\<close>

definition sent_form :: "connection \<Rightarrow> packet \<Rightarrow> packet" where
  "sent_form cnt p = (if is_server cnt then p else set_pkt_fd (listen_fd cnt) p)"

lemma sent_form_simps [simp]: "link_good (sent_form cnt p) = link_good p" "link_wire (sent_form cnt p) = link_wire p"
  by (simp_all add: sent_form_def)

lemma send_packet_True:
  assumes "send_packet pkt_serialize cnt p net = Done (out, True, p')"
  shows "case pkt_serialize (sent_form cnt p) of
      Serialized to_send n _ \<Rightarrow> out = map (\<lambda>d. (d, take n to_send)) (recipients cnt p)
    | Not_serialized \<Rightarrow> out = []
    | _ \<Rightarrow> False"
proof (cases "pkt_serialize (sent_form cnt p)")
  case (Serialized to_send n p'')
  have fd: "pkt_fd (base_of p'') = pkt_fd (base_of (sent_form cnt p))"
    using Serialized by (rule pkt_fd_unchanged)
  let ?fds = "if is_server cnt \<and> pkt_fd (base_of p'') = - 1 then map fst (connected_nodes cnt)
    else [pkt_fd (base_of p'')]"
  have "send_all ?fds (take n to_send) net = (out, Some True)"
    using assms Serialized unfolding send_packet_def sent_form_def
    by (auto simp: Let_def split: if_splits prod.splits option.splits)
  then have "out = map (\<lambda>d. (d, take n to_send)) ?fds" by (rule send_all_True)
  with fd Serialized show ?thesis by (simp add: recipients_def sent_form_def)
qed (use assms in \<open>auto simp: send_packet_def sent_form_def Let_def split: if_splits\<close>)

lemma send_good_True:
  assumes "link_good p" and "send_packet pkt_serialize cnt p net = Done (out, True, p')"
  shows "out = map (\<lambda>d. (d, link_wire p)) (recipients cnt p)"
  using send_packet_True [OF assms(2)] link.serialize_good [of "sent_form cnt p"] assms(1) by auto

section \<open>Properties\<close>

text \<open>C18: however TCP cuts the byte stream of a peer into readable events and \<open>recv\<close> results, the packets
  of the stream reach the input queue once each, in order and tagged with the peer's descriptor, and no
  byte stays behind; each event must leave room for two packets in the buffer.\<close>

theorem link_stream_segmentation:
  assumes "event_data cnt d = Some c" and "ev_fd c = d" and "ev_ok c" and "pending c = []"
    and "\<forall>p \<in> set ps. link_good p \<and> length (link_wire p) \<le> M"
    and "\<forall>chunks \<in> set rounds. [] \<notin> set chunks \<and> length (concat chunks) + 2 * M < length (ev_buffer c)"
    and "concat (map concat rounds) = concat (map link_wire ps)"
  shows "\<exists>cnt' c'. handle_events (pkt_deserialize ur uh) cnt (map (readable d) rounds) = Done cnt' \<and>
    event_data cnt' d = Some c' \<and> pending c' = [] \<and>
    input_packet_queue cnt' = input_packet_queue cnt @ map (\<lambda>p. set_pkt_fd d (link_decoded ur uh p)) ps"
  using link.receive_stream [OF assms(1-3,5,6), of ur uh] assms(4,7) by auto

definition sample_client :: "byte list \<Rightarrow> nat \<Rightarrow> connection" where
  "sample_client mem n = (new_client 5)\<lparr>conn_running := True,
     server_link := Some \<lparr>ev_fd = 5, ev_buffer = mem, ev_size = n\<rparr>\<rparr>"

lemma link_sample [simp]: "link_good (Http_pkt sample_http)" "link_good (Recent_pkt sample_action)"
  using sample_http_good sample_action_good
  by (simp_all add: link_good_def get_packet_parser_def)

lemma sample_http_wire_length: "length (link_wire (Http_pkt sample_http)) = 46"
  by (simp add: link_wire_def get_packet_parser_def http_wire_def http_fields_def carries_session_def
      sample_session_def)

theorem link_stream_segmentation_witness:
  "\<exists>cnt' c'. handle_events (pkt_deserialize sample_action sample_http)
      (sample_client (replicate MAX_PACKET_SIZE 0) 0)
      (map (readable 5) [[take 7 (link_wire (Http_pkt sample_http))], [drop 7 (link_wire (Http_pkt sample_http))]])
      = Done cnt' \<and>
    event_data cnt' 5 = Some c' \<and> pending c' = [] \<and>
    input_packet_queue cnt' = [] @
      map (\<lambda>p. set_pkt_fd 5 (link_decoded sample_action sample_http p)) [Http_pkt sample_http]"
proof -
  let ?cnt = "sample_client (replicate MAX_PACKET_SIZE 0) 0"
  have ne: "take 7 (link_wire (Http_pkt sample_http)) \<noteq> []" "drop 7 (link_wire (Http_pkt sample_http)) \<noteq> []"
    using sample_http_wire_length by auto
  have q: "input_packet_queue ?cnt = []" by (simp add: sample_client_def new_client_def)
  show ?thesis
    unfolding q [symmetric]
  proof (rule link_stream_segmentation [where M = 46 and c = "\<lparr>ev_fd = 5, ev_buffer = replicate MAX_PACKET_SIZE 0, ev_size = 0\<rparr>"])
    show "\<forall>chunks \<in> set [[take 7 (link_wire (Http_pkt sample_http))], [drop 7 (link_wire (Http_pkt sample_http))]].
        [] \<notin> set chunks \<and> length (concat chunks) + 2 * 46
          < length (ev_buffer \<lparr>ev_fd = 5, ev_buffer = replicate MAX_PACKET_SIZE 0, ev_size = 0\<rparr>)"
      using ne sample_http_wire_length by (simp add: MAX_PACKET_SIZE_def)
  qed (simp_all add: sample_client_def new_client_def event_data_def ev_ok_def pending_def sample_http_wire_length)
qed

text \<open>C30: when the parser takes a packet from the front of the buffer and fewer bytes are free behind the
  received data (at least a header's five) than the packet uses, the packet is queued again and again:
  the handler of the event never returns.\<close>

theorem full_buffer_hangs_receiver:
  assumes "event_data cnt d = Some c" and "recv_loop (clear_header c) rs = Some (c', Would_block)"
    and "deser (ev_buffer c') (ev_size c') = Parsed p used" and "length (ev_buffer c') - ev_size c' < used"
    and "5 \<le> ev_size c'"
  shows "handle_event deser cnt (Readable d rs b) = Diverges"
  using assms drain_stuck [of deser c' p used, OF assms(3-5)]
  by (simp add: handle_event_def handle_readable_def)

text \<open>A \<open>CONNECT\<close> packet at the front of a buffer with three free bytes.\<close>

theorem full_buffer_hangs_receiver_witness:
  "handle_event (pkt_deserialize sample_action sample_http)
     (sample_client (link_wire (Base_pkt (new_typed_packet CONNECT)) @ replicate (MAX_PACKET_SIZE - 5) 0)
       (MAX_PACKET_SIZE - 3))
     (Readable 5 [Would_block] True) = Diverges"
proof -
  let ?w = "link_wire (Base_pkt (new_typed_packet CONNECT))"
  let ?c = "\<lparr>ev_fd = 5, ev_buffer = ?w @ replicate (MAX_PACKET_SIZE - 5) 0, ev_size = MAX_PACKET_SIZE - 3\<rparr>"
  have g: "link_good (Base_pkt (new_typed_packet CONNECT))"
    by (simp add: link_good_def base_good_def get_packet_parser_def new_typed_packet_def packet_type_of_byte_def)
  have l: "length ?w = 5"
    by (simp add: link_wire_def base_wire_def get_packet_parser_def new_typed_packet_def)
  have "pkt_deserialize sample_action sample_http (ev_buffer ?c) (ev_size ?c) =
      Parsed (link_decoded sample_action sample_http (Base_pkt (new_typed_packet CONNECT))) (length ?w)"
    by (rule link.deserialize_whole [OF g]) (simp_all add: l MAX_PACKET_SIZE_def)
  moreover have "recv_loop (clear_header ?c) [Would_block] = Some (?c, Would_block)"
    by (simp add: clear_header_def l MAX_PACKET_SIZE_def)
  ultimately show ?thesis
    by (intro full_buffer_hangs_receiver [where c = ?c and c' = ?c and used = 5])
      (simp_all add: sample_client_def new_client_def event_data_def l MAX_PACKET_SIZE_def)
qed

text \<open>C40: when a peer closes, the bytes received since the last event are lost, whole packets included:
  the worker gets the \<open>DISCONNECT\<close> and nothing else, a server forgets the peer and a client stops.\<close>

theorem close_drops_received_bytes:
  assumes "event_data cnt d = Some c" and "ev_fd c = d" and "recv_loop (clear_header c) rs = Some (c', Closed)"
    and "ev_fd c' = ev_fd c"
  shows "\<exists>cnt'. handle_event deser cnt (Readable d rs b) = Done (cnt', \<not> is_server cnt) \<and>
    input_packet_queue cnt' = input_packet_queue cnt @
      [Base_pkt ((new_typed_packet DISCONNECT)\<lparr>pkt_fd := d\<rparr>)] \<and>
    (if is_server cnt then mget (connected_nodes cnt') d = None \<and> conn_running cnt' = conn_running cnt
     else \<not> conn_running cnt')"
  using assms
  by (simp add: handle_event_def handle_readable_def peer_gone_def Let_def enqueue_def store_simps)

theorem close_drops_received_bytes_witness:
  "\<exists>cnt'. handle_event (pkt_deserialize sample_action sample_http)
      (sample_client (replicate MAX_PACKET_SIZE 0) 0)
      (Readable 5 [Data (link_wire (Http_pkt sample_http)), Closed] True) = Done (cnt', True) \<and>
    input_packet_queue cnt' = [Base_pkt ((new_typed_packet DISCONNECT)\<lparr>pkt_fd := 5\<rparr>)] \<and> \<not> conn_running cnt'"
proof -
  let ?cnt = "sample_client (replicate MAX_PACKET_SIZE 0) 0"
  let ?c = "\<lparr>ev_fd = 5, ev_buffer = replicate MAX_PACKET_SIZE 0, ev_size = 0\<rparr>"
  have c: "event_data ?cnt 5 = Some ?c" "is_server ?cnt = False" "input_packet_queue ?cnt = []"
    by (simp_all add: sample_client_def new_client_def event_data_def)
  have "\<exists>c'. recv_loop (clear_header ?c) [Data (link_wire (Http_pkt sample_http)), Closed] = Some (c', Closed) \<and>
      ev_fd c' = ev_fd ?c"
    by (simp add: clear_header_def sample_http_wire_length MAX_PACKET_SIZE_def store_at_def Let_def)
  then obtain c' where c': "recv_loop (clear_header ?c) [Data (link_wire (Http_pkt sample_http)), Closed] = Some (c', Closed)"
    "ev_fd c' = ev_fd ?c" by blast
  from close_drops_received_bytes [OF c(1) _ c', of "pkt_deserialize sample_action sample_http" True] c show ?thesis
    by simp
qed

text \<open>\<open>handle_send\<close> ends with everything sent, whatever the sizes of the partial sends and however
  often the socket would block, as soon as \<open>send\<close> has accepted more pieces than there are bytes; it never
  sends anything but a prefix.\<close>

theorem handle_send_sends_all:
  assumes "send_ok (length data) rs" and "Send_error \<notin> set rs"
    and "length data < length (filter (\<lambda>r. r \<noteq> Send_again) rs)"
  shows "handle_send data rs = (data, Some True)"
  using assms by (rule handle_send_completes)

theorem handle_send_sends_all_witness:
  "handle_send [1, 2, 3] [Sent 1, Send_again, Send_again, Sent 2, Sent 0, Sent 0] = ([1, 2, 3], Some True)"
  by (rule handle_send_sends_all) simp_all

text \<open>C27: when \<open>send_packet\<close> reports success, for any packet, then either each of its recipients (the
  addressed node, or every connected node for descriptor -1, or the master) has got all the bytes the
  serialiser said, or the serialiser refused the packet and nothing was sent. The bytes of a packet of
  the link's domain are its whole wire form.\<close>

theorem send_packet_success_delivers:
  assumes "send_packet pkt_serialize cnt p net = Done (out, True, p')"
  shows "(case pkt_serialize (sent_form cnt p) of
      Serialized to_send n _ \<Rightarrow> out = map (\<lambda>d. (d, take n to_send)) (recipients cnt p)
    | Not_serialized \<Rightarrow> out = []
    | _ \<Rightarrow> False) \<and>
    (link_good p \<longrightarrow> out = map (\<lambda>d. (d, link_wire p)) (recipients cnt p))"
  using send_packet_True [OF assms] send_good_True [OF _ assms] by blast

text \<open>An HTTP action goes out whole; a table, which no parser serialises, is reported as sent.\<close>

theorem send_packet_success_delivers_witness:
  "(\<exists>out p'. send_packet pkt_serialize (sample_client [] 0) (Http_pkt sample_http)
       (\<lambda>_. [Sent (length (link_wire (Http_pkt sample_http)))]) = Done (out, True, p') \<and>
     out = [(5, link_wire (Http_pkt sample_http))]) \<and>
   (\<exists>out p'. send_packet pkt_serialize (sample_client [] 0) (Table_pkt new_xt_recent_table) (\<lambda>_. []) =
       Done (out, True, p') \<and> out = [])"
proof -
  have refused: "pkt_serialize (Table_pkt (new_xt_recent_table\<lparr>pkt_fd := d\<rparr>)) = Not_serialized" for d
    by (simp add: pkt_serialize_def get_packet_parser_def parser_serialize_def table_serialize_def
        new_xt_recent_table_def conn_packet.extend_def new_typed_packet_def)
  have table: "send_packet pkt_serialize (sample_client [] 0) (Table_pkt new_xt_recent_table) (\<lambda>_. []) =
      Done ([], True, Table_pkt (new_xt_recent_table\<lparr>pkt_fd := 5\<rparr>))"
    by (simp add: send_packet_def Let_def sample_client_def new_client_def refused)
  have up: "is_server (sample_client [] 0) = False" "conn_running (sample_client [] 0)" "listen_fd (sample_client [] 0) = 5"
    by (simp_all add: sample_client_def new_client_def)
  have g: "link_good (set_pkt_fd 5 (Http_pkt sample_http))" by (simp only: link_good_set_fd link_sample)
  have "\<exists>out p'. send_packet pkt_serialize (sample_client [] 0) (Http_pkt sample_http)
       (\<lambda>_. [Sent (length (link_wire (Http_pkt sample_http)))]) = Done (out, True, p')"
  proof -
    from g obtain o2 p2 where s: "pkt_serialize (set_pkt_fd 5 (Http_pkt sample_http)) =
        Serialized o2 (length (link_wire (set_pkt_fd 5 (Http_pkt sample_http)))) p2"
      and w: "take (length (link_wire (set_pkt_fd 5 (Http_pkt sample_http)))) o2 =
        link_wire (set_pkt_fd 5 (Http_pkt sample_http))"
      using link.serialize_good by blast
    from arg_cong [OF w, of length] have "length (link_wire (Http_pkt sample_http)) \<le> length o2"
      unfolding link_wire_set_fd by simp
    moreover have "\<not> MAX_PACKET_SIZE < length o2" using pkt_serialize_room [OF g s] by (simp add: MAX_PACKET_SIZE_def)
    ultimately show ?thesis
      using up s w unfolding link_wire_set_fd send_packet_def
      by (simp add: Let_def del: set_pkt_fd.simps)
  qed
  then obtain out p' where s: "send_packet pkt_serialize (sample_client [] 0) (Http_pkt sample_http)
       (\<lambda>_. [Sent (length (link_wire (Http_pkt sample_http)))]) = Done (out, True, p')" by blast
  from send_packet_success_delivers [OF s] send_packet_success_delivers [OF table] s table up refused show ?thesis
    by (simp add: recipients_def sent_form_def)
qed

end
