(* ===== verification/Http_Sync.thy ===== *)
theory Http_Sync
  imports Connection
begin

text \<open>
  \<open>http/http_sync.h\<close> and \<open>.cpp\<close>: the UNIX-socket links to the HTTP farms. The listening thread turns
  the bytes of a farm into \<open>http_action\<close>s for the worker; the worker sends actions to a farm with
  \<open>send_pound_action\<close>. The event data has the members of the one in \<open>connection.cpp\<close> and the loop around
  \<open>recv\<close> is the same, so both are shared with \<open>Connection\<close>.
\<close>

section \<open>State\<close>

text \<open>
  \<open>http_links\<close> holds the event data by the file descriptor it is registered for in the current epoll
  instance. The two flags have no initial value in the class; \<open>is_running\<close> gets one here from an
  argument, \<open>is_listener\<close> from the constructor.
\<close>

record http_sync =
  farms_fd :: "(int, string) omap"
  http_links :: "(int, connection_event_data) omap"
  http_input :: "http_action safe_queue"
  http_running :: bool
  is_listener :: bool

definition HTTP_MAX_PACKET_SIZE :: nat where
  "HTTP_MAX_PACKET_SIZE = 65350 * 100"

definition new_http_sync :: "bool \<Rightarrow> bool \<Rightarrow> http_sync" where
  "new_http_sync u enable_listen_mode =
     \<lparr>farms_fd = [], http_links = [], http_input = [], http_running = u,
      is_listener = enable_listen_mode\<rparr>"

text \<open>A packet that tells the worker about a farm; \<open>u\<close> gives the members the constructor leaves open.\<close>

definition farm_event :: "http_action \<Rightarrow> packet_type \<Rightarrow> string \<Rightarrow> int \<Rightarrow> http_action" where
  "farm_event u t n d = (new_http_action u)\<lparr>pkt_type := t, farm_name := n, pkt_fd := d\<rparr>"

section \<open>Farms\<close>

text \<open>The last descriptor, in increasing order, that is registered for the farm; 0 when there is none.\<close>

definition get_farm_fd :: "string \<Rightarrow> http_sync \<Rightarrow> int" where
  "get_farm_fd n s = foldl (\<lambda>fd (d, name). if name = n then d else fd) 0 (farms_fd s)"

definition http_init :: "http_sync \<Rightarrow> http_sync \<times> bool" where
  "http_init s = (s\<lparr>http_links := []\<rparr>, True)"

text \<open>\<open>thread_ok\<close>: whether the thread could be created; the exception is caught.\<close>

definition http_start :: "bool \<Rightarrow> http_sync \<Rightarrow> http_sync \<times> bool" where
  "http_start thread_ok s = (s\<lparr>http_running := True\<rparr>, thread_ok)"

definition http_stop :: "http_sync \<Rightarrow> http_sync" where
  "http_stop s = (if http_running s then s\<lparr>http_running := False\<rparr> else s)"

text \<open>\<open>farms_fd[fd]\<close> creates the key; the entry stays after the disconnection.\<close>

definition peer_disconnect_handler :: "http_action \<Rightarrow> int \<Rightarrow> http_sync \<Rightarrow> http_sync" where
  "peer_disconnect_handler u d s =
     (let farms = mtouch [] (farms_fd s) d
      in s\<lparr>http_links := merase d (http_links s), farms_fd := farms,
           http_input := enqueue (http_input s) (farm_event u DISCONNECT (mref [] farms d) d)\<rparr>)"

text \<open>
  The results of the system calls of \<open>add_farm\<close>, in order, and the memory of the new event data. The
  path is copied with \<open>strcpy\<close> into the 108 bytes of \<open>sun_path\<close>.
\<close>

record farm_io =
  io_socket :: "int option"
  io_connect :: bool
  io_getfl :: bool
  io_setfl :: bool
  io_epoll :: bool
  io_mem :: "byte list"

definition farm_socket :: "string \<Rightarrow> string" where
  "farm_socket n = ''/tmp/ssync_'' @ n @ ''.socket''"

definition add_farm :: "http_action \<Rightarrow> farm_io \<Rightarrow> string \<Rightarrow> http_sync \<Rightarrow> (http_sync \<times> bool) run" where
  "add_farm u io n s =
     (case io_socket io of
        None \<Rightarrow> Done (s, False)
      | Some sock \<Rightarrow>
          if 108 \<le> length (c_str (farm_socket n)) then Fault
          else if \<not> io_connect io then Done (s, False)
          else if \<not> io_getfl io then Done (s, False)
          else if \<not> io_setfl io then Done (s, False)
          else if \<not> io_epoll io then Done (s, False)
          else Done (s\<lparr>http_links := mput sock (new_event_data (io_mem io) sock) (http_links s),
                       farms_fd := mput sock n (farms_fd s),
                       http_input := enqueue (http_input s) (farm_event u CONNECT n sock)\<rparr>, True))"

definition remove_farm :: "http_action \<Rightarrow> string \<Rightarrow> http_sync \<Rightarrow> http_sync \<times> bool" where
  "remove_farm u n s =
     (let d = get_farm_fd n s
      in if d \<noteq> 0
         then (s\<lparr>http_links := merase d (http_links s),
                 http_input := enqueue (http_input s) (farm_event u DISCONNECT n d)\<rparr>, True)
         else (s, False))"

section \<open>Sending to a farm\<close>

text \<open>
  The result: the state, the descriptor with the bytes the farm got, the returned flag, and the action
  with the members the call writes. The loop around \<open>send\<close> is that of \<open>connection::handle_send\<close>.
\<close>

definition send_pound_action ::
    "http_action \<Rightarrow> farm_io \<Rightarrow> send_result list \<Rightarrow> string \<Rightarrow> http_action \<Rightarrow> http_sync \<Rightarrow>
     (http_sync \<times> (int \<times> byte list) list \<times> bool \<times> http_action) run" where
  "send_pound_action u io rs n a s =
     run_bind (if get_farm_fd n s = 0 then add_farm u io n s else Done (s, True))
       (\<lambda>(s, ok).
          if \<not> ok then Done (s, [], False, a)
          else
            (let a = a\<lparr>pkt_fd := get_farm_fd n s, farm_name := n\<rparr>
             in case http_serialize (Http_pkt a) of
                  Serialized to_send to_send_size (Http_pkt a) \<Rightarrow>
                    if HTTP_MAX_PACKET_SIZE < length to_send then Fault
                    else (case handle_send (take to_send_size to_send) rs of
                       (_, None) \<Rightarrow> Diverges
                     | (bs, Some sent) \<Rightarrow> Done (s, [(pkt_fd a, bs)], sent, a))
                | Serialized _ _ _ \<Rightarrow> Fault
                | Not_serialized \<Rightarrow> Done (s, [], True, a)
                | Threw e \<Rightarrow> Throws e
                | Undefined \<Rightarrow> Fault))"

section \<open>\<open>listen_task\<close>\<close>

text \<open>
  Cutting actions off the buffer. The size is reduced first and the bytes are moved when the array has
  room for as many as were used after the reduction; with a size no larger than the array there always
  is. A larger \<open>used\<close> than the size makes the unsigned size wrap.
\<close>

partial_function (option) http_drain ::
    "(byte list \<Rightarrow> nat \<Rightarrow> parsed) \<Rightarrow> connection_event_data \<Rightarrow> http_sync \<Rightarrow>
     (connection_event_data \<times> http_sync) run option" where
  "http_drain deser c s =
     (case deser (ev_buffer c) (ev_size c) of
        Read_fault \<Rightarrow> Some Fault
      | Null_pkt \<Rightarrow> Some (Done (c, s))
      | Parsed p used \<Rightarrow>
          (case p of
             Http_pkt a \<Rightarrow>
               let farms = mtouch [] (farms_fd s) (ev_fd c);
                   a = a\<lparr>farm_name := mref [] farms (ev_fd c), pkt_fd := ev_fd c\<rparr>;
                   s = s\<lparr>farms_fd := farms, http_input := enqueue (http_input s) a\<rparr>
               in if ev_size c < used then Some Fault
                  else http_drain deser
                    (if used \<le> length (ev_buffer c) - (ev_size c - used) then consume used c
                     else c\<lparr>ev_size := ev_size c - used\<rparr>) s
           | _ \<Rightarrow> Some Fault))"

text \<open>
  An event of \<open>epoll_wait\<close>: readable, with the \<open>recv\<close> results and whether the error of the last one is
  \<open>ECONNRESET\<close>; the other flags are only logged.
\<close>

datatype http_event = Http_readable int "recv_result list" bool | Http_other int

definition http_handle_event ::
    "(byte list \<Rightarrow> nat \<Rightarrow> parsed) \<Rightarrow> http_action \<Rightarrow> http_event \<Rightarrow> http_sync \<Rightarrow> http_sync run" where
  "http_handle_event deser u e s =
     (case e of
        Http_other d \<Rightarrow> Done s
      | Http_readable d rs reset \<Rightarrow>
          (case mget (http_links s) d of
             None \<Rightarrow> Fault
           | Some c_data \<Rightarrow>
               (case recv_loop (clear_header c_data) rs of
                  None \<Rightarrow> Diverges
                | Some (c_data, Recv_error) \<Rightarrow>
                    (let s = s\<lparr>http_links := mput d c_data (http_links s)\<rparr>
                     in Done (if reset then peer_disconnect_handler u (ev_fd c_data) s else s))
                | Some (c_data, Closed) \<Rightarrow>
                    Done (peer_disconnect_handler u (ev_fd c_data)
                      (s\<lparr>http_links := mput d c_data (http_links s)\<rparr>))
                | Some (c_data, _) \<Rightarrow>
                    if 0 < ev_size c_data then
                      (case http_drain deser c_data s of
                         None \<Rightarrow> Diverges
                       | Some r \<Rightarrow> run_bind r
                           (\<lambda>(c_data, s). Done (s\<lparr>http_links := mput d c_data (http_links s)\<rparr>)))
                    else Done (s\<lparr>http_links := mput d c_data (http_links s)\<rparr>))))"

fun http_handle_events ::
    "(byte list \<Rightarrow> nat \<Rightarrow> parsed) \<Rightarrow> http_action \<Rightarrow> http_event list \<Rightarrow> http_sync \<Rightarrow> http_sync run" where
  "http_handle_events deser u [] s = Done s"
| "http_handle_events deser u (e # es) s =
     run_bind (http_handle_event deser u e s) (http_handle_events deser u es)"

text \<open>The rounds of the thread, with the value of \<open>is_running\<close> each of them reads.\<close>

fun listen_task ::
    "(byte list \<Rightarrow> nat \<Rightarrow> parsed) \<Rightarrow> http_action \<Rightarrow> (bool \<times> http_event list) list \<Rightarrow> http_sync \<Rightarrow> http_sync run" where
  "listen_task deser u [] s = Done s"
| "listen_task deser u ((running, es) # rounds) s =
     (if running then run_bind (http_handle_events deser u es s) (listen_task deser u rounds)
      else Done (s\<lparr>http_running := False, http_links := []\<rparr>))"

section \<open>Which descriptor a farm has\<close>

lemma get_farm_fd_fold:
  "foldl (\<lambda>fd (d, name). if name = n then d else fd) d0 m =
     (case filter (\<lambda>(d, name). name = n) m of [] \<Rightarrow> d0 | _ \<Rightarrow> fst (last (filter (\<lambda>(d, name). name = n) m)))"
  by (induction m arbitrary: d0) (auto split: list.splits)

lemma get_farm_fd_registered:
  assumes "omap_ok (farms_fd s)" and "get_farm_fd n s \<noteq> 0"
  shows "mget (farms_fd s) (get_farm_fd n s) = Some n"
proof -
  let ?l = "filter (\<lambda>(d, name). name = n) (farms_fd s)"
  have "?l \<noteq> []" "get_farm_fd n s = fst (last ?l)"
    using assms(2) by (auto simp: get_farm_fd_def get_farm_fd_fold split: list.splits)
  then have "(get_farm_fd n s, n) \<in> set (farms_fd s)"
    using last_in_set [of ?l] by (cases "last ?l") auto
  then show ?thesis using assms(1) by (simp add: omap_in_set)
qed

lemma filter_sorted_last:
  assumes "sorted_wrt (<) (map fst l)" and "(d, v) \<in> set l"
  shows "(d :: int) \<le> fst (last l)"
proof -
  from assms(2) have "l \<noteq> []" by auto
  then have l: "l = butlast l @ [last l]" by simp
  then have "sorted_wrt (<) (map fst (butlast l) @ [fst (last l)])"
    using assms(1) by (metis list.simps(8,9) map_append)
  moreover have "(d, v) \<in> set (butlast l) \<or> (d, v) = last l"
    using assms(2) l by (metis Un_iff empty_iff insert_iff list.set(1,2) set_append)
  ultimately show ?thesis
    by (metis (no_types, lifting) dual_order.order_iff_strict fst_conv image_eqI list.set_intros(1)
        list.set_map sorted_wrt_append)
qed

lemma get_farm_fd_max:
  assumes "omap_ok (farms_fd s)" and "mget (farms_fd s) d = Some n"
  shows "d \<le> get_farm_fd n s"
proof -
  let ?l = "filter (\<lambda>(d, name). name = n) (farms_fd s)"
  have d: "(d, n) \<in> set ?l" using assms by (simp add: omap_in_set)
  have "sorted_wrt (<) (map fst ?l)"
    using assms(1) unfolding omap_ok_def sorted_wrt_map by (rule sorted_wrt_filter)
  from filter_sorted_last [OF this d] have "d \<le> fst (last ?l)" .
  moreover have "?l \<noteq> []" using d by (metis empty_iff empty_set)
  ultimately show ?thesis
    by (auto simp: get_farm_fd_def get_farm_fd_fold split: list.splits)
qed

lemma get_farm_fd_eqI:
  assumes "omap_ok (farms_fd s)" and "mget (farms_fd s) d = Some n" and "0 < d"
    and "\<And>d'. mget (farms_fd s) d' = Some n \<Longrightarrow> d' \<le> d"
  shows "get_farm_fd n s = d"
proof -
  have "d \<le> get_farm_fd n s" using assms(1,2) by (rule get_farm_fd_max)
  with assms(3) have "mget (farms_fd s) (get_farm_fd n s) = Some n"
    by (intro get_farm_fd_registered assms(1)) simp
  then have "get_farm_fd n s \<le> d" by (rule assms(4))
  with \<open>d \<le> get_farm_fd n s\<close> show ?thesis by simp
qed

text \<open>Descriptors are never forgotten, so a farm that was added once keeps a descriptor.\<close>

lemma remove_farm_farms [simp]: "farms_fd (fst (remove_farm u n s)) = farms_fd s"
  by (simp add: remove_farm_def Let_def)

lemma get_farm_fd_remove [simp]: "get_farm_fd m (fst (remove_farm u n s)) = get_farm_fd m s"
  by (simp add: get_farm_fd_def)

lemma add_farm_Done:
  assumes "add_farm u io n s = Done (s', True)"
  obtains d where "io_socket io = Some d" "farms_fd s' = mput d n (farms_fd s)"
    "http_links s' = mput d (new_event_data (io_mem io) d) (http_links s)"
    "http_input s' = http_input s @ [farm_event u CONNECT n d]" "http_running s' = http_running s"
  using assms by (auto simp: add_farm_def enqueue_def split: option.splits if_splits)

lemma get_farm_fd_add:
  assumes "add_farm u io n s = Done (s', True)" and "omap_ok (farms_fd s)"
    and "io_socket io = Some d" and "0 < d" and "mget (farms_fd s) d = None"
  shows "get_farm_fd n s' = max d (get_farm_fd n s)"
proof -
  from assms(1) obtain d' where "io_socket io = Some d'" and s': "farms_fd s' = mput d' n (farms_fd s)"
    by (rule add_farm_Done)
  with assms(3) have f: "farms_fd s' = mput d n (farms_fd s)" by simp
  show ?thesis
  proof (cases "get_farm_fd n s \<le> d")
    case True
    have "get_farm_fd n s' = d"
    proof (rule get_farm_fd_eqI)
      show "d' \<le> d" if "mget (farms_fd s') d' = Some n" for d'
        using that True get_farm_fd_max [OF assms(2), of d' n] by (auto simp: f store_simps split: if_splits)
    qed (use assms in \<open>auto simp: f store_simps\<close>)
    with True show ?thesis by simp
  next
    case False
    then have g: "mget (farms_fd s) (get_farm_fd n s) = Some n"
      using assms(2,4) by (intro get_farm_fd_registered) auto
    have "get_farm_fd n s' = get_farm_fd n s"
    proof (rule get_farm_fd_eqI)
      show "d' \<le> get_farm_fd n s" if "mget (farms_fd s') d' = Some n" for d'
        using that False get_farm_fd_max [OF assms(2), of d' n] by (auto simp: f store_simps split: if_splits)
    qed (use assms False g in \<open>auto simp: f store_simps\<close>)
    with False show ?thesis by simp
  qed
qed

section \<open>What the worker gets from a farm\<close>

text \<open>The action that arrives, with the name and the descriptor of the link it came on.\<close>

definition farm_action :: "http_action \<Rightarrow> string \<Rightarrow> int \<Rightarrow> http_action \<Rightarrow> http_action" where
  "farm_action u n d a =
     (case http_decoded u (Http_pkt a) of Http_pkt b \<Rightarrow> b\<lparr>farm_name := n, pkt_fd := d\<rparr> | _ \<Rightarrow> a)"

lemma http_decoded_Http: "\<exists>b. http_decoded u (Http_pkt a) = Http_pkt b"
  by (simp add: http_decoded_def Let_def)

lemma http_drain_Null:
  "deser (ev_buffer c) (ev_size c) = Null_pkt \<Longrightarrow> http_drain deser c s = Some (Done (c, s))"
  by (simp add: http_drain.simps)

lemma http_drain_frames:
  assumes "\<forall>a \<in> set as. http_good (Http_pkt a)"
    and "ev_ok c" and "pending c = concat (map (\<lambda>a. http_wire (Http_pkt a)) as) @ tail"
    and "tail = [] \<or> (http_good t \<and> k < length (http_wire t) \<and> tail = take k (http_wire t))"
    and "omap_ok (farms_fd s)" and "mget (farms_fd s) (ev_fd c) = Some n"
  shows "\<exists>c'. http_drain (http_deserialize u) c s =
      Some (Done (c', s\<lparr>http_input := http_input s @ map (farm_action u n (ev_fd c)) as\<rparr>)) \<and>
    ev_ok c' \<and> pending c' = tail \<and> ev_fd c' = ev_fd c \<and> length (ev_buffer c') = length (ev_buffer c)"
  using assms(1-3,5,6)
proof (induction as arbitrary: c s)
  case Nil
  have "holds (ev_buffer c) 0 tail"
    using Nil(3) holds_pending [of c tail "[]"] by simp
  moreover have "ev_size c = length tail" using Nil(2,3) length_pending [of c] by simp
  ultimately have "http_deserialize u (ev_buffer c) (ev_size c) = Null_pkt"
    using assms(4) http.deserialize_cut [of t "length tail" "ev_buffer c"]
    by (auto simp: http.deserialize_short)
  then have "http_drain (http_deserialize u) c s = Some (Done (c, s))"
    by (rule http_drain_Null)
  with Nil show ?case by simp
next
  case (Cons a as)
  let ?w = "http_wire (Http_pkt a)"
  let ?c = "consume (length ?w) c"
  let ?s = "s\<lparr>http_input := enqueue (http_input s) (farm_action u n (ev_fd c) a)\<rparr>"
  have p: "http_good (Http_pkt a)" "length ?w \<le> ev_size c" "ev_size c \<le> length (ev_buffer c)"
    using Cons.prems length_pending [OF Cons.prems(2)] by (auto simp: ev_ok_def)
  have "holds (ev_buffer c) 0 ?w"
    using Cons.prems(3) by (intro holds_pending [where r = "concat (map (\<lambda>a. http_wire (Http_pkt a)) as) @ tail"]) simp
  then have d: "http_deserialize u (ev_buffer c) (ev_size c) = Parsed (http_decoded u (Http_pkt a)) (length ?w)"
    using p by (intro http.deserialize_whole)
  obtain b where b: "http_decoded u (Http_pkt a) = Http_pkt b"
    using http_decoded_Http by blast
  have touch: "mtouch [] (farms_fd s) (ev_fd c) = farms_fd s" "mref [] (farms_fd s) (ev_fd c) = n"
    using Cons.prems(4,5) by (auto simp: mtouch_present mhas_def mref_def)
  have step: "http_drain (http_deserialize u) c s = http_drain (http_deserialize u) ?c ?s"
  proof -
    have "length ?w \<le> length (ev_buffer c) - (ev_size c - length ?w)"
      using p by linarith
    with p(2) show ?thesis
      by (subst http_drain.simps) (simp add: d b touch Let_def farm_action_def)
  qed
  have "ev_ok ?c" "pending ?c = concat (map (\<lambda>a. http_wire (Http_pkt a)) as) @ tail" "ev_fd ?c = ev_fd c"
    "length (ev_buffer ?c) = length (ev_buffer c)"
    using Cons.prems p by auto
  with Cons.IH [of ?c ?s] Cons.prems show ?case
    unfolding step by (simp add: enqueue_def)
qed

definition http_readable :: "int \<Rightarrow> byte list list \<Rightarrow> http_event" where
  "http_readable d chunks = Http_readable d (map Data chunks @ [Would_block]) False"

lemma http_handle_frames:
  assumes "mget (http_links s) d = Some c" and "ev_fd c = d" and "ev_ok c" and "[] \<notin> set chunks"
    and "ev_size c + length (concat chunks) < length (ev_buffer c)"
    and "\<forall>a \<in> set as. http_good (Http_pkt a)"
    and "pending c @ concat chunks = concat (map (\<lambda>a. http_wire (Http_pkt a)) as) @ tail"
    and "tail = [] \<or> (http_good t \<and> k < length (http_wire t) \<and> tail = take k (http_wire t))"
    and "omap_ok (farms_fd s)" and "mget (farms_fd s) d = Some n"
  shows "\<exists>s' c'. http_handle_event (http_deserialize u) u' (http_readable d chunks) s = Done s' \<and>
    mget (http_links s') d = Some c' \<and> ev_fd c' = d \<and> ev_ok c' \<and> pending c' = tail \<and>
    http_input s' = http_input s @ map (farm_action u n d) as"
proof -
  obtain c1 where c1: "recv_loop (clear_header c) (map Data chunks @ [Would_block]) = Some (c1, Would_block)"
    "ev_ok c1" "ev_fd c1 = d" "length (ev_buffer c1) = length (ev_buffer c)"
    "pending c1 = pending c @ concat chunks"
    using recv_loop_chunks [of "clear_header c" chunks] assms(2-5) by auto
  have n: "mget (farms_fd s) (ev_fd c1) = Some n" using c1(3) assms(10) by simp
  have pend: "pending c1 = concat (map (\<lambda>a. http_wire (Http_pkt a)) as) @ tail"
    by (simp only: c1(5) assms(7))
  obtain c2 where c2: "http_drain (http_deserialize u) c1 s =
      Some (Done (c2, s\<lparr>http_input := http_input s @ map (farm_action u n d) as\<rparr>))"
    "ev_ok c2" "pending c2 = tail" "ev_fd c2 = d"
    using http_drain_frames [OF assms(6) c1(2) pend assms(8,9) n] c1(3) by auto
  show ?thesis
  proof (cases "0 < ev_size c1")
    case True
    with assms(1) c1(1) c2 show ?thesis
      by (simp add: http_readable_def http_handle_event_def store_simps)
  next
    case False
    then have "pending c1 = []" by (simp add: pending_def)
    then have "tail = []" "concat (map (\<lambda>a. http_wire (Http_pkt a)) as) = []" using pend by auto
    moreover from this assms(6) have "as = []" using http.wire_nonempty by (cases as) auto
    ultimately show ?thesis
      using assms(1) c1 False
      by (simp add: http_readable_def http_handle_event_def store_simps pending_def)
  qed
qed

section \<open>What a farm gets\<close>

lemma http_good_fd [simp]:
  "http_good (Http_pkt (a\<lparr>pkt_fd := d\<rparr>)) = http_good (Http_pkt a)"
  by (simp add: http_good_def)

text \<open>
  A successful \<open>send_pound_action\<close> on a good action has written its whole wire form to the farm's
  descriptor.
\<close>

lemma send_pound_action_True:
  assumes "http_good (Http_pkt (a\<lparr>farm_name := n\<rparr>))"
    and "send_pound_action u io rs n a s = Done (s', out, True, a')"
  shows "out = [(get_farm_fd n s', http_wire (Http_pkt (a\<lparr>farm_name := n\<rparr>)))]"
proof -
  let ?a = "a\<lparr>pkt_fd := get_farm_fd n s', farm_name := n\<rparr>"
  have "http_good (Http_pkt ?a)" using assms(1) by (simp add: http_good_def)
  then obtain to_send p where ser: "http_serialize (Http_pkt ?a) = Serialized to_send (length (http_wire (Http_pkt ?a))) p"
    and w: "take (length (http_wire (Http_pkt ?a))) to_send = http_wire (Http_pkt ?a)"
    using http.serialize_good by blast
  have fd: "p = Http_pkt b \<Longrightarrow> pkt_fd b = get_farm_fd n s'" for b
    using ser by (auto simp: http_serialize_def Let_def split: if_splits)
  have wire: "http_wire (Http_pkt ?a) = http_wire (Http_pkt (a\<lparr>farm_name := n\<rparr>))"
    by (simp add: http_wire_def http_fields_def size_header_def)
  from assms(2) obtain ok where
    "(if get_farm_fd n s = 0 then add_farm u io n s else Done (s, True)) = Done (s', ok)" "ok"
    by (auto simp: send_pound_action_def run_bind_Done Let_def
        split: if_splits serialized.splits packet.splits option.splits prod.splits)
  with assms(2) have "(case p of Http_pkt b \<Rightarrow>
      (case handle_send (http_wire (Http_pkt ?a)) rs of
         (_, None) \<Rightarrow> Diverges
       | (bs, Some sent) \<Rightarrow> Done (s', [(pkt_fd b, bs)], sent, b)) | _ \<Rightarrow> Fault) = Done (s', out, True, a')"
    unfolding send_pound_action_def by (simp add: ser w Let_def split: packet.splits if_splits)
  then show ?thesis
    using fd by (auto dest: handle_send_True simp: wire split: packet.splits option.splits prod.splits)
qed

section \<open>Properties\<close>

text \<open>C28: the actions a farm writes on its socket, arriving in pieces of any size, reach the worker once
  each and in order, with the farm's name and descriptor; a trailing part of an action stays in the
  buffer. Unlike the TCP link this needs no free space beyond the received bytes.\<close>

theorem farm_actions_reach_worker:
  assumes "mget (http_links s) d = Some c" and "ev_fd c = d" and "ev_ok c" and "[] \<notin> set chunks"
    and "ev_size c + length (concat chunks) < length (ev_buffer c)"
    and "\<forall>a \<in> set as. http_good (Http_pkt a)"
    and "pending c @ concat chunks = concat (map (\<lambda>a. http_wire (Http_pkt a)) as) @ tail"
    and "tail = [] \<or> (http_good t \<and> k < length (http_wire t) \<and> tail = take k (http_wire t))"
    and "omap_ok (farms_fd s)" and "mget (farms_fd s) d = Some n"
  shows "\<exists>s' c'. http_handle_event (http_deserialize u) u' (http_readable d chunks) s = Done s' \<and>
    mget (http_links s') d = Some c' \<and> pending c' = tail \<and>
    http_input s' = http_input s @ map (farm_action u n d) as"
  using http_handle_frames [OF assms, of u u'] by blast

definition sample_farms :: http_sync where
  "sample_farms = (new_http_sync True True)\<lparr>farms_fd := [(7, ''web'')],
     http_links := [(7, new_event_data (replicate HTTP_MAX_PACKET_SIZE 0) 7)]\<rparr>"

theorem farm_actions_reach_worker_witness:
  "\<exists>s' c'. http_handle_event (http_deserialize sample_http) sample_http
      (http_readable 7 [http_wire (Http_pkt sample_http), take 9 (http_wire (Http_pkt sample_http))]) sample_farms = Done s' \<and>
    mget (http_links s') 7 = Some c' \<and> pending c' = take 9 (http_wire (Http_pkt sample_http)) \<and>
    http_input s' = [farm_action sample_http ''web'' 7 sample_http]"
proof -
  have l: "length (http_wire (Http_pkt sample_http)) = 46"
    using sample_http_wire_length by (simp add: link_wire_def get_packet_parser_def)
  then have ne: "http_wire (Http_pkt sample_http) \<noteq> []" by auto
  have "\<exists>s' c'. http_handle_event (http_deserialize sample_http) sample_http
      (http_readable 7 [http_wire (Http_pkt sample_http), take 9 (http_wire (Http_pkt sample_http))]) sample_farms = Done s' \<and>
    mget (http_links s') 7 = Some c' \<and> pending c' = take 9 (http_wire (Http_pkt sample_http)) \<and>
    http_input s' = http_input sample_farms @ map (farm_action sample_http ''web'' 7) [sample_http]"
  proof (rule farm_actions_reach_worker
      [where c = "new_event_data (replicate HTTP_MAX_PACKET_SIZE 0) 7" and t = "Http_pkt sample_http" and k = 9])
    show "[] \<notin> set [http_wire (Http_pkt sample_http), take 9 (http_wire (Http_pkt sample_http))]"
      using ne by simp
    show "take 9 (http_wire (Http_pkt sample_http)) = [] \<or> http_good (Http_pkt sample_http) \<and>
      9 < length (http_wire (Http_pkt sample_http)) \<and>
      take 9 (http_wire (Http_pkt sample_http)) = take 9 (http_wire (Http_pkt sample_http))"
      using l sample_http_good by simp
  qed (simp_all add: sample_farms_def new_event_data_def ev_ok_def pending_def HTTP_MAX_PACKET_SIZE_def l
      sample_http_good)
  then show ?thesis by (simp add: sample_farms_def new_http_sync_def)
qed

text \<open>Removing a farm closes its descriptor but does not forget it: the farm keeps the closed
  descriptor, and when it is added again with a lower one, the closed one is still used.\<close>

theorem removed_farm_keeps_descriptor:
  assumes "omap_ok (farms_fd s)" and "get_farm_fd n s \<noteq> 0" and "s' = fst (remove_farm u n s)"
    and "add_farm u io n s' = Done (s'', True)" and "io_socket io = Some d" and "0 < d"
    and "mget (farms_fd s) d = None"
  shows "mget (http_links s') (get_farm_fd n s) = None \<and> get_farm_fd n s' = get_farm_fd n s \<and>
    get_farm_fd n s'' = max d (get_farm_fd n s)"
proof (intro conjI)
  show "mget (http_links s') (get_farm_fd n s) = None"
    using assms(2,3) by (simp add: remove_farm_def Let_def store_simps)
  show "get_farm_fd n s' = get_farm_fd n s" by (simp add: assms(3))
  then show "get_farm_fd n s'' = max d (get_farm_fd n s)"
    using get_farm_fd_add [OF assms(4) _ assms(5,6)] assms(1,3,7) by simp
qed

theorem removed_farm_keeps_descriptor_witness:
  "\<exists>s''. add_farm sample_http \<lparr>io_socket = Some 6, io_connect = True, io_getfl = True, io_setfl = True, io_epoll = True, io_mem = []\<rparr>
      ''web'' (fst (remove_farm sample_http ''web'' sample_farms)) = Done (s'', True) \<and> get_farm_fd ''web'' s'' = 7"
proof -
  let ?io = "\<lparr>io_socket = Some 6, io_connect = True, io_getfl = True, io_setfl = True, io_epoll = True, io_mem = []\<rparr> :: farm_io"
  have "length (c_str (farm_socket ''web'')) \<le> length (farm_socket ''web'')"
    unfolding c_str_def by (rule length_takeWhile_le)
  then have short: "length (c_str (farm_socket ''web'')) < 108" by (simp add: farm_socket_def)
  then obtain s'' where a: "add_farm sample_http ?io ''web'' (fst (remove_farm sample_http ''web'' sample_farms)) = Done (s'', True)"
    by (simp add: add_farm_def)
  have f: "farms_fd sample_farms = [(7, ''web'')]" "get_farm_fd ''web'' sample_farms = 7"
    by (simp_all add: sample_farms_def get_farm_fd_def)
  have "omap_ok (farms_fd sample_farms)" "mget (farms_fd sample_farms) 6 = None"
    by (simp_all add: f omap_ok_def)
  from removed_farm_keeps_descriptor [OF this(1) _ refl a _ _ this(2)] a show ?thesis
    by (simp add: f)
qed

text \<open>A farm name of 90 characters or more (a command can carry 255) makes \<open>add_farm\<close> write past the
  108 bytes of \<open>sun_path\<close>.\<close>

theorem long_farm_name_overflows:
  assumes "90 \<le> length n" and "CHR 0x00 \<notin> set n" and "io_socket io \<noteq> None"
  shows "add_farm u io n s = Fault"
proof -
  have "CHR 0x00 \<notin> set (farm_socket n)" using assms(2) by (simp add: farm_socket_def)
  then have "c_str (farm_socket n) = farm_socket n"
    unfolding c_str_def takeWhile_eq_all_conv by (metis (full_types))
  then show ?thesis using assms(1,3) by (auto simp: add_farm_def farm_socket_def)
qed

theorem long_farm_name_overflows_witness:
  "add_farm sample_http \<lparr>io_socket = Some 6, io_connect = True, io_getfl = True, io_setfl = True, io_epoll = True, io_mem = []\<rparr>
     (replicate 90 (CHR ''a'')) sample_farms = Fault"
  by (rule long_farm_name_overflows) simp_all

text \<open>When \<open>send_pound_action\<close> succeeds on an action whose strings fit a length byte, the farm's
  descriptor has got the action's whole wire form, with the farm's name in it.\<close>

theorem pound_action_success_delivers:
  assumes "http_good (Http_pkt (a\<lparr>farm_name := n\<rparr>))"
    and "send_pound_action u io rs n a s = Done (s', out, True, a')"
  shows "out = [(get_farm_fd n s', http_wire (Http_pkt (a\<lparr>farm_name := n\<rparr>)))]"
  using assms by (rule send_pound_action_True)

theorem pound_action_success_delivers_witness:
  "\<exists>s' out a'. send_pound_action sample_http \<lparr>io_socket = Some 6, io_connect = True, io_getfl = True, io_setfl = True, io_epoll = True, io_mem = []\<rparr> [Sent 46] ''web'' sample_http sample_farms = Done (s', out, True, a') \<and>
     out = [(get_farm_fd ''web'' s', http_wire (Http_pkt (sample_http\<lparr>farm_name := ''web''\<rparr>)))]"
proof -
  have f: "get_farm_fd ''web'' sample_farms = 7"
    by (simp add: sample_farms_def get_farm_fd_def)
  have "\<exists>s' out a'. send_pound_action sample_http \<lparr>io_socket = Some 6, io_connect = True, io_getfl = True, io_setfl = True, io_epoll = True, io_mem = []\<rparr> [Sent 46] ''web'' sample_http sample_farms = Done (s', out, True, a')"
    by (simp add: send_pound_action_def f Let_def http_serialize_def http_fields_def carries_session_def
        sample_session_def patch_size_def HTTP_MAX_PACKET_SIZE_def split: packet.split)
  then obtain s' out a' where r: "send_pound_action sample_http \<lparr>io_socket = Some 6, io_connect = True, io_getfl = True, io_setfl = True, io_epoll = True, io_mem = []\<rparr> [Sent 46] ''web'' sample_http sample_farms = Done (s', out, True, a')"
    by blast
  have g: "http_good (Http_pkt (sample_http\<lparr>farm_name := ''web''\<rparr>))"
    using sample_http_good by (simp add: http_good_def)
  from pound_action_success_delivers [OF g r] r show ?thesis by blast
qed

end
