(* ===== verification/Base_Sync.thy ===== *)
theory Base_Sync
  imports Session_Store Xt_Recent_Sync Http_Sync
begin

text \<open>
  \<open>sync/base_sync.h\<close> and \<open>.cpp\<close>: what a master and a backup worker share: the two listeners, the two
  stores, the connection, and the operations the controller calls. The stores and the actions on them
  are in \<open>Session_Store\<close>.

  The answers of the system are a read-only \<open>world\<close>, indexed by the number of calls made so far; what
  the worker sends and writes is collected in the ghost member \<open>trace\<close>, which also counts the calls.
\<close>

section \<open>State\<close>

record world =
  link_net :: "nat \<Rightarrow> int \<Rightarrow> send_result list"
  pound_net :: "nat \<Rightarrow> farm_io \<times> send_result list"
  proc_io :: "nat \<Rightarrow> bool \<times> bool"
  thread_ok :: bool
  open_action :: http_action

record io_trace =
  link_calls :: nat
  link_log :: "(int \<times> byte list) list"
  pound_calls :: nat
  pound_log :: "(int \<times> byte list) list"
  proc_calls :: nat
  proc_log :: "(string \<times> string) list"

definition no_trace :: io_trace where
  "no_trace = \<lparr>link_calls = 0, link_log = [], pound_calls = 0, pound_log = [], proc_calls = 0, proc_log = []\<rparr>"

record base_sync =
  conn :: connection
  http_listener :: http_sync
  recent_listener :: xt_recent_sync
  recent_data :: recent_store
  http_session_data :: http_store
  worker_running :: bool
  trace :: io_trace

text \<open>The constructor with \<open>init_master\<close> or \<open>init_backup\<close>; \<open>u\<close> and \<open>u'\<close> are the uninitialised flags.\<close>

definition new_base_sync :: "bool \<Rightarrow> bool \<Rightarrow> connection \<Rightarrow> base_sync" where
  "new_base_sync u u' c =
     \<lparr>conn = c, http_listener = new_http_sync u False, recent_listener = new_xt_recent_sync u',
      recent_data = [], http_session_data = [], worker_running = False, trace = no_trace\<rparr>"

definition init_master :: "bool \<Rightarrow> bool \<Rightarrow> int option \<Rightarrow> bool \<Rightarrow> bool \<Rightarrow> base_sync run" where
  "init_master u u' sock options_ok bind_ok =
     run_bind (new_server sock options_ok bind_ok) (\<lambda>c. Done (new_base_sync u u' c))"

definition init_backup :: "bool \<Rightarrow> bool \<Rightarrow> int \<Rightarrow> base_sync" where
  "init_backup u u' d = new_base_sync u u' (new_client d)"

section \<open>Calls on the links\<close>

text \<open>\<open>conn->send_packet\<close> and \<open>http_listener.send_pound_action\<close> as the workers make them.\<close>

definition link_send ::
    "world \<Rightarrow> packet \<Rightarrow> 'a base_sync_scheme \<Rightarrow> (bool \<times> packet \<times> 'a base_sync_scheme) run" where
  "link_send w p s =
     run_bind (send_packet pkt_serialize (conn s) p (link_net w (link_calls (trace s))))
       (\<lambda>(out, ok, p). Done (ok, p, s\<lparr>trace := (trace s)\<lparr>link_calls := Suc (link_calls (trace s)),
                                          link_log := link_log (trace s) @ out\<rparr>\<rparr>))"

definition pound_send ::
    "world \<Rightarrow> string \<Rightarrow> http_action \<Rightarrow> 'a base_sync_scheme \<Rightarrow> (bool \<times> http_action \<times> 'a base_sync_scheme) run" where
  "pound_send w n a s =
     (let (io, rs) = pound_net w (pound_calls (trace s))
      in run_bind (send_pound_action (open_action w) io rs n a (http_listener s))
           (\<lambda>(h, out, ok, a). Done (ok, a, s\<lparr>http_listener := h,
              trace := (trace s)\<lparr>pound_calls := Suc (pound_calls (trace s)),
                                 pound_log := pound_log (trace s) @ out\<rparr>\<rparr>)))"

section \<open>Writing to \<open>/proc/net/xt_recent/\<close>\<close>

text \<open>
  \<open>open\<close> and \<open>write\<close> on a table's file. When \<open>open\<close> fails unchecked, the \<open>write\<close> on descriptor -1
  fails.
\<close>

definition proc_write :: "world \<Rightarrow> string \<Rightarrow> string \<Rightarrow> io_trace \<Rightarrow> bool \<times> io_trace" where
  "proc_write w path data t =
     (let ok = fst (proc_io w (proc_calls t)) \<and> snd (proc_io w (proc_calls t))
      in (ok, t\<lparr>proc_calls := Suc (proc_calls t),
                proc_log := (if ok then proc_log t @ [(path, data)] else proc_log t)\<rparr>))"

definition proc_path :: "string \<Rightarrow> string" where
  "proc_path n = c_str (''/proc/net/xt_recent/'' @ n)"

definition entry_update :: "string \<Rightarrow> xt_recent_entry \<Rightarrow> string" where
  "entry_update ip e =
     ''*'' @ ip @ '';'' @ to_string_s (get_ttl e) @ '';'' @
     concat (map (\<lambda>nstamps. to_string_u nstamps @ '';'') (sort (timestamps e)))"

fun write_entries :: "world \<Rightarrow> string \<Rightarrow> (string \<times> xt_recent_entry) list \<Rightarrow> io_trace \<Rightarrow> bool \<times> io_trace" where
  "write_entries w path [] t = (True, t)"
| "write_entries w path ((ip, e) # es) t =
     (case proc_write w path (entry_update ip e) t of
        (True, t) \<Rightarrow> write_entries w path es t
      | (False, t) \<Rightarrow> (False, t))"

fun write_tables :: "world \<Rightarrow> (string \<times> xt_recent_table) list \<Rightarrow> io_trace \<Rightarrow> bool \<times> io_trace" where
  "write_tables w [] t = (True, t)"
| "write_tables w ((n, table) # ts) t =
     (if length (entries table) < 1 then write_tables w ts t
      else (case proc_write w (proc_path n) ''/'' t of
              (False, t) \<Rightarrow> (False, t)
            | (True, t) \<Rightarrow>
                (case write_entries w (proc_path n) (entries table) t of
                   (False, t) \<Rightarrow> (False, t)
                 | (True, t) \<Rightarrow> write_tables w ts t)))"

definition write_recent_all :: "world \<Rightarrow> 'a base_sync_scheme \<Rightarrow> bool \<times> 'a base_sync_scheme" where
  "write_recent_all w s =
     (let (ok, t) = write_tables w (recent_data s) (trace s) in (ok, s\<lparr>trace := t\<rparr>))"

text \<open>\<open>write_recent_data\<close> goes on after a failed entry, and takes the path from the table's own name.\<close>

fun write_each :: "world \<Rightarrow> string \<Rightarrow> (string \<times> xt_recent_entry) list \<Rightarrow> io_trace \<Rightarrow> io_trace" where
  "write_each w path [] t = t"
| "write_each w path ((ip, e) # es) t =
     write_each w path es (snd (proc_write w path (entry_update ip e) t))"

definition write_recent_data :: "world \<Rightarrow> string \<Rightarrow> 'a base_sync_scheme \<Rightarrow> int \<times> 'a base_sync_scheme" where
  "write_recent_data w n s =
     (case mget (recent_data s) n of
        None \<Rightarrow> (- 2, s)
      | Some table \<Rightarrow>
          (case proc_write w (proc_path (table_name table)) ''/'' (trace s) of
             (False, t) \<Rightarrow> (- 1, s\<lparr>trace := t\<rparr>)
           | (True, t) \<Rightarrow>
               (0, s\<lparr>trace := write_each w (proc_path (table_name table)) (entries table) t\<rparr>)))"

text \<open>\<open>clear_recent_data\<close> empties a copy of the table and flushes the kernel's one.\<close>

definition clear_recent_data :: "world \<Rightarrow> string \<Rightarrow> 'a base_sync_scheme \<Rightarrow> int \<times> 'a base_sync_scheme" where
  "clear_recent_data w n s =
     (case mget (recent_data s) n of
        None \<Rightarrow> (- 2, s)
      | Some table \<Rightarrow>
          (case proc_write w (proc_path (table_name table)) ''/'' (trace s) of
             (False, t) \<Rightarrow> (- 1, s\<lparr>trace := t\<rparr>)
           | (True, t) \<Rightarrow> (0, s\<lparr>trace := t\<rparr>)))"

definition clear_all_recent_data :: "world \<Rightarrow> 'a base_sync_scheme \<Rightarrow> 'a base_sync_scheme" where
  "clear_all_recent_data w s = foldl (\<lambda>s (n, _). snd (clear_recent_data w n s)) s (recent_data s)"

section \<open>The listeners\<close>

definition start_recent_sync :: "'a base_sync_scheme \<Rightarrow> 'a base_sync_scheme" where
  "start_recent_sync s =
     s\<lparr>recent_data := [], recent_listener := recent_sync_start (recent_listener s)\<rparr>"

definition stop_recent_sync :: "'a base_sync_scheme \<Rightarrow> 'a base_sync_scheme" where
  "stop_recent_sync s = s\<lparr>recent_listener := recent_sync_stop (recent_listener s)\<rparr>"

definition is_http_sync_running :: "'a base_sync_scheme \<Rightarrow> bool" where
  "is_http_sync_running s = http_running (http_listener s)"

definition is_recent_sync_running :: "'a base_sync_scheme \<Rightarrow> bool" where
  "is_recent_sync_running s = recent_running (recent_listener s)"

definition start_http_sync :: "world \<Rightarrow> bool \<Rightarrow> 'a base_sync_scheme \<Rightarrow> bool \<times> 'a base_sync_scheme" where
  "start_http_sync w clear_data s =
     (let s = (if clear_data then s\<lparr>http_session_data := []\<rparr> else s);
          (h, init_ok) = http_init (http_listener s)
      in if \<not> init_ok then (False, s\<lparr>http_listener := h\<rparr>)
         else (let (h, start_ok) = http_start (thread_ok w) h
               in if \<not> start_ok then (False, s\<lparr>http_listener := h\<rparr>)
                  else (True, s\<lparr>http_listener := h\<rparr>)))"

definition stop_http_sync :: "'a base_sync_scheme \<Rightarrow> 'a base_sync_scheme" where
  "stop_http_sync s = s\<lparr>http_listener := http_stop (http_listener s)\<rparr>"

definition add_http_listener_farm ::
    "world \<Rightarrow> farm_io \<Rightarrow> string \<Rightarrow> 'a base_sync_scheme \<Rightarrow> (bool \<times> 'a base_sync_scheme) run" where
  "add_http_listener_farm w io n s =
     run_bind (add_farm (open_action w) io n (http_listener s))
       (\<lambda>(h, ok). Done (ok, s\<lparr>http_listener := h\<rparr>))"

definition remove_http_listener_farm :: "world \<Rightarrow> string \<Rightarrow> 'a base_sync_scheme \<Rightarrow> bool \<times> 'a base_sync_scheme" where
  "remove_http_listener_farm w n s =
     (let (h, ok) = remove_farm (open_action w) n (http_listener s) in (ok, s\<lparr>http_listener := h\<rparr>))"

section \<open>Writing the HTTP sessions to the farms\<close>

text \<open>The sessions of a store in the order of the nested loops: farm, listener, service, session.\<close>

definition store_sessions :: "http_store \<Rightarrow> (string \<times> u32 \<times> u32 \<times> http_session) list" where
  "store_sessions d =
     concat (map (\<lambda>(farm, listeners).
       concat (map (\<lambda>(lst, services).
         concat (map (\<lambda>(srv, svc). map (\<lambda>(_, ss). (farm, lst, srv, ss)) (sessions svc)) services))
       listeners)) d)"

fun write_sessions ::
    "world \<Rightarrow> (string \<times> u32 \<times> u32 \<times> http_session) list \<Rightarrow> http_action \<Rightarrow> 'a base_sync_scheme \<Rightarrow>
     'a base_sync_scheme run" where
  "write_sessions w [] a s = Done s"
| "write_sessions w ((farm, lst, srv, ss) # rest) a s =
     (let a = a\<lparr>listener := lst, service := srv, session := ss, backend := backend_id ss\<rparr>
      in run_bind (pound_send w farm a s) (\<lambda>(ok, a, s). write_sessions w rest a s))"

definition write_http_data :: "world \<Rightarrow> 'a base_sync_scheme \<Rightarrow> (bool \<times> 'a base_sync_scheme) run" where
  "write_http_data w s =
     (let s = (if \<not> http_running (http_listener s) then snd (start_http_sync w False s) else s)
      in if http_running (http_listener s)
         then run_bind (write_sessions w (store_sessions (http_session_data s))
                ((new_http_action (open_action w))\<lparr>http_act := SESS_WRITE\<rparr>) s) (\<lambda>s. Done (True, s))
         else Done (False, s))"

definition clear_http :: "'a base_sync_scheme \<Rightarrow> 'a base_sync_scheme" where
  "clear_http s = s\<lparr>http_session_data := clear_http_data (http_session_data s)\<rparr>"

section \<open>Starting and stopping\<close>

definition base_start :: "'a base_sync_scheme \<Rightarrow> 'a base_sync_scheme" where
  "base_start s = s\<lparr>http_session_data := [], recent_data := [], worker_running := True\<rparr>"

definition base_stop :: "'a base_sync_scheme \<Rightarrow> 'a base_sync_scheme" where
  "base_stop s =
     (let s = s\<lparr>worker_running := False\<rparr>;
          s = (if http_running (http_listener s) then stop_http_sync s else s);
          s = (if recent_running (recent_listener s) then stop_recent_sync s else s)
      in s\<lparr>conn := conn_stop (conn s)\<rparr>)"

text \<open>The destructor: the same in another order; \<open>is_running\<close> is not touched.\<close>

definition base_destroy :: "'a base_sync_scheme \<Rightarrow> 'a base_sync_scheme" where
  "base_destroy s =
     (let s = s\<lparr>conn := conn_stop (conn s)\<rparr>;
          s = (if http_running (http_listener s) then stop_http_sync s else s)
      in if recent_running (recent_listener s) then stop_recent_sync s else s)"

text \<open>
  The first part of the worker's thread: connection attempts while the worker is running and the
  connection is not. An attempt is the memory of the event data, the socket, the result and the
  socket options. \<open>Diverges\<close>: still not connected after these attempts.
\<close>

type_synonym attempt = "byte list \<times> int \<times> connect_result \<times> bool"

fun connect_loop :: "attempt list \<Rightarrow> 'a base_sync_scheme \<Rightarrow> 'a base_sync_scheme run" where
  "connect_loop attempts s =
     (if worker_running s \<and> \<not> conn_running (conn s) then
        (case attempts of
           [] \<Rightarrow> Diverges
         | (mem, sock, res, options_ok) # rest \<Rightarrow>
             run_bind (conn_start mem sock res options_ok (conn s))
               (\<lambda>c. connect_loop rest (s\<lparr>conn := c\<rparr>)))
      else Done s)"

declare connect_loop.simps [simp del]

definition base_run :: "'a base_sync_scheme \<Rightarrow> 'a base_sync_scheme" where
  "base_run s = s\<lparr>worker_running := True\<rparr>"

section \<open>What is written to the kernel\<close>

definition table_writes :: "string \<times> xt_recent_table \<Rightarrow> (string \<times> string) list" where
  "table_writes = (\<lambda>(n, table). if entries table = [] then []
     else (proc_path n, ''/'') # map (\<lambda>(ip, e). (proc_path n, entry_update ip e)) (entries table))"

lemma proc_write_log:
  "proc_log (snd (proc_write w path data t)) =
     proc_log t @ (if fst (proc_write w path data t) then [(path, data)] else [])"
  by (simp add: proc_write_def Let_def)

lemma proc_write_True: "proc_write w path data t = (True, t') \<Longrightarrow> proc_log t' = proc_log t @ [(path, data)]"
  using proc_write_log [of w path data t] by simp

lemma proc_write_False: "proc_write w path data t = (False, t') \<Longrightarrow> proc_log t' = proc_log t"
  using proc_write_log [of w path data t] by simp

lemma write_entries_True:
  "write_entries w path es t = (True, t') \<Longrightarrow>
   proc_log t' = proc_log t @ map (\<lambda>(ip, e). (path, entry_update ip e)) es"
  by (induction w path es t rule: write_entries.induct)
    (auto dest: proc_write_True split: prod.splits bool.splits)

lemma write_tables_True:
  "write_tables w ts t = (True, t') \<Longrightarrow> proc_log t' = proc_log t @ concat (map table_writes ts)"
proof (induction w ts t rule: write_tables.induct)
  case (2 w n table ts t)
  show ?case
  proof (cases "entries table = []")
    case True
    with 2 show ?thesis by (simp add: table_writes_def)
  next
    case False
    with 2(3) obtain t1 t2 where s: "proc_write w (proc_path n) ''/'' t = (True, t1)"
      "write_entries w (proc_path n) (entries table) t1 = (True, t2)" "write_tables w ts t2 = (True, t')"
      by (auto split: prod.splits bool.splits)
    with 2(2) [OF _ s(1) [symmetric] refl s(2) [symmetric] refl s(3)] False show ?thesis
      by (simp add: table_writes_def proc_write_True write_entries_True)
  qed
qed simp

text \<open>A failure stops the write, with a prefix of the same sequence written.\<close>

lemma write_entries_prefix:
  "write_entries w path es t = (ok, t') \<Longrightarrow>
   \<exists>k. proc_log t' = proc_log t @ take k (map (\<lambda>(ip, e). (path, entry_update ip e)) es)"
proof (induction w path es t arbitrary: ok t' rule: write_entries.induct)
  case (2 w path ip e es t)
  show ?case
  proof (cases "proc_write w path (entry_update ip e) t")
    case (Pair ok1 t1)
    show ?thesis
    proof (cases ok1)
      case True
      with 2 Pair obtain k where
        "proc_log t' = proc_log t1 @ take k (map (\<lambda>(ip, e). (path, entry_update ip e)) es)" by force
      with True Pair show ?thesis by (intro exI [of _ "Suc k"]) (simp add: proc_write_True)
    next
      case False
      with 2 Pair show ?thesis by (intro exI [of _ 0]) (simp add: proc_write_False)
    qed
  qed
qed (auto intro: exI [of _ 0])

lemma write_tables_prefix:
  "write_tables w ts t = (ok, t') \<Longrightarrow>
   \<exists>k. proc_log t' = proc_log t @ take k (concat (map table_writes ts))"
proof (induction w ts t arbitrary: ok t' rule: write_tables.induct)
  case step: (2 w n table ts t)
  let ?es = "map (\<lambda>(ip, e). (proc_path n, entry_update ip e)) (entries table)"
  show ?case
  proof (cases "entries table = []")
    case True
    with step show ?thesis by (simp add: table_writes_def)
  next
    case False
    then have tw: "table_writes (n, table) = (proc_path n, ''/'') # ?es" by (simp add: table_writes_def)
    obtain ok1 t1 where w1: "proc_write w (proc_path n) ''/'' t = (ok1, t1)" by force
    obtain ok2 t2 where w2: "write_entries w (proc_path n) (entries table) t1 = (ok2, t2)" by force
    consider "\<not> ok1" | "ok1" "\<not> ok2" | "ok1" "ok2" by blast
    then show ?thesis
    proof cases
      case 1
      with step(3) False w1 show ?thesis by (intro exI [of _ 0]) (simp add: proc_write_False)
    next
      case 2
      from write_entries_prefix [OF w2] obtain k where "proc_log t2 = proc_log t1 @ take k ?es" by blast
      moreover have "take (Suc (min k (length ?es))) (concat (map table_writes ((n, table) # ts))) =
          (proc_path n, ''/'') # take k ?es"
        by (cases "k \<le> length ?es"; simp add: tw)
      moreover have "t' = t2" using 2 step(3) False w1 w2 by simp
      moreover have "proc_log t1 = proc_log t @ [(proc_path n, ''/'')]"
        using 2(1) w1 by (simp add: proc_write_True)
      ultimately show ?thesis by (metis append.assoc append_Cons append_Nil)
    next
      case 3
      then have ok: "write_tables w ts t2 = (ok, t')" using step(3) False w1 w2 by simp
      have "ok1 = True" "ok2 = True" using 3 by auto
      then obtain k where "proc_log t' = proc_log t2 @ take k (concat (map table_writes ts))"
        using step(2) [OF _ w1 [symmetric] _ w2 [symmetric] _ ok] False by auto
      with 3 w1 w2 show ?thesis
        by (intro exI [of _ "length (table_writes (n, table)) + k"])
          (simp add: proc_write_True write_entries_True tw)
    qed
  qed
qed (auto intro: exI [of _ 0])

lemma write_entries_ok:
  "(\<And>i. proc_io w i = (True, True)) \<Longrightarrow> fst (write_entries w path es t)"
  by (induction w path es t rule: write_entries.induct)
    (auto simp: proc_write_def Let_def split: prod.splits bool.splits)

lemma write_tables_ok:
  "(\<And>i. proc_io w i = (True, True)) \<Longrightarrow> fst (write_tables w ts t)"
proof (induction ts arbitrary: t)
  case (Cons a ts)
  obtain n table where a: "a = (n, table)" by force
  obtain t1 where w1: "proc_write w (proc_path n) ''/'' t = (True, t1)"
    using Cons.prems by (simp add: proc_write_def Let_def)
  obtain t2 where "write_entries w (proc_path n) (entries table) t1 = (True, t2)"
    using write_entries_ok [OF Cons.prems] by (metis prod.collapse eq_fst_iff)
  with Cons w1 show ?case by (simp add: a)
qed simp

lemma write_each_log:
  "(\<And>i. proc_io w i = (True, True)) \<Longrightarrow>
   proc_log (write_each w path es t) = proc_log t @ map (\<lambda>(ip, e). (path, entry_update ip e)) es"
  by (induction w path es t rule: write_each.induct) (auto simp: proc_write_def Let_def)

lemma clear_recent_data_keeps [simp]:
  "recent_data (snd (clear_recent_data w n s)) = recent_data s"
  by (simp add: clear_recent_data_def split: option.split prod.split bool.split)

lemma clear_all_keeps [simp]: "recent_data (clear_all_recent_data w s) = recent_data s"
proof -
  have "recent_data (foldl (\<lambda>s (n, _). snd (clear_recent_data w n s)) s ts) = recent_data s"
    for ts :: "(string \<times> xt_recent_table) list"
    by (induction ts arbitrary: s) auto
  then show ?thesis by (simp add: clear_all_recent_data_def)
qed

section \<open>Life cycle\<close>

lemma base_stop_stopped:
  "worker_running (base_stop s) = False" "conn_running (conn (base_stop s)) = False"
  "http_running (http_listener (base_stop s)) = False"
  "recent_running (recent_listener (base_stop s)) = False"
  "recent_data (base_stop s) = recent_data s" "http_session_data (base_stop s) = http_session_data s"
  by (simp_all add: base_stop_def Let_def stop_http_sync_def stop_recent_sync_def http_stop_def
      recent_sync_stop_def conn_stop_def)

lemma connect_loop_Done:
  "connect_loop attempts s = Done s' \<Longrightarrow> worker_running s' \<longrightarrow> conn_running (conn s')"
proof (induction attempts arbitrary: s)
  case Nil
  then show ?case by (subst (asm) connect_loop.simps) (auto split: if_splits)
next
  case (Cons a attempts)
  then show ?case
    by (subst (asm) connect_loop.simps)
      (auto simp: run_bind_Done split: if_splits prod.splits)
qed

lemma start_http_sync_running:
  "thread_ok w \<Longrightarrow> fst (start_http_sync w b s) \<and> http_running (http_listener (snd (start_http_sync w b s)))"
  by (simp add: start_http_sync_def http_init_def http_start_def Let_def)

section \<open>Properties\<close>

text \<open>C22: when \<open>write_recent_all\<close> succeeds, it has written to the kernel, table by table in order and for
  the non-empty tables only, the flush and then one line per entry with its time stamps in increasing
  order; it succeeds when the system lets every call through, and otherwise stops after a prefix of that
  sequence.\<close>

theorem write_recent_all_sequence:
  "\<exists>k. proc_log (trace (snd (write_recent_all w s))) =
      proc_log (trace s) @ take k (concat (map table_writes (recent_data s))) \<and>
    (fst (write_recent_all w s) \<longrightarrow> length (concat (map table_writes (recent_data s))) \<le> k) \<and>
    ((\<forall>i. proc_io w i = (True, True)) \<longrightarrow> fst (write_recent_all w s))"
proof -
  obtain ok t where r: "write_tables w (recent_data s) (trace s) = (ok, t)" by force
  have ok: "(\<forall>i. proc_io w i = (True, True)) \<longrightarrow> ok"
    using write_tables_ok [of w "recent_data s" "trace s"] r by simp
  have f: "write_recent_all w s = (ok, s\<lparr>trace := t\<rparr>)" by (simp add: write_recent_all_def r)
  show ?thesis
  proof (cases ok)
    case True
    with write_tables_True [of w "recent_data s" "trace s" t] r show ?thesis
      by (intro exI [of _ "length (concat (map table_writes (recent_data s)))"]) (simp add: f)
  next
    case False
    from write_tables_prefix [OF r] obtain k where
      "proc_log t = proc_log (trace s) @ take k (concat (map table_writes (recent_data s)))" by blast
    with False ok show ?thesis by (intro exI [of _ k]) (auto simp: f)
  qed
qed

definition sample_world :: world where
  "sample_world = \<lparr>link_net = \<lambda>_ _. replicate 65535 (Sent 1),
     pound_net = \<lambda>_. (\<lparr>io_socket = None, io_connect = False, io_getfl = False, io_setfl = False,
                        io_epoll = False, io_mem = []\<rparr>, []),
     proc_io = \<lambda>_. (True, True), thread_ok = True, open_action = sample_http\<rparr>"

text \<open>A store with an empty table and one whose entry has its stamps out of order.\<close>

definition filled_base :: base_sync where
  "filled_base = (new_base_sync False False (new_client 0))
     \<lparr>recent_data := [(''old'', new_xt_recent_table),
        (''ssh'', new_xt_recent_table\<lparr>entries :=
           [(''10.0.0.1'', sample_entry\<lparr>src_ip := ''10.0.0.1'', ttl := 63, timestamps := [9, 4]\<rparr>)]\<rparr>)]\<rparr>"

lemma filled_writes:
  "concat (map table_writes (recent_data filled_base)) =
     [(proc_path ''ssh'', ''/''), (proc_path ''ssh'', ''*10.0.0.1;63;4;9;'')]"
proof -
  have t: "to_string_s (63 :: s32) = ''63''" "to_string_u (4 :: u64) = ''4''" "to_string_u (9 :: u64) = ''9''"
    by code_simp+
  have "get_ttl (sample_entry\<lparr>src_ip := ''10.0.0.1'', ttl := 63, timestamps := [9, 4]\<rparr>) = 63"
    by (simp add: get_ttl_def)
  then show ?thesis
    by (simp add: filled_base_def table_writes_def entry_update_def t)
qed

theorem write_recent_all_sequence_witness:
  "fst (write_recent_all sample_world filled_base) \<and>
   proc_log (trace (snd (write_recent_all sample_world filled_base))) =
     [(proc_path ''ssh'', ''/''), (proc_path ''ssh'', ''*10.0.0.1;63;4;9;'')]"
proof -
  have "proc_log (trace filled_base) = []" by (simp add: filled_base_def new_base_sync_def no_trace_def)
  moreover have "\<forall>i. proc_io sample_world i = (True, True)" by (simp add: sample_world_def)
  moreover note write_recent_all_sequence [of sample_world filled_base]
  ultimately show ?thesis by (auto simp: filled_writes)
qed

text \<open>Clearing a recent table, or all of them, flushes the kernel's table but leaves the daemon's own
  store as it was: only a copy is emptied.\<close>

theorem clear_recent_keeps_store:
  "recent_data (snd (clear_recent_data w n s)) = recent_data s \<and>
   recent_data (clear_all_recent_data w s) = recent_data s \<and>
   (fst (clear_recent_data w n s) = 0 \<longleftrightarrow> mhas (recent_data s) n \<and>
      proc_log (trace (snd (clear_recent_data w n s))) = proc_log (trace s) @
        [(proc_path (table_name (mref new_xt_recent_table (recent_data s) n)), ''/'')])"
proof (intro conjI)
  show "fst (clear_recent_data w n s) = 0 \<longleftrightarrow> mhas (recent_data s) n \<and>
      proc_log (trace (snd (clear_recent_data w n s))) = proc_log (trace s) @
        [(proc_path (table_name (mref new_xt_recent_table (recent_data s) n)), ''/'')]"
  proof (cases "mget (recent_data s) n")
    case None
    then show ?thesis by (simp add: clear_recent_data_def mhas_def)
  next
    case (Some table)
    obtain ok t where p: "proc_write w (proc_path (table_name table)) ''/'' (trace s) = (ok, t)" by force
    with Some show ?thesis
      by (cases ok) (auto simp: clear_recent_data_def mhas_def mref_def dest: proc_write_True proc_write_False)
  qed
qed simp_all

text \<open>The reused action differs from a fresh one for the session in the length only.\<close>

definition session_action :: "http_action \<Rightarrow> http_action_type \<Rightarrow> int \<Rightarrow> string \<times> u32 \<times> u32 \<times> http_session \<Rightarrow> http_action" where
  "session_action u act fd = (\<lambda>(farm, lst, srv, ss).
     (new_http_action u)\<lparr>http_act := act, listener := lst, service := srv, session := ss,
        backend := backend_id ss, pkt_fd := fd, farm_name := farm\<rparr>)"

definition reusable :: "http_action \<Rightarrow> http_action_type \<Rightarrow> http_action \<Rightarrow> bool" where
  "reusable u act a \<longleftrightarrow> pkt_type a = HTTP_SYNC \<and> http_act a = act \<and>
     header_1 a = header_1 (new_http_action u) \<and> header_2 a = header_2 (new_http_action u)"

lemma new_http_action_simps [simp]:
  "pkt_type (new_http_action u) = HTTP_SYNC" "header_1 (new_http_action u) = 0xef"
  "header_2 (new_http_action u) = 0xab" "pkt_fd (new_http_action u) = - 1"
  by (simp_all add: new_http_action_def conn_packet.extend_def new_typed_packet_def)

lemma http_wire_eqI:
  assumes "header_1 a = header_1 b" "header_2 a = header_2 b" "pkt_type a = pkt_type b" "http_act a = http_act b"
    "farm_name a = farm_name b" "listener a = listener b" "service a = service b" "backend a = backend b"
    "session a = session b"
  shows "http_wire (Http_pkt a) = http_wire (Http_pkt b)" and "http_good (Http_pkt a) = http_good (Http_pkt b)"
  using assms by (simp_all add: http_wire_def http_fields_def size_header_def http_good_def)

text \<open>The farms take what is written to them.\<close>

definition farms_take :: "world \<Rightarrow> bool" where
  "farms_take w \<longleftrightarrow> (\<forall>i data. data \<noteq> [] \<longrightarrow> length data \<le> 65535 \<longrightarrow>
     handle_send data (snd (pound_net w i)) = (data, Some True))"

lemma http_wire_length: "http_good p \<Longrightarrow> http_wire p \<noteq> [] \<and> length (http_wire p) \<le> 65535"
  by (erule http_goodE) (auto simp: size_header_def)

lemma pound_send_delivers:
  assumes "farms_take w" and "http_good (Http_pkt (a\<lparr>farm_name := n\<rparr>))"
    and "get_farm_fd n (http_listener s) \<noteq> 0"
  shows "\<exists>len. pound_send w n a s = Done (True,
      a\<lparr>pkt_fd := get_farm_fd n (http_listener s), farm_name := n, pkt_len := len\<rparr>,
      s\<lparr>trace := (trace s)\<lparr>pound_calls := Suc (pound_calls (trace s)),
        pound_log := pound_log (trace s) @
          [(get_farm_fd n (http_listener s), http_wire (Http_pkt (a\<lparr>farm_name := n\<rparr>)))]\<rparr>\<rparr>)"
proof -
  let ?a = "a\<lparr>pkt_fd := get_farm_fd n (http_listener s), farm_name := n\<rparr>"
  have g: "http_good (Http_pkt ?a)" using assms(2) by (simp add: http_good_def)
  then obtain out p where ser: "http_serialize (Http_pkt ?a) = Serialized out (length (http_wire (Http_pkt ?a))) p"
    and w: "take (length (http_wire (Http_pkt ?a))) out = http_wire (Http_pkt ?a)"
    using http.serialize_good by blast
  from ser obtain len where p: "p = Http_pkt (?a\<lparr>pkt_len := len\<rparr>)"
    by (auto simp: http_serialize_def Let_def split: if_splits)
  have wire: "http_wire (Http_pkt ?a) = http_wire (Http_pkt (a\<lparr>farm_name := n\<rparr>))"
    by (rule http_wire_eqI) simp_all
  obtain io rs where net: "pound_net w (pound_calls (trace s)) = (io, rs)" by force
  have "handle_send (http_wire (Http_pkt ?a)) rs = (http_wire (Http_pkt ?a), Some True)"
    using assms(1) http_wire_length [OF g] unfolding farms_take_def by (metis net snd_conv)
  moreover have "\<not> HTTP_MAX_PACKET_SIZE < length out"
    using http_serialize_room [OF ser] http_wire_length [OF g] by (simp add: HTTP_MAX_PACKET_SIZE_def)
  ultimately show ?thesis
    using assms(3) ser w p net
    by (intro exI [of _ len]) (simp add: pound_send_def send_pound_action_def Let_def wire)
qed

lemma write_sessions_delivers:
  assumes "farms_take w" and "\<forall>(n, l, v, ss) \<in> set xs. get_farm_fd n (http_listener s) \<noteq> 0"
    and "\<forall>x \<in> set xs. http_good (Http_pkt (session_action u act 0 x))" and "reusable u act a"
  shows "\<exists>s'. write_sessions w xs a s = Done s' \<and> http_listener s' = http_listener s \<and>
    http_session_data s' = http_session_data s \<and>
    pound_log (trace s') = pound_log (trace s) @
      map (\<lambda>x. (get_farm_fd (fst x) (http_listener s), http_wire (Http_pkt (session_action u act 0 x)))) xs"
  using assms(2-4)
proof (induction xs arbitrary: s a)
  case (Cons x xs)
  obtain farm lst srv ss where x: "x = (farm, lst, srv, ss)" by (metis prod_cases4)
  let ?a = "a\<lparr>listener := lst, service := srv, session := ss, backend := backend_id ss\<rparr>"
  have same: "http_wire (Http_pkt (?a\<lparr>farm_name := farm\<rparr>)) = http_wire (Http_pkt (session_action u act 0 x))"
    "http_good (Http_pkt (?a\<lparr>farm_name := farm\<rparr>)) = http_good (Http_pkt (session_action u act 0 x))"
    using Cons.prems(3) by (intro http_wire_eqI; simp add: session_action_def x reusable_def)+
  have "http_good (Http_pkt (?a\<lparr>farm_name := farm\<rparr>))" "get_farm_fd farm (http_listener s) \<noteq> 0"
    using Cons.prems(1,2) same by (auto simp: x)
  from pound_send_delivers [OF assms(1) this] obtain len where
    p: "pound_send w farm ?a s = Done (True,
      ?a\<lparr>pkt_fd := get_farm_fd farm (http_listener s), farm_name := farm, pkt_len := len\<rparr>,
      s\<lparr>trace := (trace s)\<lparr>pound_calls := Suc (pound_calls (trace s)),
        pound_log := pound_log (trace s) @
          [(get_farm_fd farm (http_listener s), http_wire (Http_pkt (?a\<lparr>farm_name := farm\<rparr>)))]\<rparr>\<rparr>)" by blast
  let ?a' = "?a\<lparr>pkt_fd := get_farm_fd farm (http_listener s), farm_name := farm, pkt_len := len\<rparr>"
  let ?s = "s\<lparr>trace := (trace s)\<lparr>pound_calls := Suc (pound_calls (trace s)),
        pound_log := pound_log (trace s) @
          [(get_farm_fd farm (http_listener s), http_wire (Http_pkt (?a\<lparr>farm_name := farm\<rparr>)))]\<rparr>\<rparr>"
  have r: "reusable u act ?a'" using Cons.prems(3) by (simp add: reusable_def)
  have "\<forall>(n, l, v, ss) \<in> set xs. get_farm_fd n (http_listener ?s) \<noteq> 0"
    "\<forall>x \<in> set xs. http_good (Http_pkt (session_action u act 0 x))"
    using Cons.prems(1,2) by auto
  from Cons.IH [OF this r] p show ?case
    using same(1) by (auto simp: x Let_def)
qed simp

text \<open>Writing the HTTP data with the listener running and every farm registered gives each farm a
  \<open>SESS_WRITE\<close> action for each of its stored sessions, in the order of the store.\<close>

theorem write_http_data_sequence:
  assumes "farms_take w" and "http_running (http_listener s)"
    and "\<forall>(n, l, v, ss) \<in> set (store_sessions (http_session_data s)). get_farm_fd n (http_listener s) \<noteq> 0"
    and "\<forall>x \<in> set (store_sessions (http_session_data s)).
      http_good (Http_pkt (session_action (open_action w) SESS_WRITE 0 x))"
  shows "\<exists>s'. write_http_data w s = Done (True, s') \<and> http_session_data s' = http_session_data s \<and>
    pound_log (trace s') = pound_log (trace s) @
      map (\<lambda>x. (get_farm_fd (fst x) (http_listener s),
               http_wire (Http_pkt (session_action (open_action w) SESS_WRITE 0 x))))
        (store_sessions (http_session_data s))"
proof -
  have "reusable (open_action w) SESS_WRITE ((new_http_action (open_action w))\<lparr>http_act := SESS_WRITE\<rparr>)"
    by (simp add: reusable_def)
  from write_sessions_delivers [OF assms(1,3,4) this] assms(2) show ?thesis
    by (auto simp: write_http_data_def)
qed

definition sample_backup :: base_sync where
  "sample_backup = (new_base_sync False False (sample_client (replicate MAX_PACKET_SIZE 0) 0))
     \<lparr>http_listener := sample_farms, worker_running := True,
      http_session_data := [(''web'', [(2, [(1, new_http_service\<lparr>sessions := [(''10.0.0.7'', sample_session)]\<rparr>)])])]\<rparr>"

lemma byte_by_byte: "data \<noteq> [] \<Longrightarrow> length data \<le> k \<Longrightarrow> handle_send data (replicate k (Sent 1)) = (data, Some True)"
proof (induction k arbitrary: data)
  case (Suc k)
  show ?case
  proof (cases "length data = 1")
    case False
    with Suc.prems have "drop 1 data \<noteq> []" "length (drop 1 data) \<le> k" by (cases data; auto)+
    from Suc.IH [OF this] False show ?thesis by (simp add: Let_def)
  qed simp
qed simp

theorem write_http_data_sequence_witness:
  "\<exists>s'. write_http_data (sample_world\<lparr>pound_net := \<lambda>_. (fst (pound_net sample_world 0), replicate 65535 (Sent 1))\<rparr>) sample_backup
      = Done (True, s') \<and>
    map fst (pound_log (trace s')) = [7]"
proof -
  let ?w = "sample_world\<lparr>pound_net := \<lambda>_. (fst (pound_net sample_world 0), replicate 65535 (Sent 1))\<rparr>"
  have t: "farms_take ?w" by (simp add: farms_take_def byte_by_byte [unfolded One_nat_def])
  have x: "store_sessions (http_session_data sample_backup) = [(''web'', 2, 1, sample_session)]"
    by (simp add: sample_backup_def store_sessions_def)
  have f: "get_farm_fd ''web'' (http_listener sample_backup) = 7" "http_running (http_listener sample_backup)"
    by (simp_all add: sample_backup_def sample_farms_def get_farm_fd_def new_http_sync_def)
  have g: "http_good (Http_pkt (session_action (open_action ?w) SESS_WRITE 0 (''web'', 2, 1, sample_session)))"
    by (simp add: session_action_def http_good_def http_action_of_byte_def sample_session_def)
  have "pound_log (trace sample_backup) = []"
    by (simp add: sample_backup_def new_base_sync_def no_trace_def)
  with write_http_data_sequence [OF t f(2)] f(1) g show ?thesis
    unfolding x by auto
qed

end
