(* ===== verification/Sync_Master.thy ===== *)
theory Sync_Master
  imports Base_Sync
begin

text \<open>
  \<open>sync/sync_master.h\<close> and \<open>.cpp\<close>: the worker of the master node. Its loop answers the backups'
  requests, takes at most ten actions of each listener per pass, applies them to its own stores and
  sends them to the backups.
\<close>

section \<open>State\<close>

text \<open>\<open>m_wait\<close> is the variable \<open>wait\<close> of the loop.\<close>

record sync_master = base_sync +
  backup_servers_fd :: int
  m_wait :: bool

definition new_sync_master :: "base_sync \<Rightarrow> sync_master" where
  "new_sync_master s = base_sync.extend s \<lparr>backup_servers_fd = 0, m_wait = True\<rparr>"

section \<open>A snapshot for a backup\<close>

text \<open>The entries of a store in the order of the nested loops.\<close>

definition store_entries :: "recent_store \<Rightarrow> (string \<times> xt_recent_entry) list" where
  "store_entries d = concat (map (\<lambda>(n, table). map (\<lambda>(_, e). (n, e)) (entries table)) d)"

fun send_entries ::
    "world \<Rightarrow> int \<Rightarrow> (string \<times> xt_recent_entry) list \<Rightarrow> 'a base_sync_scheme \<Rightarrow> (bool \<times> 'a base_sync_scheme) run" where
  "send_entries w fd [] m = Done (True, m)"
| "send_entries w fd ((n, e) # rest) m =
     run_bind (link_send w (Recent_pkt ((get_entry_as_action n e False)\<lparr>pkt_fd := fd\<rparr>)) m)
       (\<lambda>(ok, _, m). if \<not> ok then Done (False, m) else send_entries w fd rest m)"

definition handle_recent_sync ::
    "world \<Rightarrow> int \<Rightarrow> 'a base_sync_scheme \<Rightarrow> (bool \<times> 'a base_sync_scheme) run" where
  "handle_recent_sync w fd m = send_entries w fd (store_entries (recent_data m)) m"

text \<open>One \<open>http_action\<close> is reused for all sessions; the results of the sends are ignored.\<close>

fun send_sessions ::
    "world \<Rightarrow> int \<Rightarrow> (string \<times> u32 \<times> u32 \<times> http_session) list \<Rightarrow> http_action \<Rightarrow> 'a base_sync_scheme \<Rightarrow>
     'a base_sync_scheme run" where
  "send_sessions w fd [] a m = Done m"
| "send_sessions w fd ((farm, lst, srv, ss) # rest) a m =
     (let a = a\<lparr>listener := lst, service := srv, session := ss, backend := backend_id ss,
                pkt_fd := fd, farm_name := farm\<rparr>
      in run_bind (link_send w (Http_pkt a) m)
           (\<lambda>(ok, p, m). send_sessions w fd rest (case p of Http_pkt a \<Rightarrow> a | _ \<Rightarrow> a) m))"

definition handle_http_sync ::
    "world \<Rightarrow> int \<Rightarrow> 'a base_sync_scheme \<Rightarrow> (bool \<times> 'a base_sync_scheme) run" where
  "handle_http_sync w fd m =
     (if \<not> http_running (http_listener m) then Done (False, m)
      else run_bind (send_sessions w fd (store_sessions (http_session_data m))
             ((new_http_action (open_action w))\<lparr>http_act := SESS_ADD\<rparr>) m) (\<lambda>m. Done (True, m)))"

section \<open>A request of the input queue\<close>

definition master_request :: "world \<Rightarrow> packet \<Rightarrow> sync_master \<Rightarrow> sync_master run" where
  "master_request w req m =
     (case pkt_type (base_of req) of
        CONNECT \<Rightarrow> Done (m\<lparr>backup_servers_fd := backup_servers_fd m + 1\<rparr>)
      | SYNC_REQUEST \<Rightarrow>
          run_bind (if recent_running (recent_listener m)
                    then handle_recent_sync w (pkt_fd (base_of req)) m else Done (True, m))
            (\<lambda>(_, m). run_bind (if http_running (http_listener m)
                    then handle_http_sync w (pkt_fd (base_of req)) m else Done (True, m))
              (\<lambda>(_, m). Done m))
      | DISCONNECT \<Rightarrow> Done (m\<lparr>backup_servers_fd := backup_servers_fd m - 1\<rparr>)
      | _ \<Rightarrow> Done m)"

section \<open>HTTP actions\<close>

definition clear_request :: "world \<Rightarrow> string \<Rightarrow> http_action" where
  "clear_request w n =
     (new_http_action (open_action w))\<lparr>pkt_fd := - 1, farm_name := n, http_act := CLEAR_DATA\<rparr>"

text \<open>The listener stopped while sessions are stored: the backups are told farm by farm.\<close>

fun send_clears :: "world \<Rightarrow> (string \<times> farm_store) list \<Rightarrow> sync_master \<Rightarrow> sync_master run" where
  "send_clears w [] m = Done m"
| "send_clears w ((n, _) # rest) m =
     run_bind (link_send w (Http_pkt (clear_request w n)) m) (\<lambda>(_, _, m). send_clears w rest m)"

definition http_gone :: "world \<Rightarrow> sync_master \<Rightarrow> sync_master run" where
  "http_gone w m =
     run_bind (send_clears w (http_session_data m) m) (\<lambda>m. Done ((clear_http m)\<lparr>m_wait := True\<rparr>))"

text \<open>A farm that connected or disconnected; a connected farm is asked for its sessions.\<close>

definition farm_changed :: "world \<Rightarrow> http_action \<Rightarrow> sync_master \<Rightarrow> sync_master run" where
  "farm_changed w pkt m =
     run_bind (link_send w (Http_pkt (clear_request w (farm_name pkt))) m)
       (\<lambda>(_, _, m).
          let m = m\<lparr>http_session_data := clear_http_farm_data (farm_name pkt) (http_session_data m)\<rparr>
          in if pkt_type pkt = CONNECT
             then run_bind (pound_send w (farm_name pkt)
                    ((new_http_action (open_action w))\<lparr>pkt_fd := pkt_fd pkt, http_act := HTTP_SYNC_REQUEST\<rparr>) m)
                    (\<lambda>(_, _, m). Done m)
             else Done m)"

definition http_item :: "world \<Rightarrow> http_action \<Rightarrow> sync_master \<Rightarrow> sync_master run" where
  "http_item w pkt m =
     (let (d, ok) = apply_http_action (Some pkt) (http_session_data m);
          m = m\<lparr>http_session_data := d\<rparr>
      in if \<not> ok then Done m
         else if 0 < backup_servers_fd m
         then run_bind (link_send w (Http_pkt (pkt\<lparr>pkt_fd := - 1\<rparr>)) m) (\<lambda>(_, _, m). Done m)
         else Done m)"

definition try_http :: "sync_master \<Rightarrow> http_action option \<times> sync_master" where
  "try_http m =
     (let (p, q) = try_dequeue (http_input (http_listener m))
      in (p, m\<lparr>http_listener := (http_listener m)\<lparr>http_input := q\<rparr>\<rparr>))"

text \<open>
  The loop; connections and disconnections do not count. \<open>None\<close>: it does not end (\<open>send_pound_action\<close>
  can queue a new connection while it runs).
\<close>

partial_function (option) http_pass :: "world \<Rightarrow> nat \<Rightarrow> sync_master \<Rightarrow> sync_master run option" where
  "http_pass w max_items m =
     (if max_items = 10 then Some (Done (m\<lparr>m_wait := False\<rparr>))
      else (case try_http m of
        (None, m) \<Rightarrow> Some (Done (m\<lparr>m_wait := True\<rparr>))
      | (Some pkt, m) \<Rightarrow>
          if 10 < max_items then Some (Done (m\<lparr>m_wait := True\<rparr>))
          else if pkt_type pkt = CONNECT \<or> pkt_type pkt = DISCONNECT then
            (case farm_changed w pkt m of
               Done m \<Rightarrow> http_pass w max_items m
             | r \<Rightarrow> Some r)
          else
            (case http_item w pkt m of
               Done m \<Rightarrow> http_pass w (Suc max_items) m
             | r \<Rightarrow> Some r)))"

section \<open>Recent actions\<close>

definition recent_item :: "world \<Rightarrow> xt_recent_action \<Rightarrow> sync_master \<Rightarrow> sync_master run" where
  "recent_item w pkt m =
     (let (d, ok) = apply_recent_action pkt (recent_data m);
          m = m\<lparr>recent_data := d\<rparr>
      in if 0 < backup_servers_fd m
         then run_bind (link_send w (Recent_pkt pkt) m) (\<lambda>(_, _, m). Done m)
         else Done m)"

definition try_recent :: "sync_master \<Rightarrow> xt_recent_action option \<times> sync_master" where
  "try_recent m =
     (let (p, q) = try_dequeue (recent_input (recent_listener m))
      in (p, m\<lparr>recent_listener := (recent_listener m)\<lparr>recent_input := q\<rparr>\<rparr>))"

text \<open>The first argument is \<open>10 - max_items\<close>.\<close>

fun recent_pass :: "world \<Rightarrow> nat \<Rightarrow> sync_master \<Rightarrow> sync_master run" where
  "recent_pass w 0 m = Done (m\<lparr>m_wait := False\<rparr>)"
| "recent_pass w (Suc n) m =
     (case try_recent m of
        (None, m) \<Rightarrow> Done m
      | (Some pkt, m) \<Rightarrow> run_bind (recent_item w pkt m) (recent_pass w n))"

section \<open>The loop\<close>

definition master_http :: "world \<Rightarrow> sync_master \<Rightarrow> sync_master run" where
  "master_http w m =
     (if \<not> http_running (http_listener m) \<and> http_session_data m \<noteq> [] then http_gone w m
      else if http_running (http_listener m)
      then (case http_pass w 0 m of None \<Rightarrow> Diverges | Some r \<Rightarrow> r)
      else Done (m\<lparr>m_wait := True\<rparr>))"

definition master_recent :: "world \<Rightarrow> sync_master \<Rightarrow> sync_master run" where
  "master_recent w m = (if recent_running (recent_listener m) then recent_pass w 10 m else Done m)"

text \<open>One pass through the body of \<open>while (this->is_running)\<close>.\<close>

definition master_pass :: "world \<Rightarrow> sync_master \<Rightarrow> sync_master run" where
  "master_pass w m =
     (case get_packet_nowait (conn m) of
        (Some req, c) \<Rightarrow> master_request w req (m\<lparr>conn := c\<rparr>)
      | (None, c) \<Rightarrow>
          (let m = m\<lparr>conn := c\<rparr>
           in if m_wait m \<or> \<not> recent_running (recent_listener m) \<and> \<not> http_running (http_listener m)
              then Done (m\<lparr>m_wait := False\<rparr>)
              else run_bind (master_http w m) (master_recent w)))"

text \<open>
  Between two passes the other threads queue what arrived; the flag is the value of \<open>is_running\<close> that
  the loop condition reads.
\<close>

type_synonym arrivals = "packet list \<times> http_action list \<times> xt_recent_action list \<times> bool"

definition arrive :: "packet list \<Rightarrow> http_action list \<Rightarrow> xt_recent_action list \<Rightarrow> sync_master \<Rightarrow> sync_master" where
  "arrive ps hs rs m =
     m\<lparr>conn := (conn m)\<lparr>input_packet_queue := foldl enqueue (input_packet_queue (conn m)) ps\<rparr>,
       http_listener := (http_listener m)\<lparr>http_input := foldl enqueue (http_input (http_listener m)) hs\<rparr>,
       recent_listener := (recent_listener m)
         \<lparr>recent_input := foldl enqueue (recent_input (recent_listener m)) rs\<rparr>\<rparr>"

fun master_loop :: "world \<Rightarrow> arrivals list \<Rightarrow> sync_master \<Rightarrow> sync_master run" where
  "master_loop w [] m = Done m"
| "master_loop w ((ps, hs, rs, running) # as) m =
     (if running then run_bind (master_pass w (arrive ps hs rs m)) (master_loop w as) else Done m)"

definition master_run :: "world \<Rightarrow> arrivals list \<Rightarrow> sync_master \<Rightarrow> sync_master run" where
  "master_run w as m =
     (if \<not> conn_running (conn m) then Done m
      else
        (let m = base_run m;
             m = m\<lparr>http_listener := (http_listener m)\<lparr>is_listener := True\<rparr>, m_wait := True\<rparr>
         in master_loop w as m))"

section \<open>Sends that the network takes\<close>

text \<open>
  The peers take what is sent to them: whatever is sent, the results of \<open>send\<close> let the loop finish.
\<close>

definition net_delivers :: "world \<Rightarrow> bool" where
  "net_delivers w \<longleftrightarrow> (\<forall>i d data. data \<noteq> [] \<longrightarrow> length data \<le> 65535 \<longrightarrow>
     handle_send data (link_net w i d) = (data, Some True))"

lemma byte_by_byte_delivers: "(\<And>i d. link_net w i d = replicate 65535 (Sent 1)) \<Longrightarrow> net_delivers w"
  unfolding net_delivers_def using byte_by_byte by simp

definition link_up :: "'a base_sync_scheme \<Rightarrow> bool" where
  "link_up m \<longleftrightarrow> conn_running (conn m) \<and> (is_server (conn m) \<longrightarrow> connected_nodes (conn m) \<noteq> [])"

definition logged :: "(int \<times> byte list) list \<Rightarrow> 'a base_sync_scheme \<Rightarrow> 'a base_sync_scheme" where
  "logged out m = m\<lparr>trace := (trace m)\<lparr>link_calls := Suc (link_calls (trace m)),
     link_log := link_log (trace m) @ out\<rparr>\<rparr>"

definition to_peers :: "'a base_sync_scheme \<Rightarrow> packet \<Rightarrow> (int \<times> byte list) list" where
  "to_peers m p = map (\<lambda>d. (d, link_wire p)) (recipients (conn m) p)"

lemma logged_frame [simp]:
  "conn (logged out m) = conn m" "http_listener (logged out m) = http_listener m"
  "recent_listener (logged out m) = recent_listener m" "recent_data (logged out m) = recent_data m"
  "http_session_data (logged out m) = http_session_data m" "worker_running (logged out m) = worker_running m"
  "link_log (trace (logged out m)) = link_log (trace m) @ out"
  "pound_log (trace (logged out m)) = pound_log (trace m)" "proc_log (trace (logged out m)) = proc_log (trace m)"
  by (simp_all add: logged_def)

lemma logged_master [simp]:
  "backup_servers_fd (logged out m) = backup_servers_fd m" "m_wait (logged out m) = m_wait m"
  by (simp_all add: logged_def)

lemma link_send_Done:
  assumes "link_send w p m = Done (ok, p', m')"
  obtains out where "m' = logged out m"
    "send_packet pkt_serialize (conn m) p (link_net w (link_calls (trace m))) = Done (out, ok, p')"
  using assms by (auto simp: link_send_def logged_def run_bind_Done)

lemma link_wire_length: "link_good p \<Longrightarrow> link_wire p \<noteq> [] \<and> length (link_wire p) \<le> 65535"
  by (erule link_headerE) (auto simp: size_header_def)

lemma send_all_delivers:
  assumes "\<And>d. handle_send data (net d) = (data, Some True)"
  shows "send_all ds data net = (map (\<lambda>d. (d, data)) ds, Some True)"
  by (induction ds) (simp_all add: assms)

lemma link_send_delivers:
  assumes "net_delivers w" and "link_good p" and "link_up m"
  shows "\<exists>p'. link_send w p m = Done (True, p', logged (to_peers m p) m)"
proof -
  let ?p = "if is_server (conn m) then p else set_pkt_fd (listen_fd (conn m)) p"
  have g: "link_good ?p" and w: "link_wire ?p = link_wire p" using assms(2) by simp_all
  from g obtain to_send p' where ser: "pkt_serialize ?p = Serialized to_send (length (link_wire ?p)) p'"
    and t: "take (length (link_wire ?p)) to_send = link_wire ?p"
    using link.serialize_good by blast
  have d: "handle_send (link_wire p) (link_net w i d) = (link_wire p, Some True)" for i d
    using assms(1) link_wire_length [OF assms(2)] by (simp add: net_delivers_def)
  have fd: "pkt_fd (base_of p') = pkt_fd (base_of ?p)" using ser by (rule pkt_fd_unchanged)
  have up: "\<not> (is_server (conn m) \<and> connected_nodes (conn m) = [])" "conn_running (conn m)"
    using assms(3) by (auto simp: link_up_def)
  have fits: "\<not> MAX_PACKET_SIZE < length to_send"
    using pkt_serialize_room [OF g ser] by (simp add: MAX_PACKET_SIZE_def)
  have "send_packet pkt_serialize (conn m) p (link_net w (link_calls (trace m))) =
      Done (to_peers m p, True, p')"
    using up fits ser t unfolding send_packet_def w
    by (simp add: Let_def send_all_delivers [OF d] to_peers_def recipients_def fd)
  then show ?thesis by (simp add: link_send_def logged_def)
qed

section \<open>A pass over the recent actions\<close>

lemma try_recent_simps:
  "recent_input (recent_listener m) = [] \<Longrightarrow> try_recent m = (None, m)"
  "recent_input (recent_listener m) = a # as \<Longrightarrow> try_recent m =
     (Some a, m\<lparr>recent_listener := (recent_listener m)\<lparr>recent_input := as\<rparr>\<rparr>)"
  by (simp_all add: try_recent_def)

lemma recent_item_Done:
  assumes "recent_item w a m = Done m'"
  shows "recent_data m' = fst (apply_recent_action a (recent_data m)) \<and>
    recent_listener m' = recent_listener m \<and> conn m' = conn m \<and> http_listener m' = http_listener m \<and>
    http_session_data m' = http_session_data m \<and> backup_servers_fd m' = backup_servers_fd m"
  using assms
  by (auto simp: recent_item_def Let_def run_bind_Done split: prod.splits if_splits elim!: link_send_Done)

text \<open>The pass takes the first ten actions, or all of them, and applies them in order.\<close>

lemma recent_pass_Done:
  assumes "recent_pass w n m = Done m'"
  shows "recent_data m' = apply_recent_actions (take n (recent_input (recent_listener m))) (recent_data m) \<and>
    recent_input (recent_listener m') = drop n (recent_input (recent_listener m)) \<and>
    conn m' = conn m \<and> http_listener m' = http_listener m \<and> http_session_data m' = http_session_data m \<and>
    backup_servers_fd m' = backup_servers_fd m"
  using assms
proof (induction n arbitrary: m)
  case 0
  then show ?case by auto
next
  case (Suc n)
  show ?case
  proof (cases "recent_input (recent_listener m)")
    case Nil
    with Suc.prems show ?thesis by (simp add: try_recent_simps)
  next
    case (Cons a as)
    let ?m = "m\<lparr>recent_listener := (recent_listener m)\<lparr>recent_input := as\<rparr>\<rparr>"
    from Cons Suc.prems obtain m1 where "recent_item w a ?m = Done m1" "recent_pass w n m1 = Done m'"
      by (auto simp: try_recent_simps run_bind_Done)
    with Suc.IH [of m1] recent_item_Done [of w a ?m m1] Cons show ?thesis by simp
  qed
qed

text \<open>While a backup is connected and takes what it is sent, each of them goes out to all backups.\<close>

definition broadcast :: "connection \<Rightarrow> packet list \<Rightarrow> (int \<times> byte list) list" where
  "broadcast c ps = concat (map (\<lambda>p. map (\<lambda>d. (d, link_wire p)) (recipients c p)) ps)"

lemma recent_item_delivers:
  assumes "net_delivers w" and "link_good (Recent_pkt a)" and "link_up m" and "0 < backup_servers_fd m"
  shows "\<exists>m'. recent_item w a m = Done m' \<and>
    link_log (trace m') = link_log (trace m) @ broadcast (conn m) [Recent_pkt a]"
proof -
  let ?m = "m\<lparr>recent_data := fst (apply_recent_action a (recent_data m))\<rparr>"
  have "link_up ?m" using assms(3) by (simp add: link_up_def)
  from link_send_delivers [OF assms(1,2) this] assms(4) show ?thesis
    by (auto simp: recent_item_def Let_def case_prod_beta broadcast_def to_peers_def)
qed

lemma recent_pass_delivers:
  assumes "net_delivers w" and "\<forall>a \<in> set (recent_input (recent_listener m)). link_good (Recent_pkt a)"
    and "link_up m" and "0 < backup_servers_fd m"
  shows "\<exists>m'. recent_pass w n m = Done m' \<and>
    link_log (trace m') = link_log (trace m) @
      broadcast (conn m) (map Recent_pkt (take n (recent_input (recent_listener m))))"
  using assms(2-4)
proof (induction n arbitrary: m)
  case 0
  then show ?case by (simp add: broadcast_def)
next
  case (Suc n)
  show ?case
  proof (cases "recent_input (recent_listener m)")
    case Nil
    then show ?thesis by (simp add: try_recent_simps broadcast_def)
  next
    case (Cons a as)
    let ?m = "m\<lparr>recent_listener := (recent_listener m)\<lparr>recent_input := as\<rparr>\<rparr>"
    have "link_good (Recent_pkt a)" "link_up ?m" "0 < backup_servers_fd ?m"
      using Suc.prems Cons by (auto simp: link_up_def)
    from recent_item_delivers [OF assms(1) this] obtain m1 where m1: "recent_item w a ?m = Done m1"
      "link_log (trace m1) = link_log (trace m) @ broadcast (conn m) [Recent_pkt a]" by auto
    from recent_item_Done [OF m1(1)] have f: "recent_listener m1 = recent_listener ?m" "conn m1 = conn m"
      "backup_servers_fd m1 = backup_servers_fd m" by auto
    have "link_up m1" using Suc.prems(2) by (simp add: link_up_def f)
    moreover have "\<forall>a \<in> set (recent_input (recent_listener m1)). link_good (Recent_pkt a)"
      using Suc.prems(1) Cons f by simp
    ultimately obtain m2 where "recent_pass w n m1 = Done m2"
      "link_log (trace m2) = link_log (trace m1) @ broadcast (conn m1) (map Recent_pkt (take n as))"
      using Suc.IH [of m1] Suc.prems(3) f by auto
    with Cons m1 f show ?thesis by (simp add: try_recent_simps broadcast_def)
  qed
qed

section \<open>A pass over the HTTP actions\<close>

definition farm_news :: "http_action \<Rightarrow> bool" where
  "farm_news a \<longleftrightarrow> pkt_type a = CONNECT \<or> pkt_type a = DISCONNECT"

lemma try_http_simps:
  "http_input (http_listener m) = [] \<Longrightarrow> try_http m = (None, m)"
  "http_input (http_listener m) = a # as \<Longrightarrow> try_http m =
     (Some a, m\<lparr>http_listener := (http_listener m)\<lparr>http_input := as\<rparr>\<rparr>)"
  by (simp_all add: try_http_def)

lemma http_item_Done:
  assumes "http_item w a m = Done m'"
  shows "http_session_data m' = fst (apply_http_action (Some a) (http_session_data m)) \<and>
    recent_listener m' = recent_listener m \<and> conn m' = conn m \<and> http_listener m' = http_listener m \<and>
    recent_data m' = recent_data m \<and> backup_servers_fd m' = backup_servers_fd m"
proof -
  obtain d ok where d: "apply_http_action (Some a) (http_session_data m) = (d, ok)" by force
  with apply_http_flag [of a "http_session_data m"] have "ok" by simp
  with assms d show ?thesis
    by (auto simp: http_item_def Let_def run_bind_Done split: if_splits elim!: link_send_Done)
qed

lemma http_pass_plain:
  assumes "http_pass w k m = Some (Done m')" and "k \<le> 10"
    and "\<forall>a \<in> set (http_input (http_listener m)). \<not> farm_news a"
  shows "http_session_data m' =
      apply_http_actions (take (10 - k) (http_input (http_listener m))) (http_session_data m) \<and>
    http_input (http_listener m') = drop (10 - k) (http_input (http_listener m)) \<and>
    conn m' = conn m \<and> recent_data m' = recent_data m \<and> recent_listener m' = recent_listener m \<and>
    backup_servers_fd m' = backup_servers_fd m"
  using assms
proof (induction "10 - k" arbitrary: k m)
  case 0
  then have "k = 10" by simp
  with 0 show ?case by (subst (asm) http_pass.simps) (auto simp del: apply_http_flag)
next
  case (Suc n)
  then have k: "k \<noteq> 10" "\<not> 10 < k" "n = 10 - Suc k" "Suc k \<le> 10" by auto
  show ?case
  proof (cases "http_input (http_listener m)")
    case Nil
    with Suc.prems(1) k show ?thesis by (subst (asm) http_pass.simps) (auto simp: try_http_simps)
  next
    case (Cons a as)
    let ?m = "m\<lparr>http_listener := (http_listener m)\<lparr>http_input := as\<rparr>\<rparr>"
    have plain: "pkt_type a \<noteq> CONNECT" "pkt_type a \<noteq> DISCONNECT"
      using Suc.prems(3) Cons by (auto simp: farm_news_def)
    from Suc.prems(1) k Cons plain have
      "(case http_item w a ?m of Done m \<Rightarrow> http_pass w (Suc k) m | r \<Rightarrow> Some r) = Some (Done m')"
      by (subst (asm) http_pass.simps) (simp add: try_http_simps)
    then obtain m1 where m1: "http_item w a ?m = Done m1" "http_pass w (Suc k) m1 = Some (Done m')"
      by (auto split: run.splits)
    from http_item_Done [OF m1(1)] have f: "http_listener m1 = http_listener ?m" "conn m1 = conn m"
      "http_session_data m1 = fst (apply_http_action (Some a) (http_session_data m))"
      "recent_data m1 = recent_data m" "recent_listener m1 = recent_listener m"
      "backup_servers_fd m1 = backup_servers_fd m" by auto
    have "\<forall>a \<in> set (http_input (http_listener m1)). \<not> farm_news a"
      using Suc.prems(3) Cons f by simp
    from Suc.hyps(1) [OF k(3) m1(2) k(4) this] f Cons Suc.hyps(2) k(3) show ?thesis
      by (auto simp flip: Suc.hyps(2))
  qed
qed

lemma http_item_delivers:
  assumes "net_delivers w" and "link_good (Http_pkt a)" and "link_up m" and "0 < backup_servers_fd m"
  shows "\<exists>m'. http_item w a m = Done m' \<and>
    link_log (trace m') = link_log (trace m) @ broadcast (conn m) [Http_pkt (a\<lparr>pkt_fd := - 1\<rparr>)]"
proof -
  obtain d ok where d: "apply_http_action (Some a) (http_session_data m) = (d, ok)" by force
  with apply_http_flag [of a "http_session_data m"] have ok: "ok" by simp
  let ?m = "m\<lparr>http_session_data := d\<rparr>"
  have "link_up ?m" using assms(3) by (simp add: link_up_def)
  moreover have "link_good (Http_pkt (a\<lparr>pkt_fd := - 1\<rparr>))"
    using assms(2) link_good_set_fd [of "- 1" "Http_pkt a"] by simp
  ultimately show ?thesis
    using link_send_delivers [OF assms(1), of "Http_pkt (a\<lparr>pkt_fd := - 1\<rparr>)" ?m] assms(4) d ok
    by (auto simp: http_item_def Let_def broadcast_def to_peers_def)
qed

lemma http_pass_delivers:
  assumes "net_delivers w" and "k \<le> 10" and "link_up m" and "0 < backup_servers_fd m"
    and "\<forall>a \<in> set (http_input (http_listener m)). \<not> farm_news a \<and> link_good (Http_pkt a)"
  shows "\<exists>m'. http_pass w k m = Some (Done m') \<and>
    link_log (trace m') = link_log (trace m) @ broadcast (conn m)
      (map (\<lambda>a. Http_pkt (a\<lparr>pkt_fd := - 1\<rparr>)) (take (10 - k) (http_input (http_listener m))))"
  using assms(2-5)
proof (induction "10 - k" arbitrary: k m)
  case 0
  then have "k = 10" by simp
  with 0 show ?case by (subst http_pass.simps) (simp add: broadcast_def)
next
  case (Suc n)
  then have k: "k \<noteq> 10" "\<not> 10 < k" "n = 10 - Suc k" "Suc k \<le> 10" by auto
  show ?case
  proof (cases "http_input (http_listener m)")
    case Nil
    with k show ?thesis by (subst http_pass.simps) (simp add: try_http_simps broadcast_def)
  next
    case (Cons a as)
    let ?m = "m\<lparr>http_listener := (http_listener m)\<lparr>http_input := as\<rparr>\<rparr>"
    have a: "link_good (Http_pkt a)" "link_up ?m" "0 < backup_servers_fd ?m"
      "pkt_type a \<noteq> CONNECT" "pkt_type a \<noteq> DISCONNECT"
      using Suc.prems Cons by (auto simp: link_up_def farm_news_def)
    from http_item_delivers [OF assms(1) a(1-3)] obtain m1 where m1: "http_item w a ?m = Done m1"
      "link_log (trace m1) = link_log (trace m) @ broadcast (conn m) [Http_pkt (a\<lparr>pkt_fd := - 1\<rparr>)]" by auto
    from http_item_Done [OF m1(1)] have f: "http_listener m1 = http_listener ?m" "conn m1 = conn m"
      "backup_servers_fd m1 = backup_servers_fd m" by auto
    have "link_up m1" using Suc.prems(2) by (simp add: link_up_def f)
    moreover have "\<forall>a \<in> set (http_input (http_listener m1)). \<not> farm_news a \<and> link_good (Http_pkt a)"
      using Suc.prems(4) Cons f by simp
    ultimately obtain m2 where m2: "http_pass w (Suc k) m1 = Some (Done m2)"
      "link_log (trace m2) = link_log (trace m1) @ broadcast (conn m1)
        (map (\<lambda>a. Http_pkt (a\<lparr>pkt_fd := - 1\<rparr>)) (take n as))"
      using Suc.hyps(1) [OF k(3,4), of m1] Suc.prems(3) f k(3) by auto
    have "http_pass w k m = Some (Done m2)"
      using k a Cons m1(1) m2(1) by (subst http_pass.simps) (simp add: try_http_simps)
    moreover have "take (10 - k) (http_input (http_listener m)) = a # take n as"
      using Cons by (simp flip: Suc.hyps(2))
    ultimately show ?thesis
      using m1(2) m2(2) f(2) by (auto simp: broadcast_def)
  qed
qed

section \<open>The snapshot\<close>

lemma send_entries_delivers:
  assumes "net_delivers w" and "link_up m" and "is_server (conn m)" and "fd \<noteq> - 1"
    and "\<forall>(n, e) \<in> set es. link_good (Recent_pkt (get_entry_as_action n e False))"
  shows "\<exists>m'. send_entries w fd es m = Done (True, m') \<and>
    link_log (trace m') = link_log (trace m) @
      map (\<lambda>(n, e). (fd, link_wire (Recent_pkt (get_entry_as_action n e False)))) es \<and>
    recent_data m' = recent_data m \<and> http_session_data m' = http_session_data m \<and> conn m' = conn m"
  using assms(2,3,5)
proof (induction es arbitrary: m)
  case (Cons x es)
  obtain n e where x: "x = (n, e)" by force
  let ?p = "Recent_pkt (get_entry_as_action n e False)"
  have good: "link_good (set_pkt_fd fd ?p)"
    unfolding link_good_set_fd using Cons.prems(3) x by simp
  from link_send_delivers [OF assms(1) good Cons.prems(1)] obtain p' where
    p': "link_send w (set_pkt_fd fd ?p) m = Done (True, p', logged (to_peers m (set_pkt_fd fd ?p)) m)" by blast
  have out: "to_peers m (set_pkt_fd fd ?p) = [(fd, link_wire ?p)]"
    using Cons.prems(2) assms(4) unfolding to_peers_def recipients_def link_wire_set_fd by simp
  have "link_up (logged (to_peers m (set_pkt_fd fd ?p)) m)" using Cons.prems(1) by (simp add: link_up_def)
  from Cons.IH [OF this] Cons.prems(2,3) x p' out show ?case by auto
qed simp

lemma link_send_http:
  assumes "link_send w (Http_pkt a) m = Done (ok, p', m')" and "is_server (conn m)"
    and "pkt_type a = HTTP_SYNC"
  shows "\<exists>len. p' = Http_pkt (a\<lparr>pkt_len := len\<rparr>)"
proof -
  have keep: "\<exists>len. a = a\<lparr>pkt_len := len\<rparr>" by (rule exI [of _ "pkt_len a"]) simp
  from assms(1) obtain out where
    "send_packet pkt_serialize (conn m) (Http_pkt a) (link_net w (link_calls (trace m))) = Done (out, ok, p')"
    by (rule link_send_Done)
  with assms(2,3) keep show ?thesis
    by (auto simp: send_packet_def Let_def pkt_serialize_def get_packet_parser_def parser_serialize_def
        http_serialize_def split: if_splits prod.splits option.splits)
qed

lemma link_http: "pkt_type a = HTTP_SYNC \<Longrightarrow> link_good (Http_pkt a) = http_good (Http_pkt a)"
  "pkt_type a = HTTP_SYNC \<Longrightarrow> link_wire (Http_pkt a) = http_wire (Http_pkt a)"
  by (simp_all add: link_good_def link_wire_def get_packet_parser_def)

lemma send_sessions_delivers:
  assumes "net_delivers w" and "link_up m" and "is_server (conn m)" and "fd \<noteq> - 1"
    and "\<forall>x \<in> set xs. http_good (Http_pkt (session_action u act fd x))" and "reusable u act a"
  shows "\<exists>m'. send_sessions w fd xs a m = Done m' \<and>
    link_log (trace m') = link_log (trace m) @
      map (\<lambda>x. (fd, http_wire (Http_pkt (session_action u act fd x)))) xs \<and>
    recent_data m' = recent_data m \<and> http_session_data m' = http_session_data m \<and> conn m' = conn m"
  using assms(2,3,5,6)
proof (induction xs arbitrary: m a)
  case (Cons x xs)
  obtain farm lst srv ss where x: "x = (farm, lst, srv, ss)" by (metis prod_cases4)
  let ?a = "a\<lparr>listener := lst, service := srv, session := ss, backend := backend_id ss,
    pkt_fd := fd, farm_name := farm\<rparr>"
  have t: "pkt_type ?a = HTTP_SYNC" using Cons.prems(4) by (simp add: reusable_def)
  have same: "http_wire (Http_pkt ?a) = http_wire (Http_pkt (session_action u act fd x))"
    "http_good (Http_pkt ?a) = http_good (Http_pkt (session_action u act fd x))"
    using Cons.prems(4)
    by (intro http_wire_eqI; simp add: session_action_def x reusable_def)+
  then have "link_good (Http_pkt ?a)" using Cons.prems(3) t by (simp add: link_http)
  from link_send_delivers [OF assms(1) this Cons.prems(1)] obtain p' where
    p': "link_send w (Http_pkt ?a) m = Done (True, p', logged (to_peers m (Http_pkt ?a)) m)" by blast
  from link_send_http [OF this Cons.prems(2) t] obtain len where len: "p' = Http_pkt (?a\<lparr>pkt_len := len\<rparr>)"
    by blast
  have out: "to_peers m (Http_pkt ?a) = [(fd, http_wire (Http_pkt (session_action u act fd x)))]"
    using Cons.prems(2) assms(4) same t by (simp add: to_peers_def recipients_def link_http)
  have "link_up (logged (to_peers m (Http_pkt ?a)) m)" using Cons.prems(1) by (simp add: link_up_def)
  moreover have "reusable u act (?a\<lparr>pkt_len := len\<rparr>)" using Cons.prems(4) by (simp add: reusable_def)
  ultimately obtain m2 where
    "send_sessions w fd xs (?a\<lparr>pkt_len := len\<rparr>) (logged (to_peers m (Http_pkt ?a)) m) = Done m2"
    "link_log (trace m2) = link_log (trace m) @ to_peers m (Http_pkt ?a) @
      map (\<lambda>x. (fd, http_wire (Http_pkt (session_action u act fd x)))) xs"
    "recent_data m2 = recent_data m" "http_session_data m2 = http_session_data m" "conn m2 = conn m"
    using Cons.IH [of "logged (to_peers m (Http_pkt ?a)) m" "?a\<lparr>pkt_len := len\<rparr>"] Cons.prems(2,3) by auto
  with p' len out show ?case by (simp add: x Let_def)
qed simp

end
