(* ===== verification/Sync_Backup.thy ===== *)
theory Sync_Backup
  imports Base_Sync
begin

text \<open>
  \<open>sync/sync_backup.h\<close> and \<open>.cpp\<close>: the worker of a backup node. It asks the master for a snapshot,
  applies the actions it receives to its stores and reconnects when the master is gone.
  \<open>on_master_close\<close> exists only in a C++17 build and is not modelled (the build sets C++11).
\<close>

section \<open>Operations\<close>

definition sync_request :: packet where
  "sync_request = Base_pkt (new_typed_packet SYNC_REQUEST)"

text \<open>
  The reconnection: stop, try again, and after a success forget the HTTP sessions and ask for a new
  snapshot. \<open>Diverges\<close>: still not connected after these attempts.
\<close>

fun reconnect :: "world \<Rightarrow> attempt list \<Rightarrow> 'a base_sync_scheme \<Rightarrow> 'a base_sync_scheme run" where
  "reconnect w attempts s =
     (if worker_running s \<and> \<not> conn_running (conn s) then
        (case attempts of
           [] \<Rightarrow> Diverges
         | (mem, sock, res, options_ok) # rest \<Rightarrow>
             run_bind (conn_start mem sock res options_ok (conn_stop (conn s)))
               (\<lambda>c. let s = s\<lparr>conn := c\<rparr>
                    in if conn_running (conn s)
                       then run_bind (link_send w sync_request (s\<lparr>http_session_data := []\<rparr>))
                              (\<lambda>(_, _, s). reconnect w rest s)
                       else reconnect w rest s))
      else Done s)"

declare reconnect.simps [simp del]

text \<open>The \<open>switch\<close> on the packet; the casts require the dynamic class to fit.\<close>

definition backup_apply :: "packet \<Rightarrow> 'a base_sync_scheme \<Rightarrow> 'a base_sync_scheme run" where
  "backup_apply pkt s =
     (case pkt_type (base_of pkt) of
        XT_RECENT_SYNC \<Rightarrow>
          (case pkt of
             Recent_pkt a \<Rightarrow> Done (s\<lparr>recent_data := fst (apply_recent_action a (recent_data s))\<rparr>)
           | _ \<Rightarrow> Fault)
      | HTTP_SYNC \<Rightarrow>
          (case pkt of
             Http_pkt a \<Rightarrow> Done (s\<lparr>http_session_data := fst (apply_http_action (Some a) (http_session_data s))\<rparr>)
           | _ \<Rightarrow> Fault)
      | _ \<Rightarrow> Done s)"

definition backup_packet ::
    "world \<Rightarrow> attempt list \<Rightarrow> packet \<Rightarrow> 'a base_sync_scheme \<Rightarrow> 'a base_sync_scheme run" where
  "backup_packet w attempts pkt s =
     run_bind (if pkt_type (base_of pkt) = DISCONNECT then reconnect w attempts s else Done s)
       (backup_apply pkt)"

text \<open>One pass of the loop; on an empty queue the thread sleeps in \<open>get_packet\<close>.\<close>

definition backup_pass :: "world \<Rightarrow> attempt list \<Rightarrow> 'a base_sync_scheme \<Rightarrow> 'a base_sync_scheme run" where
  "backup_pass w attempts s =
     (case get_packet_wait (conn s) of
        None \<Rightarrow> Done s
      | Some (pkt, c) \<Rightarrow> backup_packet w attempts pkt (s\<lparr>conn := c\<rparr>))"

fun backup_loop ::
    "world \<Rightarrow> (packet list \<times> attempt list \<times> bool) list \<Rightarrow> 'a base_sync_scheme \<Rightarrow> 'a base_sync_scheme run" where
  "backup_loop w [] s = Done s"
| "backup_loop w ((ps, attempts, running) # rounds) s =
     (if running
      then run_bind (backup_pass w attempts
             (s\<lparr>conn := (conn s)\<lparr>input_packet_queue := foldl enqueue (input_packet_queue (conn s)) ps\<rparr>\<rparr>))
             (backup_loop w rounds)
      else Done s)"

definition backup_run ::
    "world \<Rightarrow> (packet list \<times> attempt list \<times> bool) list \<Rightarrow> 'a base_sync_scheme \<Rightarrow> 'a base_sync_scheme run" where
  "backup_run w rounds s =
     (if \<not> conn_running (conn s) then Exits 1
      else run_bind (link_send w sync_request (base_run s))
        (\<lambda>(ok, _, s).
           if \<not> ok then Done s
           else backup_loop w rounds (s\<lparr>http_listener := (http_listener s)\<lparr>is_listener := False\<rparr>\<rparr>)))"

section \<open>Applying the packets of the queue\<close>

definition packet_fits :: "packet \<Rightarrow> bool" where
  "packet_fits p \<longleftrightarrow> (case p of Recent_pkt a \<Rightarrow> pkt_type a = XT_RECENT_SYNC
     | Http_pkt a \<Rightarrow> pkt_type a = HTTP_SYNC
     | _ \<Rightarrow> pkt_type (base_of p) \<notin> {DISCONNECT, XT_RECENT_SYNC, HTTP_SYNC})"

fun recents :: "packet list \<Rightarrow> xt_recent_action list" where
  "recents [] = []"
| "recents (Recent_pkt a # ps) = a # recents ps"
| "recents (_ # ps) = recents ps"

fun https :: "packet list \<Rightarrow> http_action list" where
  "https [] = []"
| "https (Http_pkt a # ps) = a # https ps"
| "https (_ # ps) = https ps"

text \<open>A pass per packet of the queue, while the worker runs and no master goes away.\<close>

definition quiet :: "nat \<Rightarrow> (packet list \<times> attempt list \<times> bool) list" where
  "quiet n = replicate n ([], [], True)"

lemma backup_apply_fits:
  assumes "packet_fits p"
  shows "backup_apply p s = Done (s\<lparr>recent_data := apply_recent_actions (recents [p]) (recent_data s),
    http_session_data := apply_http_actions (https [p]) (http_session_data s)\<rparr>)"
proof -
  have other: "(case t of XT_RECENT_SYNC \<Rightarrow> x | HTTP_SYNC \<Rightarrow> y | _ \<Rightarrow> z) = z"
    if "t \<noteq> XT_RECENT_SYNC" "t \<noteq> HTTP_SYNC" for t and x y z :: "'b base_sync_scheme run"
    using that by (cases t) auto
  show ?thesis
    using assms by (cases p) (auto simp: backup_apply_def packet_fits_def other)
qed

lemma backup_loop_applies:
  assumes "input_packet_queue (conn s) = ps @ qs" and "\<forall>p \<in> set ps. packet_fits p"
  shows "\<exists>s'. backup_loop w (quiet (length ps)) s = Done s' \<and>
    recent_data s' = apply_recent_actions (recents ps) (recent_data s) \<and>
    http_session_data s' = apply_http_actions (https ps) (http_session_data s) \<and>
    input_packet_queue (conn s') = qs \<and> trace s' = trace s"
  using assms
proof (induction ps arbitrary: s)
  case Nil
  then show ?case by (simp add: quiet_def)
next
  case (Cons p ps)
  let ?s = "s\<lparr>conn := (conn s)\<lparr>input_packet_queue := ps @ qs\<rparr>\<rparr>"
  have pass: "backup_pass w [] s = backup_apply p ?s"
    using Cons.prems
    by (auto simp: backup_pass_def get_packet_wait_def dequeue_def backup_packet_def packet_fits_def
        split: packet.splits)
  obtain s1 where s1: "backup_apply p ?s = Done s1" "conn s1 = conn ?s" "trace s1 = trace s"
    "recent_data s1 = apply_recent_actions (recents [p]) (recent_data s)"
    "http_session_data s1 = apply_http_actions (https [p]) (http_session_data s)"
    using Cons.prems(2) backup_apply_fits [of p ?s] by auto
  from Cons.IH [of s1] Cons.prems(2) s1 obtain s2 where
    "backup_loop w (quiet (length ps)) s1 = Done s2"
    "recent_data s2 = apply_recent_actions (recents ps) (recent_data s1)"
    "http_session_data s2 = apply_http_actions (https ps) (http_session_data s1)"
    "input_packet_queue (conn s2) = qs" "trace s2 = trace s1" by auto
  with pass s1 show ?case
    by (cases p) (auto simp: quiet_def)
qed

text \<open>A reconnection that ends with a connection has forgotten the sessions, and kept the tables.\<close>

lemma link_send_stores:
  assumes "link_send w p s = Done (ok, p', s')"
  shows "recent_data s' = recent_data s" "http_session_data s' = http_session_data s" "conn s' = conn s"
    "worker_running s' = worker_running s"
  using assms by (auto simp: link_send_def run_bind_Done)

lemma reconnect_Done:
  assumes "reconnect w attempts s = Done s'" and "worker_running s" and "\<not> conn_running (conn s)"
  shows "conn_running (conn s') \<and> worker_running s' \<and> http_session_data s' = [] \<and> recent_data s' = recent_data s"
  using assms
proof (induction attempts arbitrary: s)
  case Nil
  then show ?case by (subst (asm) reconnect.simps) simp
next
  case (Cons a rest)
  obtain mem sock res options_ok where a: "a = (mem, sock, res, options_ok)" by (metis prod_cases4)
  from Cons.prems obtain c where c: "conn_start mem sock res options_ok (conn_stop (conn s)) = Done c"
    by (subst (asm) reconnect.simps) (auto simp: a run_bind_Done)
  show ?case
  proof (cases "conn_running c")
    case True
    with Cons.prems c obtain ok p s1 where s1:
      "link_send w sync_request (s\<lparr>conn := c, http_session_data := []\<rparr>) = Done (ok, p, s1)"
      "reconnect w rest s1 = Done s'"
      by (subst (asm) reconnect.simps) (auto simp: a run_bind_Done)
    note st = link_send_stores [OF s1(1)]
    from s1(2) st True have "s' = s1" by (subst (asm) reconnect.simps) simp
    with st True Cons.prems(2) show ?thesis by simp
  next
    case False
    with Cons.prems c have "reconnect w rest (s\<lparr>conn := c\<rparr>) = Done s'"
      by (subst (asm) reconnect.simps) (auto simp: a)
    from Cons.IH [OF this] Cons.prems False show ?thesis by simp
  qed
qed

section \<open>Properties\<close>

text \<open>C35: a reconnection that returns while the worker runs has a connection again; it has forgotten
  every HTTP session and kept every recent table as it was, so that tables or entries that the master
  lost in the meantime stay in the backup.\<close>

theorem reconnect_keeps_tables_only:
  assumes "reconnect w attempts s = Done s'" and "worker_running s" and "\<not> conn_running (conn s)"
  shows "conn_running (conn s') \<and> worker_running s' \<and> http_session_data s' = [] \<and> recent_data s' = recent_data s"
  using assms by (rule reconnect_Done)

theorem reconnect_keeps_tables_only_witness:
  "\<exists>s'. reconnect (sample_world\<lparr>link_net := \<lambda>_ _. [Sent 5]\<rparr>) [([], 5, Connect_failed, True), ([], 6, Connected, True)]
      (sample_backup\<lparr>conn := new_client 5, recent_data := [(''ssh'', new_xt_recent_table)]\<rparr>) = Done s' \<and>
    http_session_data s' = [] \<and> recent_data s' = [(''ssh'', new_xt_recent_table)]"
proof -
  let ?w = "sample_world\<lparr>link_net := \<lambda>_ _. [Sent 5]\<rparr>"
  let ?s = "sample_backup\<lparr>conn := new_client 5, recent_data := [(''ssh'', new_xt_recent_table)]\<rparr>"
  let ?as = "[([], 5, Connect_failed, True), ([], 6, Connected, True)] :: attempt list"
  have run: "worker_running ?s" "\<not> conn_running (conn ?s)"
    by (simp_all add: sample_backup_def new_client_def)
  have sent: "\<exists>r. link_send ?w sync_request s = Done r" if "conn_running (conn s)" "\<not> is_server (conn s)" for s :: base_sync
    using that
    by (simp add: link_send_def send_packet_def sync_request_def pkt_serialize_def get_packet_parser_def Let_def
        parser_serialize_def base_parser_serialize_def base_serialize_def new_typed_packet_def
        MAX_PACKET_SIZE_def) blast
  have "\<exists>s'. reconnect ?w ?as ?s = Done s'"
  proof -
    let ?s2 = "?s\<lparr>conn := (new_client 6)\<lparr>conn_running := True, server_link := Some (new_event_data [] 6)\<rparr>\<rparr>"
    obtain ok p s3 where s3: "link_send ?w sync_request (?s2\<lparr>http_session_data := []\<rparr>) = Done (ok, p, s3)"
      using sent [of "?s2\<lparr>http_session_data := []\<rparr>"] by (auto simp: new_client_def)
    have up: "conn_running (conn s3)"
      using link_send_stores(3) [OF s3] by simp
    have "reconnect ?w ?as ?s = Done s3"
      using run s3 up
      by (simp add: reconnect.simps conn_start_def conn_stop_def new_client_def Let_def set_socket_options_def)
    then show ?thesis by blast
  qed
  with reconnect_keeps_tables_only [OF _ run] show ?thesis by auto
qed

end
