(* ===== verification/Replication.thy ===== *)
theory Replication
  imports Sync_Master Sync_Backup
begin

text \<open>
  From the master's stores over the wire to the backup's: the bytes a pass of the master sends, cut by
  TCP in any way, received by the backup's connection and applied by its loop, leave the two stores in
  correspondence. For the recent tables the backup's entries are the master's as the wire carries them
  (\<open>mirrors\<close>); for the HTTP sessions the stores are equal, as long as listener, service and backend
  numbers fit the one byte that is sent.
\<close>

section \<open>Correspondence of the recent tables\<close>

definition wire_entry :: "xt_recent_entry \<Rightarrow> xt_recent_entry" where
  "wire_entry e = entry_decoded e ADD_UPD_ENTRY e"

definition mirrors :: "recent_store \<Rightarrow> recent_store \<Rightarrow> bool" where
  "mirrors d d' \<longleftrightarrow> (\<forall>n k. recent_view d' n k = map_option wire_entry (recent_view d n k))"

text \<open>The action a backup takes from the wire.\<close>

definition wire_action :: "xt_recent_action \<Rightarrow> xt_recent_action \<Rightarrow> xt_recent_action" where
  "wire_action u a = (case recent_decoded u (Recent_pkt a) of Recent_pkt b \<Rightarrow> b | _ \<Rightarrow> a)"

lemma wire_action_simps [simp]:
  "recent_decoded u (Recent_pkt a) = Recent_pkt (wire_action u a)"
  "xt_table_name (wire_action u a) = xt_table_name a" "action (wire_action u a) = action a"
  "target_entry (wire_action u a) = entry_decoded (target_entry u) (action a) (target_entry a)"
  by (simp_all add: wire_action_def recent_decoded_def conn_packet.extend_def)

lemma wire_action_type [simp]: "pkt_type a = XT_RECENT_SYNC \<Longrightarrow> pkt_type (wire_action u a) = XT_RECENT_SYNC"
  by (simp add: wire_action_def recent_decoded_def conn_packet.extend_def packet_type_of_byte_def)

lemma entry_decoded_ip [simp]:
  "act = ADD_UPD_ENTRY \<or> act = DELETE_ENTRY \<Longrightarrow> src_ip (entry_decoded u act e) = src_ip e"
  by (auto simp: entry_decoded_def)

lemma entry_decoded_add: "entry_decoded u ADD_UPD_ENTRY e = wire_entry e"
  by (simp add: wire_entry_def entry_decoded_def)

lemma wire_entry_ip [simp]: "src_ip (wire_entry e) = src_ip e"
  by (simp add: wire_entry_def)

lemma mirrors_apply:
  assumes "mirrors d d'"
  shows "mirrors (fst (apply_recent_action a d)) (fst (apply_recent_action (wire_action u a) d'))"
  using assms
  by (cases "action a") (auto simp: mirrors_def recent_view_apply entry_decoded_add)

lemma mirrors_actions:
  "mirrors d d' \<Longrightarrow> mirrors (apply_recent_actions as d) (apply_recent_actions (map (wire_action u) as) d')"
  by (induction as arbitrary: d d') (auto simp: mirrors_apply)

section \<open>A snapshot of the recent tables\<close>

lemma store_entries_updates:
  assumes "recent_ok d" and "\<And>n e. action_update (act n e) = [(src_ip e, Some (f e))]"
    and "\<And>n e. xt_table_name (act n e) = n"
  shows "concat (map action_update (filter (\<lambda>a. xt_table_name a = n) (map (\<lambda>(n, e). act n e) (store_entries d)))) =
    map (\<lambda>(k, e). (k, Some (f e))) (known_entries d n)"
proof -
  have own: "concat (map action_update (map (\<lambda>(_, e). act n e) es)) = map (\<lambda>(k, e). (k, Some (f e))) es"
    if "entries_ok es" for es n
  proof -
    have "\<forall>(k, e) \<in> set es. src_ip e = k" using that by (simp add: entries_ok_def)
    then show ?thesis by (induction es) (auto simp: assms(2))
  qed
  have none: "filter (\<lambda>a. xt_table_name a = n) (map (\<lambda>(n, e). act n e) (store_entries d)) = []"
    if "n \<notin> fst ` set d" for d
    using that by (force simp: filter_empty_conv store_entries_def assms(3))
  show ?thesis
    using assms(1)
  proof (induction d)
    case Nil
    then show ?case by (simp add: store_entries_def known_entries_def mref_def)
  next
    case (Cons x d)
    obtain m t where x: "x = (m, t)" by force
    have ok: "entries_ok (entries t)" "recent_ok d" "m \<notin> fst ` set d"
      using Cons.prems by (auto simp: x recent_ok_def omap_ok_Cons)
    have se: "store_entries ((m, t) # d) = map (\<lambda>(_, e). (m, e)) (entries t) @ store_entries d"
      by (simp add: store_entries_def)
    show ?case
    proof (cases "n = m")
      case True
      then have "filter (\<lambda>a. xt_table_name a = n) (map (\<lambda>(n, e). act n e) (map (\<lambda>(_, e). (m, e)) (entries t)))
          = map (\<lambda>(_, e). act n e) (entries t)"
        by (auto simp: comp_def case_prod_beta filter_map assms(3))
      with True ok own [of "entries t" n] none [of d] show ?thesis
        by (simp add: se known_entries_def mref_def x)
    next
      case False
      then have "filter (\<lambda>a. xt_table_name a = n) (map (\<lambda>(n, e). act n e) (map (\<lambda>(_, e). (m, e)) (entries t))) = []"
        by (auto simp: filter_empty_conv assms(3))
      with False Cons.IH [OF ok(2)] show ?thesis
        by (simp add: se known_entries_def mref_def x)
    qed
  qed
qed

lemma snapshot_mirrors:
  assumes "recent_ok d"
  shows "mirrors d (apply_recent_actions
    (map (wire_action u) (map (\<lambda>(n, e). get_entry_as_action n e False) (store_entries d))) [])"
  unfolding mirrors_def
proof (intro allI)
  fix n k
  let ?act = "\<lambda>n e. wire_action u (get_entry_as_action n e False)"
  have m: "map (wire_action u) (map (\<lambda>(n, e). get_entry_as_action n e False) (store_entries d)) =
      map (\<lambda>(n, e). ?act n e) (store_entries d)"
    by (simp add: case_prod_beta comp_def)
  have add: "\<forall>a \<in> set (map (\<lambda>(n, e). ?act n e) (store_entries d)). action a = ADD_UPD_ENTRY \<or> action a = DELETE_ENTRY"
    by auto
  have upd: "concat (map action_update (filter (\<lambda>a. xt_table_name a = n) (map (\<lambda>(n, e). ?act n e) (store_entries d)))) =
      map (\<lambda>(k, e). (k, Some (wire_entry e))) (known_entries d n)"
    by (rule store_entries_updates [OF assms])
      (auto simp: action_update_def entry_decoded_add)
  have ok: "omap_ok (known_entries d n)"
    using known_entries_ok [OF assms] by (simp add: entries_ok_def)
  have "map_of (rev (map (\<lambda>(k, e). (k, Some (wire_entry e))) (known_entries d n))) k =
      map_option (\<lambda>e. Some (wire_entry e)) (recent_view d n k)"
  proof -
    have "distinct (map fst (map (\<lambda>(k, e). (k, Some (wire_entry e))) (known_entries d n)))"
      using omap_distinct [OF ok] by (simp add: case_prod_beta comp_def)
    then have "map_of (rev (map (\<lambda>(k, e). (k, Some (wire_entry e))) (known_entries d n))) k =
        map_of (map (\<lambda>(k, e). (k, Some (wire_entry e))) (known_entries d n)) k"
      by (rule map_of_rev_distinct)
    also have "\<dots> = map_option (\<lambda>e. Some (wire_entry e)) (recent_view d n k)"
      by (simp add: map_of_map recent_view_known mget_def)
    finally show ?thesis .
  qed
  then show "recent_view (apply_recent_actions (map (wire_action u)
      (map (\<lambda>(n, e). get_entry_as_action n e False) (store_entries d))) []) n k =
    map_option wire_entry (recent_view d n k)"
    unfolding m recent_view_actions [OF add] upd
    by (simp add: recent_view_def split: option.split)
qed

section \<open>From the sender's log to the receiver's stores\<close>

definition bytes_to :: "int \<Rightarrow> (int \<times> byte list) list \<Rightarrow> byte list" where
  "bytes_to d out = concat (map snd (filter (\<lambda>(x, _). x = d) out))"

lemma bytes_to_append [simp]: "bytes_to d (xs @ ys) = bytes_to d xs @ bytes_to d ys"
  by (simp add: bytes_to_def)

lemma bytes_to_one: "distinct ds \<Longrightarrow> bytes_to d (map (\<lambda>x. (x, bs)) ds) = (if d \<in> set ds then bs else [])"
  by (induction ds) (auto simp: bytes_to_def filter_map comp_def)

lemma bytes_to_broadcast:
  assumes "is_server c" and "omap_ok (connected_nodes c)" and "mhas (connected_nodes c) d"
    and "\<forall>p \<in> set ps. pkt_fd (base_of p) = - 1"
  shows "bytes_to d (broadcast c ps) = concat (map link_wire ps)"
  using assms(4)
proof (induction ps)
  case Nil
  then show ?case by (simp add: bytes_to_def broadcast_def)
next
  case (Cons p ps)
  have "d \<in> set (map fst (connected_nodes c))"
    using assms(3) by (simp add: mhas_def mget_None_iff)
  moreover have "distinct (map fst (connected_nodes c))"
    using assms(2) by (rule omap_distinct)
  ultimately have "bytes_to d (map (\<lambda>x. (x, link_wire p)) (map fst (connected_nodes c))) = link_wire p"
    by (simp only: bytes_to_one if_True)
  with Cons assms(1) show ?case
    by (simp add: broadcast_def recipients_def)
qed

lemma bytes_to_pairs: "bytes_to d (map (\<lambda>x. (d, f x)) xs) = concat (map f xs)"
  by (induction xs) (auto simp: bytes_to_def)

text \<open>
  A backup whose link is idle, and a way of cutting the bytes into readable events and \<open>recv\<close> results;
  4618 is twice the longest packet, 2309 bytes.
\<close>

definition idle_link :: "connection \<Rightarrow> int \<Rightarrow> connection_event_data \<Rightarrow> bool" where
  "idle_link cnt s c \<longleftrightarrow> event_data cnt s = Some c \<and> ev_fd c = s \<and> ev_ok c \<and> pending c = [] \<and>
     input_packet_queue cnt = []"

definition segmentation :: "connection_event_data \<Rightarrow> byte list \<Rightarrow> byte list list list \<Rightarrow> bool" where
  "segmentation c bs rounds \<longleftrightarrow> concat (map concat rounds) = bs \<and>
     (\<forall>chunks \<in> set rounds. [] \<notin> set chunks \<and> length (concat chunks) + 4618 < length (ev_buffer c))"

definition receive_and_apply ::
    "world \<Rightarrow> xt_recent_action \<Rightarrow> http_action \<Rightarrow> int \<Rightarrow> byte list list list \<Rightarrow> nat \<Rightarrow> base_sync \<Rightarrow> base_sync run" where
  "receive_and_apply w ur uh s rounds n b =
     run_bind (handle_events (pkt_deserialize ur uh) (conn b) (map (readable s) rounds))
       (\<lambda>cnt. backup_loop w (quiet n) (b\<lparr>conn := cnt\<rparr>))"

lemma apply_recent_fd [simp]: "apply_recent_action (a\<lparr>pkt_fd := d\<rparr>) = apply_recent_action a"
  by (rule ext) (simp add: apply_recent_action_def)

lemma apply_http_fd [simp]: "apply_http_action (Some (a\<lparr>pkt_fd := d\<rparr>)) = apply_http_action (Some a)"
proof -
  have "add_session (a\<lparr>pkt_fd := d\<rparr>) f = add_session a f" "delete_session (a\<lparr>pkt_fd := d\<rparr>) f = delete_session a f" for f
    by (simp_all add: add_session_def delete_session_def)
  then show ?thesis
    by (intro ext) (simp add: apply_http_action_def Let_def split: http_action_type.split)
qed

lemma packet_fits_fd [simp]: "packet_fits (set_pkt_fd d p) = packet_fits p"
  by (cases p) (auto simp: packet_fits_def)

lemma apply_recents_fd: "apply_recent_actions (recents (map (\<lambda>p. set_pkt_fd d (f p)) ps)) = 
    apply_recent_actions (recents (map f ps))"
proof (rule ext)
  fix x
  show "apply_recent_actions (recents (map (\<lambda>p. set_pkt_fd d (f p)) ps)) x =
      apply_recent_actions (recents (map f ps)) x"
  proof (induction ps arbitrary: x)
    case (Cons p ps)
    then show ?case by (cases "f p") auto
  qed simp
qed

lemma apply_https_fd: "apply_http_actions (https (map (\<lambda>p. set_pkt_fd d (f p)) ps)) = 
    apply_http_actions (https (map f ps))"
proof (rule ext)
  fix x
  show "apply_http_actions (https (map (\<lambda>p. set_pkt_fd d (f p)) ps)) x =
      apply_http_actions (https (map f ps)) x"
  proof (induction ps arbitrary: x)
    case (Cons p ps)
    then show ?case by (cases "f p") auto
  qed simp
qed

lemma receive_and_apply_packets:
  assumes "idle_link (conn b) s c" and "segmentation c (concat (map link_wire ps)) rounds"
    and "\<forall>p \<in> set ps. link_good p \<and> length (link_wire p) \<le> 2309 \<and> packet_fits (link_decoded ur uh p)"
  shows "\<exists>b'. receive_and_apply w ur uh s rounds (length ps) b = Done b' \<and>
    recent_data b' = apply_recent_actions (recents (map (link_decoded ur uh) ps)) (recent_data b) \<and>
    http_session_data b' = apply_http_actions (https (map (link_decoded ur uh) ps)) (http_session_data b) \<and>
    input_packet_queue (conn b') = []"
proof -
  let ?ps = "map (\<lambda>p. set_pkt_fd s (link_decoded ur uh p)) ps"
  have c: "event_data (conn b) s = Some c" "ev_fd c = s" "ev_ok c" "pending c = []"
    "input_packet_queue (conn b) = []"
    using assms(1) by (auto simp: idle_link_def)
  have "\<exists>cnt' c'. handle_events (pkt_deserialize ur uh) (conn b) (map (readable s) rounds) = Done cnt' \<and>
    event_data cnt' s = Some c' \<and> ev_fd c' = s \<and> ev_ok c' \<and> pending c' = [] \<and>
    input_packet_queue cnt' = input_packet_queue (conn b) @ ?ps"
  proof (rule link.receive_stream [OF c(1-3), of ps 2309 rounds ur uh])
    show "\<forall>p \<in> set ps. link_good p \<and> length (link_wire p) \<le> 2309"
      using assms(3) by blast
    show "\<forall>chunks \<in> set rounds. [] \<notin> set chunks \<and> length (concat chunks) + 2 * 2309 < length (ev_buffer c)"
      using assms(2) by (simp add: segmentation_def)
    show "pending c @ concat (map concat rounds) = concat (map link_wire ps)"
      using assms(2) c(4) by (simp add: segmentation_def)
  qed (use c(4) in simp)
  then obtain cnt where cnt: "handle_events (pkt_deserialize ur uh) (conn b) (map (readable s) rounds) = Done cnt"
    "input_packet_queue cnt = ?ps"
    using c(5) by auto
  have q: "input_packet_queue (conn (b\<lparr>conn := cnt\<rparr>)) = ?ps @ []" using cnt(2) by simp
  have fits: "\<forall>p \<in> set ?ps. packet_fits p" using assms(3) by auto
  from backup_loop_applies [OF q fits] cnt(1) show ?thesis
    by (auto simp: receive_and_apply_def apply_recents_fd apply_https_fd)
qed

section \<open>Recent actions over the link\<close>

lemma link_good_recent:
  assumes "link_good (Recent_pkt a)"
  shows "recent_good (Recent_pkt a)" and "pkt_type a = XT_RECENT_SYNC"
    and "link_wire (Recent_pkt a) = recent_wire (Recent_pkt a)"
    and "link_decoded ur uh (Recent_pkt a) = Recent_pkt (wire_action ur a)"
    and "length (link_wire (Recent_pkt a)) \<le> 2309"
proof -
  show t: "pkt_type a = XT_RECENT_SYNC"
    using assms by (cases "pkt_type a") (auto simp: link_good_def get_packet_parser_def base_good_def http_good_def)
  then show g: "recent_good (Recent_pkt a)" using assms by (simp add: link_good_def get_packet_parser_def)
  show w: "link_wire (Recent_pkt a) = recent_wire (Recent_pkt a)"
    using t by (simp add: link_wire_def get_packet_parser_def)
  show "link_decoded ur uh (Recent_pkt a) = Recent_pkt (wire_action ur a)"
    using t by (simp add: link_decoded_def get_packet_parser_def)
  from g show "length (link_wire (Recent_pkt a)) \<le> 2309"
    unfolding w by (rule recent_goodE) simp
qed

lemma recents_map [simp]: "recents (map Recent_pkt as) = as"
  by (induction as) auto

lemma https_map [simp]: "https (map Http_pkt as) = as"
  by (induction as) auto

lemma receive_recents:
  assumes "idle_link (conn b) s c" and "segmentation c (concat (map (link_wire \<circ> Recent_pkt) as)) rounds"
    and "\<forall>a \<in> set as. link_good (Recent_pkt a)"
  shows "\<exists>b'. receive_and_apply w ur uh s rounds (length as) b = Done b' \<and>
    recent_data b' = apply_recent_actions (map (wire_action ur) as) (recent_data b) \<and>
    input_packet_queue (conn b') = []"
proof -
  have "\<forall>p \<in> set (map Recent_pkt as).
      link_good p \<and> length (link_wire p) \<le> 2309 \<and> packet_fits (link_decoded ur uh p)"
    using assms(3) link_good_recent(2,4,5) by (auto simp: packet_fits_def)
  moreover have "map (link_decoded ur uh) (map Recent_pkt as) = map Recent_pkt (map (wire_action ur) as)"
    using assms(3) link_good_recent(4) by auto
  moreover have "segmentation c (concat (map link_wire (map Recent_pkt as))) rounds"
    using assms(2) by (simp add: comp_def)
  ultimately show ?thesis
    using receive_and_apply_packets [OF assms(1), of "map Recent_pkt as" rounds ur uh w]
    by (auto simp del: map_map)
qed

section \<open>HTTP actions over the link\<close>

definition wire_http :: "http_action \<Rightarrow> http_action \<Rightarrow> http_action" where
  "wire_http u a = (case http_decoded u (Http_pkt a) of Http_pkt b \<Rightarrow> b | _ \<Rightarrow> a)"

text \<open>The actions the wire carries without loss of what the stores use.\<close>

definition http_exact :: "http_action \<Rightarrow> bool" where
  "http_exact a \<longleftrightarrow> unat (listener a) < 256 \<and> unat (service a) < 256 \<and> unat (backend a) < 256 \<and>
     backend_id (session a) = backend a"

lemma wire_http_decoded [simp]: "http_decoded u (Http_pkt a) = Http_pkt (wire_http u a)"
  by (simp add: wire_http_def http_decoded_def Let_def)

lemma wire_http_apply:
  assumes "http_exact a"
  shows "apply_http_action (Some (wire_http u a)) d = apply_http_action (Some a) d"
proof -
  have s: "(session a)\<lparr>backend_id := backend a\<rparr> = session a"
    using assms by (cases "session a") (simp add: http_exact_def)
  show ?thesis using assms
  by (cases "http_act a")
    (simp_all add: s wire_http_def http_decoded_def http_exact_def apply_http_action_def Let_def carries_session_def
      add_session_def delete_session_def)
qed

lemma wire_http_applies:
  "\<forall>a \<in> set as. http_exact a \<Longrightarrow> apply_http_actions (map (wire_http u) as) d = apply_http_actions as d"
  by (induction as arbitrary: d) (auto simp: wire_http_apply)

lemma link_good_http:
  assumes "link_good (Http_pkt a)"
  shows "http_good (Http_pkt a)" and "pkt_type a = HTTP_SYNC"
    and "link_decoded ur uh (Http_pkt a) = Http_pkt (wire_http uh a)"
    and "length (link_wire (Http_pkt a)) \<le> 2309" and "pkt_type (wire_http uh a) = HTTP_SYNC"
proof -
  show t: "pkt_type a = HTTP_SYNC"
    using assms by (cases "pkt_type a") (auto simp: link_good_def get_packet_parser_def base_good_def recent_good_def)
  then show g: "http_good (Http_pkt a)" using assms by (simp add: link_good_def get_packet_parser_def)
  show "link_decoded ur uh (Http_pkt a) = Http_pkt (wire_http uh a)"
    using t by (simp add: link_decoded_def get_packet_parser_def)
  have w: "link_wire (Http_pkt a) = http_wire (Http_pkt a)"
    using t by (simp add: link_wire_def get_packet_parser_def)
  from g show "length (link_wire (Http_pkt a)) \<le> 2309"
    unfolding w by (rule http_goodE) simp
  show "pkt_type (wire_http uh a) = HTTP_SYNC"
    by (simp add: wire_http_def http_decoded_def Let_def)
qed

lemma receive_https:
  assumes "idle_link (conn b) s c" and "segmentation c (concat (map (\<lambda>a. link_wire (Http_pkt a)) as)) rounds"
    and "\<forall>a \<in> set as. link_good (Http_pkt a) \<and> http_exact a"
  shows "\<exists>b'. receive_and_apply w ur uh s rounds (length as) b = Done b' \<and>
    http_session_data b' = apply_http_actions as (http_session_data b) \<and>
    input_packet_queue (conn b') = []"
proof -
  have "\<forall>p \<in> set (map Http_pkt as).
      link_good p \<and> length (link_wire p) \<le> 2309 \<and> packet_fits (link_decoded ur uh p)"
    using assms(3) link_good_http(3,4,5) by (auto simp: packet_fits_def)
  moreover have "map (link_decoded ur uh) (map Http_pkt as) = map Http_pkt (map (wire_http uh) as)"
    using assms(3) link_good_http(3) by auto
  moreover have "segmentation c (concat (map link_wire (map Http_pkt as))) rounds"
    using assms(2) by (simp add: comp_def)
  moreover have "apply_http_actions (map (wire_http uh) as) d = apply_http_actions as d" for d
    using assms(3) by (simp add: wire_http_applies)
  ultimately show ?thesis
    using receive_and_apply_packets [OF assms(1), of "map Http_pkt as" rounds ur uh w]
    by (auto simp del: map_map)
qed

section \<open>End to end\<close>

text \<open>A master with a backup \<open>d\<close> connected, and a network that takes what is sent.\<close>

definition serving :: "world \<Rightarrow> int \<Rightarrow> sync_master \<Rightarrow> bool" where
  "serving w d m \<longleftrightarrow> net_delivers w \<and> conn_running (conn m) \<and> is_server (conn m) \<and>
     omap_ok (connected_nodes (conn m)) \<and> mhas (connected_nodes (conn m)) d \<and> 0 < backup_servers_fd m"

lemma serving_up: "serving w d m \<Longrightarrow> net_delivers w \<and> link_up m \<and> is_server (conn m) \<and> 0 < backup_servers_fd m"
  by (auto simp: serving_def link_up_def mhas_def)

lemma serving_bytes:
  "serving w d m \<Longrightarrow> \<forall>p \<in> set ps. pkt_fd (base_of p) = - 1 \<Longrightarrow>
   bytes_to d (broadcast (conn m) ps) = concat (map link_wire ps)"
  by (rule bytes_to_broadcast) (auto simp: serving_def)

definition new_log :: "'a base_sync_scheme \<Rightarrow> 'b base_sync_scheme \<Rightarrow> (int \<times> byte list) list" where
  "new_log m m' = drop (length (link_log (trace m))) (link_log (trace m'))"

lemma recent_pass_replicates:
  assumes "serving w d m"
    and "\<forall>a \<in> set (recent_input (recent_listener m)). link_good (Recent_pkt a) \<and> pkt_fd a = - 1"
    and "idle_link (conn b) s c" and "mirrors (recent_data m) (recent_data b)"
  shows "\<exists>m'. recent_pass w 10 m = Done m' \<and>
    (\<forall>rounds. segmentation c (bytes_to d (new_log m m')) rounds \<longrightarrow>
      (\<exists>b'. receive_and_apply w' ur uh s rounds (length (take 10 (recent_input (recent_listener m)))) b = Done b' \<and>
        mirrors (recent_data m') (recent_data b')))"
proof -
  let ?as = "take 10 (recent_input (recent_listener m))"
  have good: "\<forall>a \<in> set (recent_input (recent_listener m)). link_good (Recent_pkt a)" using assms(2) by blast
  obtain m' where m': "recent_pass w 10 m = Done m'"
    "link_log (trace m') = link_log (trace m) @ broadcast (conn m) (map Recent_pkt ?as)"
    using recent_pass_delivers [of w m 10] serving_up [OF assms(1)] good by blast
  have "\<forall>p \<in> set (map Recent_pkt ?as). pkt_fd (base_of p) = - 1"
    using assms(2) by (auto dest: in_set_takeD)
  from serving_bytes [OF assms(1) this] m'(2)
  have bytes: "bytes_to d (new_log m m') = concat (map (\<lambda>a. link_wire (Recent_pkt a)) ?as)"
    by (simp add: new_log_def comp_def)
  have data: "recent_data m' = apply_recent_actions ?as (recent_data m)"
    using recent_pass_Done [OF m'(1)] by simp
  show ?thesis
  proof (intro exI [of _ m'] conjI allI impI)
    fix rounds assume "segmentation c (bytes_to d (new_log m m')) rounds"
    then have "segmentation c (concat (map (link_wire \<circ> Recent_pkt) ?as)) rounds"
      by (simp add: bytes comp_def)
    moreover have "\<forall>a \<in> set ?as. link_good (Recent_pkt a)" using good by (auto dest: in_set_takeD)
    ultimately obtain b' where "receive_and_apply w' ur uh s rounds (length ?as) b = Done b'"
      "recent_data b' = apply_recent_actions (map (wire_action ur) ?as) (recent_data b)"
      using receive_recents [OF assms(3)] by blast
    then show "\<exists>b'. receive_and_apply w' ur uh s rounds (length ?as) b = Done b' \<and>
        mirrors (recent_data m') (recent_data b')"
      by (auto simp: data mirrors_actions [OF assms(4)])
  qed (rule m'(1))
qed

lemma http_pass_replicates:
  assumes "serving w d m"
    and "\<forall>a \<in> set (http_input (http_listener m)). \<not> farm_news a \<and> link_good (Http_pkt a) \<and> http_exact a"
    and "idle_link (conn b) s c" and "http_session_data b = http_session_data m"
  shows "\<exists>m'. http_pass w 0 m = Some (Done m') \<and>
    (\<forall>rounds. segmentation c (bytes_to d (new_log m m')) rounds \<longrightarrow>
      (\<exists>b'. receive_and_apply w' ur uh s rounds (length (take 10 (http_input (http_listener m)))) b = Done b' \<and>
        http_session_data b' = http_session_data m'))"
proof -
  let ?as = "take 10 (http_input (http_listener m))"
  let ?sent = "map (\<lambda>a. a\<lparr>pkt_fd := - 1\<rparr>) ?as"
  have good: "\<forall>a \<in> set (http_input (http_listener m)). \<not> farm_news a \<and> link_good (Http_pkt a)"
    and plain: "\<forall>a \<in> set (http_input (http_listener m)). \<not> farm_news a"
    using assms(2) by blast+
  obtain m' where m': "http_pass w 0 m = Some (Done m')"
    "link_log (trace m') = link_log (trace m) @ broadcast (conn m) (map Http_pkt ?sent)"
    using http_pass_delivers [of w 0 m] serving_up [OF assms(1)] good by (auto simp: comp_def)
  have "\<forall>p \<in> set (map Http_pkt ?sent). pkt_fd (base_of p) = - 1" by auto
  from serving_bytes [OF assms(1) this] m'(2)
  have bytes: "bytes_to d (new_log m m') = concat (map (\<lambda>a. link_wire (Http_pkt a)) ?sent)"
    by (simp add: new_log_def comp_def)
  have data: "http_session_data m' = apply_http_actions ?as (http_session_data m)"
    using http_pass_plain [OF m'(1) _ plain] by simp
  have same: "apply_http_actions (map (\<lambda>a. a\<lparr>pkt_fd := - 1\<rparr>) as) x = apply_http_actions as x" for as x
    by (induction as arbitrary: x) auto
  have "link_good (Http_pkt (a\<lparr>pkt_fd := - 1\<rparr>)) = link_good (Http_pkt a)" for a
    using link_good_set_fd [of "- 1" "Http_pkt a"] by simp
  then have sent: "\<forall>a \<in> set ?sent. link_good (Http_pkt a) \<and> http_exact a"
    using assms(2) by (auto simp: http_exact_def dest!: in_set_takeD)
  show ?thesis
  proof (intro exI [of _ m'] conjI allI impI)
    fix rounds assume "segmentation c (bytes_to d (new_log m m')) rounds"
    then have "segmentation c (concat (map (\<lambda>a. link_wire (Http_pkt a)) ?sent)) rounds"
      unfolding bytes .
    from receive_https [OF assms(3) this sent] obtain b' where
      "receive_and_apply w' ur uh s rounds (length ?sent) b = Done b'"
      "http_session_data b' = apply_http_actions ?sent (http_session_data b)" by blast
    then show "\<exists>b'. receive_and_apply w' ur uh s rounds (length ?as) b = Done b' \<and>
        http_session_data b' = http_session_data m'"
      by (simp add: data same assms(4))
  qed (rule m'(1))
qed

lemma snapshot_replicates:
  assumes "serving w d m" and "recent_ok (recent_data m)" and "d \<noteq> - 1"
    and "\<forall>(n, e) \<in> set (store_entries (recent_data m)). link_good (Recent_pkt (get_entry_as_action n e False))"
    and "idle_link (conn b) s c" and "recent_data b = []"
  shows "\<exists>m'. handle_recent_sync w d m = Done (True, m') \<and> recent_data m' = recent_data m \<and>
    (\<forall>rounds. segmentation c (bytes_to d (new_log m m')) rounds \<longrightarrow>
      (\<exists>b'. receive_and_apply w' ur uh s rounds (length (store_entries (recent_data m))) b = Done b' \<and>
        mirrors (recent_data m') (recent_data b')))"
proof -
  let ?es = "store_entries (recent_data m)"
  let ?as = "map (\<lambda>(n, e). get_entry_as_action n e False) ?es"
  obtain m' where m': "handle_recent_sync w d m = Done (True, m')" "recent_data m' = recent_data m"
    "link_log (trace m') = link_log (trace m) @
      map (\<lambda>(n, e). (d, link_wire (Recent_pkt (get_entry_as_action n e False)))) ?es"
    using send_entries_delivers [of w m d ?es] serving_up [OF assms(1)] assms(3,4)
    by (auto simp: handle_recent_sync_def)
  have bytes: "bytes_to d (new_log m m') = concat (map (link_wire \<circ> Recent_pkt) ?as)"
  proof -
    have "map (\<lambda>(n, e). (d, link_wire (Recent_pkt (get_entry_as_action n e False)))) ?es =
        map (\<lambda>x. (d, (link_wire \<circ> Recent_pkt) x)) ?as"
      by auto
    with m'(3) have "new_log m m' = map (\<lambda>x. (d, (link_wire \<circ> Recent_pkt) x)) ?as"
      by (simp add: new_log_def)
    then show ?thesis by (simp only: bytes_to_pairs)
  qed
  have good: "\<forall>a \<in> set ?as. link_good (Recent_pkt a)" using assms(4) by auto
  show ?thesis
  proof (intro exI [of _ m'] conjI allI impI)
    fix rounds assume "segmentation c (bytes_to d (new_log m m')) rounds"
    then have "segmentation c (concat (map (link_wire \<circ> Recent_pkt) ?as)) rounds" unfolding bytes .
    from receive_recents [OF assms(5) this good] obtain b' where
      "receive_and_apply w' ur uh s rounds (length ?as) b = Done b'"
      "recent_data b' = apply_recent_actions (map (wire_action ur) ?as) (recent_data b)" by blast
    then show "\<exists>b'. receive_and_apply w' ur uh s rounds (length ?es) b = Done b' \<and>
        mirrors (recent_data m') (recent_data b')"
      using snapshot_mirrors [OF assms(2), of ur] by (simp add: assms(6) m'(2))
  qed (use m' in auto)
qed

text \<open>What a backup gets of a pass, of the master's run as it was.\<close>

lemma recent_pass_bytes:
  assumes "serving w d m" and "recent_pass w n m = Done m'"
    and "\<forall>a \<in> set (recent_input (recent_listener m)). link_good (Recent_pkt a) \<and> pkt_fd a = - 1"
  shows "bytes_to d (new_log m m') =
    concat (map (\<lambda>a. link_wire (Recent_pkt a)) (take n (recent_input (recent_listener m))))"
proof -
  let ?ps = "map Recent_pkt (take n (recent_input (recent_listener m)))"
  have "link_log (trace m') = link_log (trace m) @ broadcast (conn m) ?ps"
    using recent_pass_delivers [of w m n] serving_up [OF assms(1)] assms(2,3) by auto
  moreover have "\<forall>p \<in> set ?ps. pkt_fd (base_of p) = - 1"
    using assms(3) by (auto dest: in_set_takeD)
  ultimately show ?thesis
    using serving_bytes [OF assms(1)] by (simp add: new_log_def comp_def)
qed

lemma http_pass_bytes:
  assumes "serving w d m" and "http_pass w 0 m = Some (Done m')"
    and "\<forall>a \<in> set (http_input (http_listener m)). \<not> farm_news a \<and> link_good (Http_pkt a)"
  shows "bytes_to d (new_log m m') =
    concat (map (\<lambda>a. link_wire (Http_pkt a)) (take 10 (http_input (http_listener m))))"
proof -
  let ?ps = "map (\<lambda>a. Http_pkt (a\<lparr>pkt_fd := - 1\<rparr>)) (take 10 (http_input (http_listener m)))"
  have "link_log (trace m') = link_log (trace m) @ broadcast (conn m) ?ps"
    using http_pass_delivers [of w 0 m] serving_up [OF assms(1)] assms(2,3) by auto
  moreover have "\<forall>p \<in> set ?ps. pkt_fd (base_of p) = - 1" by auto
  moreover have "link_wire (Http_pkt (a\<lparr>pkt_fd := - 1\<rparr>)) = link_wire (Http_pkt a)" for a
    using link_wire_set_fd [of "- 1" "Http_pkt a"] by simp
  ultimately show ?thesis
    using serving_bytes [OF assms(1)] by (simp add: new_log_def comp_def)
qed

lemma snapshot_bytes:
  assumes "serving w d m" and "d \<noteq> - 1" and "handle_recent_sync w d m = Done (ok, m')"
    and "\<forall>(n, e) \<in> set (store_entries (recent_data m)). link_good (Recent_pkt (get_entry_as_action n e False))"
  shows "bytes_to d (new_log m m') =
    concat (map (\<lambda>(n, e). link_wire (Recent_pkt (get_entry_as_action n e False))) (store_entries (recent_data m)))"
proof -
  have "link_log (trace m') = link_log (trace m) @
      map (\<lambda>(n, e). (d, link_wire (Recent_pkt (get_entry_as_action n e False)))) (store_entries (recent_data m))"
    using send_entries_delivers [of w m d "store_entries (recent_data m)"] serving_up [OF assms(1)] assms(2-4)
    by (auto simp: handle_recent_sync_def)
  then show ?thesis
    using bytes_to_pairs [of d "\<lambda>(n, e). link_wire (Recent_pkt (get_entry_as_action n e False))" "store_entries (recent_data m)"]
    by (simp add: new_log_def case_prod_unfold comp_def)
qed

section \<open>A concrete pair of nodes\<close>

definition sample_master :: sync_master where
  "sample_master = (new_sync_master (new_base_sync False False (\<lparr>is_server = True, conn_running = True,
      listen_fd = 3, connected_nodes = [(9, new_event_data (replicate MAX_PACKET_SIZE 0) 9)],
      server_link = None, input_packet_queue = []\<rparr>)))
     \<lparr>backup_servers_fd := 1\<rparr>"

definition sample_receiver :: base_sync where
  "sample_receiver = new_base_sync False False (sample_client (replicate MAX_PACKET_SIZE 0) 0)"

lemma sample_serving:
  "serving sample_world 9 (sample_master\<lparr>recent_listener := x, http_listener := y, recent_data := z\<rparr>)"
  by (auto simp: serving_def sample_master_def new_sync_master_def new_base_sync_def base_sync.extend_def
      sample_world_def omap_ok_def mhas_def mget_def intro!: byte_by_byte_delivers)

lemma sample_receiver_idle:
  "idle_link (conn sample_receiver) 5 \<lparr>ev_fd = 5, ev_buffer = replicate MAX_PACKET_SIZE 0, ev_size = 0\<rparr>"
  by (simp add: idle_link_def sample_receiver_def sample_client_def new_client_def new_base_sync_def
      event_data_def ev_ok_def pending_def)

lemma one_round:
  "bs \<noteq> [] \<Longrightarrow> length bs \<le> 2309 \<Longrightarrow>
   segmentation \<lparr>ev_fd = 5, ev_buffer = replicate MAX_PACKET_SIZE 0, ev_size = 0\<rparr> bs [[bs]]"
  by (simp add: segmentation_def MAX_PACKET_SIZE_def)

lemma link_wire_one: "link_good (Recent_pkt a) \<Longrightarrow> link_wire (Recent_pkt a) \<noteq> [] \<and> length (link_wire (Recent_pkt a)) \<le> 2309"
  "link_good (Http_pkt h) \<Longrightarrow> link_wire (Http_pkt h) \<noteq> [] \<and> length (link_wire (Http_pkt h)) \<le> 2309"
  using link_wire_length link_good_recent(5) link_good_http(4) by blast+

end
