(* ===== verification/Xt_Recent_Table.thy ===== *)
theory Xt_Recent_Table
  imports Prelude "HOL-Library.Multiset"
begin

text \<open>
  \<open>kmodule/xt_recent-4.9.13.c\<close>: the tables of the kernel module, their entries and the operations on
  them. An entry lives at an address; the table links it into a bucket of its hash table and into the
  list that keeps the least recently used entry first. The locks are not modelled: each operation runs
  with \<open>recent_lock\<close> held.
\<close>

section \<open>Data\<close>

text \<open>\<open>union nf_inet_addr\<close> as its 16 bytes; an IPv4 address is in the first four.\<close>

type_synonym nf_inet_addr = "byte list"
type_synonym ptr = nat

datatype nfproto = NFPROTO_IPV4 | NFPROTO_IPV6

definition ipv4_addr :: "byte list \<Rightarrow> nf_inet_addr" where
  "ipv4_addr ip = ip @ replicate 12 0"

record recent_entry =
  k_addr :: nf_inet_addr
  k_family :: nfproto
  k_ttl :: byte
  k_index :: byte
  k_nstamps :: "16 word"
  k_stamps :: "u64 list"

text \<open>
  \<open>k_heap\<close> has the memory of the table's entries; an address without a value is free, and using it is a
  \<open>Fault\<close>. \<open>iphash\<close> and \<open>lru_list\<close> are the intrusive lists, as the addresses they link. The structure grew
  with the kernel: version 3.2.93 of the module has the fields of \<open>recent_table_32\<close>, version 3.16.43 adds the
  mask of the addresses, version 4.9.13 the size of the rings. The operations that are the same in all
  versions are written for any of them.
\<close>

record recent_table_32 =
  k_name :: string
  k_refcnt :: u32
  k_entries :: u32
  k_heap :: "ptr \<Rightarrow> recent_entry option"
  lru_list :: "ptr list"
  iphash :: "ptr list list"

record recent_table_316 = recent_table_32 +
  k_mask :: nf_inet_addr

record recent_table = recent_table_316 +
  nstamps_max_mask :: byte

text \<open>
  The module's parameters. The two hash functions stand for \<open>jhash_1word\<close> and \<open>jhash2\<close> of the kernel
  with the module's random seed.
\<close>

record recent_module =
  ip_list_tot :: u32
  ip_list_hash_size :: u32
  ip_pkt_list_tot :: u32
  jhash4 :: "nf_inet_addr \<Rightarrow> u32"
  jhash6 :: "nf_inet_addr \<Rightarrow> u32"

section \<open>Operations on the entries\<close>

definition recent_entry_hash4 :: "recent_module \<Rightarrow> nf_inet_addr \<Rightarrow> u32" where
  "recent_entry_hash4 md a = jhash4 md a AND (ip_list_hash_size md - 1)"

definition recent_entry_hash6 :: "recent_module \<Rightarrow> nf_inet_addr \<Rightarrow> u32" where
  "recent_entry_hash6 md a = jhash6 md a AND (ip_list_hash_size md - 1)"

definition entry_bucket :: "recent_module \<Rightarrow> nf_inet_addr \<Rightarrow> nfproto \<Rightarrow> nat" where
  "entry_bucket md a family =
     unat (if family = NFPROTO_IPV4 then recent_entry_hash4 md a else recent_entry_hash6 md a)"

definition deref :: "'a recent_table_32_scheme \<Rightarrow> ptr \<Rightarrow> recent_entry run" where
  "deref t p = (case k_heap t p of None \<Rightarrow> Fault | Some e \<Rightarrow> Done e)"

definition entry_matches :: "nf_inet_addr \<Rightarrow> nfproto \<Rightarrow> byte \<Rightarrow> recent_entry \<Rightarrow> bool" where
  "entry_matches a family ttl e \<longleftrightarrow>
     k_family e = family \<and> k_addr e = a \<and> (ttl = k_ttl e \<or> ttl = 0 \<or> k_ttl e = 0)"

fun find_entry :: "'a recent_table_32_scheme \<Rightarrow> nf_inet_addr \<Rightarrow> nfproto \<Rightarrow> byte \<Rightarrow> ptr list \<Rightarrow> ptr option run" where
  "find_entry t a family ttl [] = Done None"
| "find_entry t a family ttl (p # ps) =
     run_bind (deref t p) (\<lambda>e. if entry_matches a family ttl e then Done (Some p)
                               else find_entry t a family ttl ps)"

definition recent_entry_lookup ::
    "recent_module \<Rightarrow> 'a recent_table_32_scheme \<Rightarrow> nf_inet_addr \<Rightarrow> nfproto \<Rightarrow> byte \<Rightarrow> ptr option run" where
  "recent_entry_lookup md t a family ttl =
     (let h = entry_bucket md a family
      in if h < length (iphash t) then find_entry t a family ttl (iphash t ! h) else Fault)"

definition recent_entry_remove :: "'a recent_table_32_scheme \<Rightarrow> ptr \<Rightarrow> ('a recent_table_32_scheme) run" where
  "recent_entry_remove t p =
     run_bind (deref t p) (\<lambda>_. Done (t\<lparr>iphash := map (remove1 p) (iphash t), lru_list := remove1 p (lru_list t),
       k_heap := (k_heap t)(p := None), k_entries := k_entries t - 1\<rparr>))"

text \<open>\<open>time_after(a, b)\<close> is \<open>(long)(b - a) < 0\<close>.\<close>

definition time_after :: "u64 \<Rightarrow> u64 \<Rightarrow> bool" where
  "time_after a b \<longleftrightarrow> sint (b - a) < 0"

text \<open>The oldest entry is dropped when its last stamp is before \<open>time\<close>; on an empty list the head itself
  would be taken for an entry.\<close>

definition recent_entry_reap :: "'a recent_table_32_scheme \<Rightarrow> u64 \<Rightarrow> ('a recent_table_32_scheme) run" where
  "recent_entry_reap t time =
     (case lru_list t of
        [] \<Rightarrow> Fault
      | p # _ \<Rightarrow> run_bind (deref t p) (\<lambda>e.
          if k_index e = 0 \<or> length (k_stamps e) < unat (k_index e) then Fault
          else if time_after time (k_stamps e ! (unat (k_index e) - 1)) then recent_entry_remove t p
          else Done t))"

text \<open>
  \<open>mem\<close> is the memory that \<open>kmalloc\<close> returns, an unused address with its former contents, or nothing.
\<close>

definition recent_entry_init ::
    "recent_module \<Rightarrow> u64 \<Rightarrow> (ptr \<times> (nat \<Rightarrow> u64)) option \<Rightarrow> recent_table \<Rightarrow> nf_inet_addr \<Rightarrow> nfproto \<Rightarrow> byte \<Rightarrow>
     u64 option \<Rightarrow> (ptr option \<times> recent_table) run" where
  "recent_entry_init md jiffies mem t a family ttl first_nstamp =
     run_bind (if ip_list_tot md \<le> k_entries t
               then (case lru_list t of [] \<Rightarrow> Fault | p # _ \<Rightarrow> recent_entry_remove t p)
               else Done t)
       (\<lambda>t. let nstamps_max = unat (nstamps_max_mask t) + 1;
                h = entry_bucket md a family
            in case mem of
                 None \<Rightarrow> Done (None, t)
               | Some (p, old) \<Rightarrow>
                   if length (iphash t) \<le> h then Fault
                   else (let e = \<lparr>k_addr = a, k_family = family, k_ttl = ttl, k_index = 1, k_nstamps = 1,
                                  k_stamps = (map old [0..<nstamps_max])
                                    [0 := (case first_nstamp of None \<Rightarrow> jiffies | Some s \<Rightarrow> s)]\<rparr>
                         in Done (Some p, t\<lparr>k_heap := (k_heap t)(p \<mapsto> e),
                              iphash := (iphash t)[h := iphash t ! h @ [p]],
                              lru_list := lru_list t @ [p], k_entries := k_entries t + 1\<rparr>)))"

definition stamp_entry :: "byte \<Rightarrow> u64 \<Rightarrow> recent_entry \<Rightarrow> recent_entry run" where
  "stamp_entry m s e =
     (let i = k_index e AND m
      in if unat i < length (k_stamps e) then
           (let e = e\<lparr>k_stamps := (k_stamps e)[unat i := s], k_index := i + 1\<rparr>
            in Done (if unat (k_nstamps e) < unat (k_index e) then e\<lparr>k_nstamps := ucast (k_index e)\<rparr> else e))
         else Fault)"

definition recent_entry_update :: "u64 \<Rightarrow> recent_table \<Rightarrow> ptr \<Rightarrow> u64 option \<Rightarrow> recent_table run" where
  "recent_entry_update jiffies t p nstamp =
     run_bind (deref t p) (\<lambda>e.
       run_bind (stamp_entry (nstamps_max_mask t) (case nstamp of None \<Rightarrow> jiffies | Some s \<Rightarrow> s) e) (\<lambda>e.
         Done (t\<lparr>k_heap := (k_heap t)(p \<mapsto> e), lru_list := remove1 p (lru_list t) @ [p]\<rparr>)))"

section \<open>Operations on the tables\<close>

definition recent_table_lookup :: "('a recent_table_32_scheme) list \<Rightarrow> string \<Rightarrow> ('a recent_table_32_scheme) option" where
  "recent_table_lookup tables n = find (\<lambda>t. k_name t = n) tables"

fun remove_entries :: "'a recent_table_32_scheme \<Rightarrow> ptr list \<Rightarrow> ('a recent_table_32_scheme) run" where
  "remove_entries t [] = Done t"
| "remove_entries t (p # ps) = run_bind (recent_entry_remove t p) (\<lambda>t. remove_entries t ps)"

fun flush_buckets :: "'a recent_table_32_scheme \<Rightarrow> nat list \<Rightarrow> ('a recent_table_32_scheme) run" where
  "flush_buckets t [] = Done t"
| "flush_buckets t (i # is) =
     (if i < length (iphash t)
      then run_bind (remove_entries t (iphash t ! i)) (\<lambda>t. flush_buckets t is) else Fault)"

definition recent_table_flush :: "recent_module \<Rightarrow> 'a recent_table_32_scheme \<Rightarrow> ('a recent_table_32_scheme) run" where
  "recent_table_flush md t = flush_buckets t [0..<unat (ip_list_hash_size md)]"

section \<open>The ring of stamps\<close>

text \<open>
  What every entry satisfies: as many slots as the table's mask says, at least one stamp, and an index
  within the stamps. The index is 0 only after it has wrapped, which takes 256 slots.
\<close>

definition entry_ok :: "byte \<Rightarrow> recent_entry \<Rightarrow> bool" where
  "entry_ok m e \<longleftrightarrow> length (k_stamps e) = unat m + 1 \<and> 1 \<le> unat (k_nstamps e) \<and>
     unat (k_nstamps e) \<le> unat m + 1 \<and> unat (k_index e) \<le> unat (k_nstamps e) \<and>
     (k_index e = 0 \<longrightarrow> m = 255)"

definition stamped_at :: "byte \<Rightarrow> u64 \<Rightarrow> recent_entry \<Rightarrow> recent_entry" where
  "stamped_at i s e =
     (let e = e\<lparr>k_stamps := (k_stamps e)[unat i := s], k_index := i + 1\<rparr>
      in if unat (k_nstamps e) < unat (k_index e) then e\<lparr>k_nstamps := ucast (k_index e)\<rparr> else e)"

definition stamped :: "byte \<Rightarrow> u64 \<Rightarrow> recent_entry \<Rightarrow> recent_entry" where
  "stamped m s e = stamped_at (k_index e AND m) s e"

lemma unat_and_le: "unat (a AND m) \<le> unat (m :: 'a::len word)"
  by (metis and.commute word_and_le1 word_le_nat_alt)

lemma stamp_entry_ok:
  assumes "entry_ok m e"
  shows "stamp_entry m s e = Done (stamped m s e)"
  using assms unat_and_le [of "k_index e" m] by (simp add: stamp_entry_def stamped_def stamped_at_def entry_ok_def Let_def)

lemma unat_ucast_byte_16 [simp]: "unat (ucast (b :: byte) :: 16 word) = unat b"
  using unat_byte_less [of b] by (simp add: unsigned_ucast_eq take_bit_nat_eq_self_iff del: unat_byte_less)

lemma byte_255_iff: "(i :: byte) = 255 \<longleftrightarrow> unat i = 255"
  by (simp add: word_unat_eq_iff)

lemma unat_suc_byte: "unat (i + 1 :: byte) = (if i = 255 then 0 else unat i + 1)"
  using unat_byte_less [of i] by (auto simp: byte_255_iff unat_word_ariths simp del: unat_byte_less)

lemma stamped_ok:
  assumes "entry_ok m e"
  shows "entry_ok m (stamped m s e)"
proof -
  let ?i = "k_index e AND m"
  have i: "unat ?i \<le> unat m" by (rule unat_and_le)
  show ?thesis
  proof (cases "?i = 255")
    case True
    with i unat_byte_less [of m] have "m = 255" by (simp add: byte_255_iff del: unat_byte_less)
    with True assms show ?thesis by (simp add: entry_ok_def stamped_def stamped_at_def Let_def)
  next
    case False
    then have "unat (?i + 1) = unat ?i + 1" "?i + 1 \<noteq> 0"
      using unat_suc_byte [of ?i] by auto
    with i assms show ?thesis by (auto simp: entry_ok_def stamped_def stamped_at_def Let_def)
  qed
qed

lemma stamped_fields [simp]:
  "k_addr (stamped m s e) = k_addr e" "k_family (stamped m s e) = k_family e" "k_ttl (stamped m s e) = k_ttl e"
  by (simp_all add: stamped_def stamped_at_def Let_def)

text \<open>The stamps an entry holds, the oldest first, and the last \<open>n\<close> elements of a list.\<close>

definition recent_stamps :: "recent_entry \<Rightarrow> u64 list" where
  "recent_stamps e =
     (let ss = take (unat (k_nstamps e)) (k_stamps e)
      in drop (unat (k_index e)) ss @ take (unat (k_index e)) ss)"

definition last_n :: "nat \<Rightarrow> 'a list \<Rightarrow> 'a list" where
  "last_n n xs = drop (length xs - n) xs"

definition ring_ok :: "byte \<Rightarrow> recent_entry \<Rightarrow> bool" where
  "ring_ok m e \<longleftrightarrow> entry_ok m e \<and> (\<exists>k < 8. m = mask k) \<and>
     (unat (k_nstamps e) \<le> unat m \<longrightarrow> unat (k_index e) = unat (k_nstamps e))"

lemma mask_facts:
  assumes "k < 8"
  shows "unat (mask k :: byte) + 1 = 2 ^ k" and "unat (i AND mask k :: byte) = unat i mod 2 ^ k"
    and "(2::nat) ^ k \<le> 128"
proof -
  show "(2::nat) ^ k \<le> 128"
    using assms power_increasing [of k 7 "2::nat"] by simp
  show "unat (i AND mask k :: byte) = unat i mod 2 ^ k"
    unfolding take_bit_eq_mask [symmetric] unsigned_take_bit_eq by (rule take_bit_eq_mod)
  have "(mask k :: byte) = word_of_nat (mask k)" by (simp only: of_nat_mask_eq)
  then have "unat (mask k :: byte) = take_bit 8 (mask k)" by (simp only: unsigned_of_nat) simp
  then have "unat (mask k :: byte) = mask k"
    using assms by (simp add: take_bit_of_mask min_def)
  then show "unat (mask k :: byte) + 1 = 2 ^ k"
    by (simp add: mask_eq_exp_minus_1)
qed

lemma last_n_snoc:
  "length xs = n \<Longrightarrow> 0 < n \<Longrightarrow> last_n n (xs @ [x]) = drop 1 xs @ [x]"
  "length xs < n \<Longrightarrow> last_n n (xs @ [x]) = xs @ [x]"
  by (simp_all add: last_n_def)

text \<open>A ring of \<open>n\<close> slots that is filled from the front and then overwritten from the front.\<close>

definition ring_n :: "nat \<Rightarrow> recent_entry \<Rightarrow> bool" where
  "ring_n n e \<longleftrightarrow> length (k_stamps e) = n \<and> 1 \<le> unat (k_nstamps e) \<and> unat (k_nstamps e) \<le> n \<and>
     1 \<le> unat (k_index e) \<and> unat (k_index e) \<le> unat (k_nstamps e) \<and>
     (unat (k_nstamps e) < n \<longrightarrow> unat (k_index e) = unat (k_nstamps e))"

lemma stamped_at_ring:
  assumes "ring_n n e" and "n \<le> 255" and "unat i = unat (k_index e) mod n"
  shows "ring_n n (stamped_at i s e)"
    and "recent_stamps (stamped_at i s e) = last_n n (recent_stamps e @ [s])"
proof -
  have l: "length (k_stamps e) = n" "unat (k_nstamps e) \<le> n" "1 \<le> unat (k_nstamps e)"
    "unat (k_index e) \<le> unat (k_nstamps e)" "1 \<le> unat (k_index e)"
    and full: "unat (k_nstamps e) < n \<Longrightarrow> unat (k_index e) = unat (k_nstamps e)"
    using assms(1) by (auto simp: ring_n_def)
  have j: "unat i < n" using l assms(3) by simp
  then have i1: "unat (i + 1) = unat i + 1"
    using assms(2) by (simp add: unat_suc_byte byte_255_iff)
  have "ring_n n (stamped_at i s e) \<and> recent_stamps (stamped_at i s e) = last_n n (recent_stamps e @ [s])"
  proof (cases "unat (k_nstamps e) < n")
    case True
    then have x: "unat (k_index e) = unat (k_nstamps e)" by (rule full)
    with True assms(3) have ii: "unat i = unat (k_nstamps e)" by simp
    have st: "stamped_at i s e = e\<lparr>k_stamps := (k_stamps e)[unat (k_nstamps e) := s], k_index := i + 1,
        k_nstamps := ucast (i + 1)\<rparr>"
      using ii i1 by (simp add: stamped_at_def Let_def)
    have "recent_stamps (stamped_at i s e) = take (unat (k_nstamps e)) (k_stamps e) @ [s]"
      using True l by (simp add: st recent_stamps_def Let_def i1 ii take_Suc_conv_app_nth)
    moreover have "recent_stamps e = take (unat (k_nstamps e)) (k_stamps e)"
      by (simp add: recent_stamps_def Let_def x)
    ultimately show ?thesis
      using True l i1 ii by (simp add: ring_n_def last_n_snoc(2) st)
  next
    case False
    then have n: "unat (k_nstamps e) = n" using l by simp
    have st: "stamped_at i s e = e\<lparr>k_stamps := (k_stamps e)[unat i := s], k_index := i + 1\<rparr>"
      using n i1 j by (simp add: stamped_at_def Let_def)
    let ?j = "unat i"
    have old: "recent_stamps e = drop ?j (k_stamps e) @ take ?j (k_stamps e)"
    proof (cases "unat (k_index e) = n")
      case True
      then show ?thesis using l n by (simp add: recent_stamps_def assms(3) Let_def)
    next
      case False
      then have "unat (k_index e) < n" using l n by simp
      then show ?thesis using l n by (simp add: recent_stamps_def assms(3) Let_def)
    qed
    have "recent_stamps (stamped_at i s e) = drop (Suc ?j) (k_stamps e) @ take ?j (k_stamps e) @ [s]"
      using j l n by (simp add: st recent_stamps_def Let_def i1 take_Suc_conv_app_nth)
    also have "\<dots> = drop 1 (recent_stamps e) @ [s]"
      using j l by (simp add: old drop_Suc tl_drop flip: drop_Suc)
    also have "\<dots> = last_n n (recent_stamps e @ [s])"
      by (rule last_n_snoc(1) [symmetric]) (use j l in \<open>simp_all add: old\<close>)
    finally have "recent_stamps (stamped_at i s e) = last_n n (recent_stamps e @ [s])" .
    then show ?thesis using l n i1 j by (simp add: st ring_n_def)
  qed
  then show "ring_n n (stamped_at i s e)"
    and "recent_stamps (stamped_at i s e) = last_n n (recent_stamps e @ [s])" by simp_all
qed

lemma ring_ok_n:
  "ring_ok m e \<longleftrightarrow> (\<exists>k < 8. m = mask k) \<and> ring_n (unat m + 1) e"
proof -
  have "m \<noteq> 255" if "k < 8" "m = mask k" for k
    using mask_facts(1,3) [OF that(1)] that(2) by (auto simp: byte_255_iff)
  then show ?thesis
    unfolding ring_ok_def entry_ok_def ring_n_def by (auto simp: less_Suc_eq_le Suc_le_eq unat_gt_0)
qed

lemma stamped_ring:
  assumes "ring_ok m e"
  shows "ring_ok m (stamped m s e)"
    and "recent_stamps (stamped m s e) = last_n (unat m + 1) (recent_stamps e @ [s])"
proof -
  from assms obtain k where k: "k < 8" "m = mask k" "ring_n (unat m + 1) e" by (auto simp: ring_ok_n)
  have "unat m + 1 \<le> 255"
    unfolding k(2) mask_facts(1) [OF k(1)] using mask_facts(3) [OF k(1)] by linarith
  moreover have "unat (k_index e AND m) = unat (k_index e) mod (unat m + 1)"
    using mask_facts(1,2) [OF k(1)] k(2) by simp
  note r = stamped_at_ring [OF k(3) calculation this]
  show "ring_ok m (stamped m s e)" using r(1) k by (auto simp: ring_ok_n stamped_def)
  show "recent_stamps (stamped m s e) = last_n (unat m + 1) (recent_stamps e @ [s])"
    using r(2) by (simp add: stamped_def)
qed

section \<open>The table as a plain list\<close>

text \<open>
  The reference: the entries in the order of their insertion, looked up by walking the whole list.
\<close>

definition bucket_at :: "recent_module \<Rightarrow> recent_table \<Rightarrow> ptr \<Rightarrow> nat" where
  "bucket_at md t p = (case k_heap t p of None \<Rightarrow> 0 | Some e \<Rightarrow> entry_bucket md (k_addr e) (k_family e))"

definition plain_lookup :: "recent_table \<Rightarrow> ptr list \<Rightarrow> nf_inet_addr \<Rightarrow> nfproto \<Rightarrow> byte \<Rightarrow> ptr option" where
  "plain_lookup t ps a family ttl =
     find (\<lambda>p. case k_heap t p of None \<Rightarrow> False | Some e \<Rightarrow> entry_matches a family ttl e) ps"

definition module_ok :: "recent_module \<Rightarrow> bool" where
  "module_ok md \<longleftrightarrow> (\<exists>j < 32. ip_list_hash_size md = 2 ^ j) \<and> 0 < ip_list_tot md"

text \<open>
  The table represents the list \<open>ps\<close>: its bucket \<open>h\<close> is the part of \<open>ps\<close> that hashes to \<open>h\<close>, the LRU
  list has the same entries, all and only their memory is in use, and the counter is their number.
\<close>

definition table_rel :: "recent_module \<Rightarrow> recent_table \<Rightarrow> ptr list \<Rightarrow> bool" where
  "table_rel md t ps \<longleftrightarrow> length (iphash t) = unat (ip_list_hash_size md) \<and>
     distinct ps \<and> distinct (lru_list t) \<and> set (lru_list t) = set ps \<and> dom (k_heap t) = set ps \<and>
     (\<forall>h < length (iphash t). iphash t ! h = filter (\<lambda>p. bucket_at md t p = h) ps) \<and>
     (\<forall>p e. k_heap t p = Some e \<longrightarrow> entry_ok (nstamps_max_mask t) e) \<and>
     unat (k_entries t) = length ps \<and> length ps \<le> unat (ip_list_tot md)"

lemma bucket_in_range:
  assumes "module_ok md"
  shows "entry_bucket md a family < unat (ip_list_hash_size md)"
proof -
  from assms have "ip_list_hash_size md \<noteq> 0" by (auto simp: module_ok_def)
  moreover have "unat (x AND (ip_list_hash_size md - 1)) \<le> unat (ip_list_hash_size md - 1)" for x
    by (rule unat_and_le)
  moreover have "unat (ip_list_hash_size md - 1) < unat (ip_list_hash_size md)"
    using \<open>ip_list_hash_size md \<noteq> 0\<close> by (simp add: unat_minus_one unat_gt_0)
  ultimately show ?thesis
    using le_less_trans by (auto simp: entry_bucket_def recent_entry_hash4_def recent_entry_hash6_def)
qed

lemma table_relD:
  assumes "table_rel md t ps"
  shows "length (iphash t) = unat (ip_list_hash_size md)" "distinct ps" "distinct (lru_list t)"
    "set (lru_list t) = set ps" "dom (k_heap t) = set ps"
    "h < length (iphash t) \<Longrightarrow> iphash t ! h = filter (\<lambda>p. bucket_at md t p = h) ps"
    "k_heap t p = Some e \<Longrightarrow> entry_ok (nstamps_max_mask t) e"
    "unat (k_entries t) = length ps" "length ps \<le> unat (ip_list_tot md)"
    "length (lru_list t) = length ps"
  using assms distinct_card [of ps] distinct_card [of "lru_list t"] by (auto simp: table_rel_def)

lemma find_entry_plain:
  "\<forall>p \<in> set qs. k_heap t p \<noteq> None \<Longrightarrow> find_entry t a family ttl qs = Done (plain_lookup t qs a family ttl)"
  by (induction qs) (auto simp: plain_lookup_def deref_def)

lemma find_filter: "(\<And>x. x \<in> set xs \<Longrightarrow> P x \<Longrightarrow> Q x) \<Longrightarrow> find P (filter Q xs) = find P xs"
  by (induction xs) auto

text \<open>The hashed lookup gives the first match of the list.\<close>

lemma lookup_plain:
  assumes "table_rel md t ps" and "module_ok md"
  shows "recent_entry_lookup md t a family ttl = Done (plain_lookup t ps a family ttl)"
proof -
  let ?h = "entry_bucket md a family"
  note r = table_relD [OF assms(1)]
  have h: "?h < length (iphash t)" using bucket_in_range [OF assms(2)] r(1) by simp
  have "find_entry t a family ttl (iphash t ! ?h) = Done (plain_lookup t (iphash t ! ?h) a family ttl)"
    by (rule find_entry_plain) (use r(5) r(6) [OF h] in auto)
  also have "plain_lookup t (iphash t ! ?h) a family ttl = plain_lookup t ps a family ttl"
    unfolding plain_lookup_def r(6) [OF h]
    by (rule find_filter) (auto simp: bucket_at_def entry_matches_def split: option.splits)
  finally show ?thesis by (simp add: recent_entry_lookup_def h)
qed

lemma plain_lookup_Some:
  assumes "plain_lookup t ps a family ttl = Some p"
  shows "p \<in> set ps" "\<exists>e. k_heap t p = Some e \<and> entry_matches a family ttl e"
  using assms by (auto simp: plain_lookup_def find_Some_iff split: option.splits)

lemma filter_remove1: "distinct ps \<Longrightarrow> filter P (remove1 p ps) = remove1 p (filter P ps)"
  by (induction ps) (auto simp: remove1_idem)

definition removed :: "recent_table \<Rightarrow> ptr \<Rightarrow> recent_table" where
  "removed t p = t\<lparr>iphash := map (remove1 p) (iphash t), lru_list := remove1 p (lru_list t),
     k_heap := (k_heap t)(p := None), k_entries := k_entries t - 1\<rparr>"

lemma removed_fields [simp]:
  "k_heap (removed t p) = (k_heap t)(p := None)" "lru_list (removed t p) = remove1 p (lru_list t)"
  "nstamps_max_mask (removed t p) = nstamps_max_mask t" "k_name (removed t p) = k_name t"
  "k_mask (removed t p) = k_mask t" "k_refcnt (removed t p) = k_refcnt t"
  "iphash (removed t p) = map (remove1 p) (iphash t)" "k_entries (removed t p) = k_entries t - 1"
  by (simp_all add: removed_def)

lemma remove_plain:
  assumes "table_rel md t ps" and "p \<in> set ps"
  shows "recent_entry_remove t p = Done (removed t p)" and "table_rel md (removed t p) (remove1 p ps)"
proof -
  note r = table_relD [OF assms(1)]
  obtain e where e: "k_heap t p = Some e" using assms(2) r(5) by blast
  then show "recent_entry_remove t p = Done (removed t p)"
    by (simp add: recent_entry_remove_def deref_def removed_def)
  have pos: "0 < length ps" using assms(2) by (cases ps) auto
  then have "k_entries t \<noteq> 0" using r(8) by auto
  then have cnt: "unat (k_entries t - 1) = length ps - 1"
    using r(8) by (simp add: unat_minus_one)
  have len: "length (remove1 p ps) = length ps - 1" using assms(2) by (simp add: length_remove1)
  have b: "bucket_at md (removed t p) q = bucket_at md t q" if "q \<noteq> p" for q
    using that by (simp add: bucket_at_def)
  have "filter (\<lambda>q. bucket_at md (removed t p) q = h) (remove1 p ps) =
      remove1 p (filter (\<lambda>q. bucket_at md t q = h) ps)" for h
  proof -
    have "filter (\<lambda>q. bucket_at md (removed t p) q = h) (remove1 p ps) =
        filter (\<lambda>q. bucket_at md t q = h) (remove1 p ps)"
      using b r(2) by (intro filter_cong) auto
    then show ?thesis using r(2) by (simp add: filter_remove1)
  qed
  then show "table_rel md (removed t p) (remove1 p ps)"
    using r len cnt pos unfolding table_rel_def by (auto split: if_splits)
qed

definition init_evicted :: "recent_module \<Rightarrow> recent_table \<Rightarrow> recent_table" where
  "init_evicted md t = (if ip_list_tot md \<le> k_entries t then removed t (hd (lru_list t)) else t)"

definition new_entry :: "recent_table \<Rightarrow> nf_inet_addr \<Rightarrow> nfproto \<Rightarrow> byte \<Rightarrow> (nat \<Rightarrow> u64) \<Rightarrow> u64 \<Rightarrow> recent_entry" where
  "new_entry t a family ttl old s = \<lparr>k_addr = a, k_family = family, k_ttl = ttl, k_index = 1, k_nstamps = 1,
     k_stamps = (map old [0..<unat (nstamps_max_mask t) + 1])[0 := s]\<rparr>"

definition inited :: "recent_module \<Rightarrow> recent_table \<Rightarrow> ptr \<Rightarrow> recent_entry \<Rightarrow> recent_table" where
  "inited md t p e = (let h = entry_bucket md (k_addr e) (k_family e) in
     t\<lparr>k_heap := (k_heap t)(p \<mapsto> e), iphash := (iphash t)[h := iphash t ! h @ [p]],
       lru_list := lru_list t @ [p], k_entries := k_entries t + 1\<rparr>)"

lemma inited_fields [simp]:
  "k_heap (inited md t p e) = (k_heap t)(p \<mapsto> e)" "lru_list (inited md t p e) = lru_list t @ [p]"
  "nstamps_max_mask (inited md t p e) = nstamps_max_mask t" "k_name (inited md t p e) = k_name t"
  "k_mask (inited md t p e) = k_mask t" "k_refcnt (inited md t p e) = k_refcnt t"
  "k_entries (inited md t p e) = k_entries t + 1"
  "length (iphash (inited md t p e)) = length (iphash t)"
  by (simp_all add: inited_def Let_def)

lemma new_entry_ok: "entry_ok (nstamps_max_mask t) (new_entry t a family ttl old s)"
  by (simp add: entry_ok_def new_entry_def)

lemma evict_plain:
  assumes "table_rel md t ps" and "module_ok md"
  shows "(if ip_list_tot md \<le> k_entries t
          then (case lru_list t of [] \<Rightarrow> Fault | p # _ \<Rightarrow> recent_entry_remove t p) else Done t) =
      Done (init_evicted md t)"
    and "\<exists>qs. table_rel md (init_evicted md t) qs \<and> set qs \<subseteq> set ps \<and> length qs < unat (ip_list_tot md) \<and>
      qs = (if ip_list_tot md \<le> k_entries t then remove1 (hd (lru_list t)) ps else ps)"
proof -
  note r = table_relD [OF assms(1)]
  have full: "ip_list_tot md \<le> k_entries t \<longleftrightarrow> length ps = unat (ip_list_tot md)"
    using r(8,9) by (auto simp: word_le_nat_alt)
  have tot: "0 < unat (ip_list_tot md)" using assms(2) by (auto simp: module_ok_def word_less_nat_alt)
  have "(if ip_list_tot md \<le> k_entries t
          then (case lru_list t of [] \<Rightarrow> Fault | p # _ \<Rightarrow> recent_entry_remove t p) else Done t) =
      Done (init_evicted md t) \<and>
    (\<exists>qs. table_rel md (init_evicted md t) qs \<and> set qs \<subseteq> set ps \<and> length qs < unat (ip_list_tot md) \<and>
      qs = (if ip_list_tot md \<le> k_entries t then remove1 (hd (lru_list t)) ps else ps))"
  proof (cases "ip_list_tot md \<le> k_entries t")
    case True
    with full tot r(10) obtain p ls where l: "lru_list t = p # ls" by (cases "lru_list t") auto
    then have p: "p \<in> set ps" using r(4) by auto
    from remove_plain [OF assms(1) p] True l p full tot show ?thesis
      by (auto simp: init_evicted_def length_remove1 dest: notin_set_remove1 intro: set_remove1_subset [THEN subsetD])
  next
    case False
    with full r(9) assms(1) show ?thesis by (auto simp: init_evicted_def)
  qed
  then show "(if ip_list_tot md \<le> k_entries t
          then (case lru_list t of [] \<Rightarrow> Fault | p # _ \<Rightarrow> recent_entry_remove t p) else Done t) =
      Done (init_evicted md t)"
    and "\<exists>qs. table_rel md (init_evicted md t) qs \<and> set qs \<subseteq> set ps \<and> length qs < unat (ip_list_tot md) \<and>
      qs = (if ip_list_tot md \<le> k_entries t then remove1 (hd (lru_list t)) ps else ps)" by auto
qed

lemma insert_plain:
  assumes "table_rel md t ps" and "module_ok md" and "length ps < unat (ip_list_tot md)" and "p \<notin> set ps"
    and "entry_ok (nstamps_max_mask t) e"
  shows "table_rel md (inited md t p e) (ps @ [p])"
proof -
  note r = table_relD [OF assms(1)]
  let ?h = "entry_bucket md (k_addr e) (k_family e)" and ?t = "inited md t p e"
  have h: "?h < length (iphash t)" using bucket_in_range [OF assms(2)] r(1) by simp
  have "unat (k_entries t) + 1 \<le> unat (ip_list_tot md)" using assms(3) r(8) by simp
  moreover have "unat (ip_list_tot md) < 2 ^ 32" using unsigned_less [of "ip_list_tot md"] by simp
  ultimately have cnt: "unat (k_entries t + 1) = length ps + 1"
    using r(8) by (simp add: unat_word_ariths)
  have b: "bucket_at md ?t q = bucket_at md t q" if "q \<noteq> p" for q
    using that by (simp add: bucket_at_def)
  have bp: "bucket_at md ?t p = ?h" by (simp add: bucket_at_def)
  have f: "filter (\<lambda>q. bucket_at md ?t q = i) ps = filter (\<lambda>q. bucket_at md t q = i) ps" for i
  proof (rule filter_cong [OF refl])
    fix q assume "q \<in> set ps"
    then have "q \<noteq> p" using assms(4) by blast
    then show "(bucket_at md ?t q = i) = (bucket_at md t q = i)" by (simp add: b)
  qed
  have "iphash ?t ! i = filter (\<lambda>q. bucket_at md ?t q = i) (ps @ [p])" if "i < length (iphash t)" for i
  proof -
    have "iphash ?t ! i = (if i = ?h then iphash t ! i @ [p] else iphash t ! i)"
      using that h by (simp add: inited_def Let_def nth_list_update)
    then show ?thesis using r(6) [OF that] by (auto simp: f bp)
  qed
  moreover have "dom (k_heap ?t) = set (ps @ [p])" using r(5) by auto
  ultimately show ?thesis
    using r assms(3-5) cnt unfolding table_rel_def by (auto split: if_splits)
qed

lemma init_plain:
  assumes "table_rel md t ps" and "module_ok md"
  shows "recent_entry_init md jiffies None t a family ttl first = Done (None, init_evicted md t)"
    and "recent_entry_init md jiffies (Some (p, old)) t a family ttl first =
      Done (Some p, inited md (init_evicted md t) p
        (new_entry t a family ttl old (case first of None \<Rightarrow> jiffies | Some s \<Rightarrow> s)))"
proof -
  have n: "nstamps_max_mask (init_evicted md t) = nstamps_max_mask t" by (simp add: init_evicted_def)
  from evict_plain(2) [OF assms] obtain qs where "table_rel md (init_evicted md t) qs" by blast
  then have l: "\<not> length (iphash (init_evicted md t)) \<le> entry_bucket md a family"
    using bucket_in_range [OF assms(2)] table_relD(1) by (metis not_le)
  show "recent_entry_init md jiffies None t a family ttl first = Done (None, init_evicted md t)"
    unfolding recent_entry_init_def evict_plain(1) [OF assms] by (simp add: Let_def)
  show "recent_entry_init md jiffies (Some (p, old)) t a family ttl first =
      Done (Some p, inited md (init_evicted md t) p
        (new_entry t a family ttl old (case first of None \<Rightarrow> jiffies | Some s \<Rightarrow> s)))"
    unfolding recent_entry_init_def evict_plain(1) [OF assms]
    using l by (simp add: Let_def inited_def new_entry_def n)
qed

definition touched :: "recent_table \<Rightarrow> ptr \<Rightarrow> recent_entry \<Rightarrow> recent_table" where
  "touched t p e = t\<lparr>k_heap := (k_heap t)(p \<mapsto> e), lru_list := remove1 p (lru_list t) @ [p]\<rparr>"

lemma touched_fields [simp]:
  "k_heap (touched t p e) = (k_heap t)(p \<mapsto> e)" "lru_list (touched t p e) = remove1 p (lru_list t) @ [p]"
  "nstamps_max_mask (touched t p e) = nstamps_max_mask t" "k_name (touched t p e) = k_name t"
  "k_mask (touched t p e) = k_mask t" "k_refcnt (touched t p e) = k_refcnt t"
  "iphash (touched t p e) = iphash t" "k_entries (touched t p e) = k_entries t"
  by (simp_all add: touched_def)

lemma rewrite_plain:
  assumes "table_rel md t ps" and "k_heap t p = Some e" and "entry_ok (nstamps_max_mask t) e'"
    and "k_addr e' = k_addr e" and "k_family e' = k_family e"
    and "distinct ls" and "set ls = set ps"
  shows "table_rel md (t\<lparr>k_heap := (k_heap t)(p \<mapsto> e'), lru_list := ls\<rparr>) ps"
proof -
  note r = table_relD [OF assms(1)]
  have p: "p \<in> set ps" using assms(2) r(5) by auto
  have b: "bucket_at md (t\<lparr>k_heap := (k_heap t)(p \<mapsto> e'), lru_list := ls\<rparr>) q = bucket_at md t q" for q
    using assms(2,4,5) by (simp add: bucket_at_def)
  show ?thesis
    using r p assms(3,6,7) unfolding table_rel_def b by (auto split: if_splits)
qed

lemma update_plain:
  assumes "table_rel md t ps" and "k_heap t p = Some e"
  shows "recent_entry_update jiffies t p ns =
      Done (touched t p (stamped (nstamps_max_mask t) (case ns of None \<Rightarrow> jiffies | Some s \<Rightarrow> s) e))"
    and "table_rel md (touched t p (stamped (nstamps_max_mask t) s e)) ps"
proof -
  note r = table_relD [OF assms(1)]
  have ok: "entry_ok (nstamps_max_mask t) e" using r(7) [OF assms(2)] .
  then show "recent_entry_update jiffies t p ns =
      Done (touched t p (stamped (nstamps_max_mask t) (case ns of None \<Rightarrow> jiffies | Some s \<Rightarrow> s) e))"
    by (simp add: recent_entry_update_def deref_def assms(2) stamp_entry_ok touched_def)
  have p: "p \<in> set (lru_list t)" using assms(2) r(4,5) by auto
  show "table_rel md (touched t p (stamped (nstamps_max_mask t) s e)) ps"
    unfolding touched_def
    by (rule rewrite_plain [OF assms]) (use r p stamped_ok [OF ok] in auto)
qed

section \<open>Flushing\<close>

definition same_table :: "recent_table \<Rightarrow> recent_table \<Rightarrow> bool" where
  "same_table t t' \<longleftrightarrow> k_name t' = k_name t \<and> k_mask t' = k_mask t \<and> k_refcnt t' = k_refcnt t \<and>
     nstamps_max_mask t' = nstamps_max_mask t"

lemma same_table_refl [simp]: "same_table t t"
  by (simp add: same_table_def)

lemma same_table_trans [trans]: "same_table t u \<Longrightarrow> same_table u v \<Longrightarrow> same_table t v"
  by (simp add: same_table_def)

lemma same_table_ops [simp]:
  "same_table t (removed t p)" "same_table t (inited md t p e)" "same_table t (touched t p e)"
  "same_table t (init_evicted md t)"
  by (simp_all add: same_table_def init_evicted_def)

lemma remove_entries_plain:
  assumes "table_rel md t ps" and "distinct qs" and "set qs \<subseteq> set ps"
  shows "\<exists>t'. remove_entries t qs = Done t' \<and> table_rel md t' (filter (\<lambda>p. p \<notin> set qs) ps) \<and>
    same_table t t' \<and> k_heap t' = k_heap t |` (- set qs) \<and> length (iphash t') = length (iphash t)"
  using assms
proof (induction qs arbitrary: t ps)
  case (Cons q qs)
  note rm = remove_plain [OF Cons.prems(1), of q]
  have q: "q \<in> set ps" using Cons.prems(3) by simp
  have d: "distinct ps" using Cons.prems(1) table_relD(2) by blast
  have sub: "set qs \<subseteq> set (remove1 q ps)" using Cons.prems(2,3) d by auto
  have "distinct qs" using Cons.prems(2) by simp
  from Cons.IH [OF rm(2) [OF q] this sub] obtain t' where t':
    "remove_entries (removed t q) qs = Done t'"
    "table_rel md t' (filter (\<lambda>p. p \<notin> set qs) (remove1 q ps))" "same_table (removed t q) t'"
    "k_heap t' = k_heap (removed t q) |` (- set qs)" "length (iphash t') = length (iphash (removed t q))" by blast
  have "filter (\<lambda>p. p \<notin> set qs) (remove1 q ps) = filter (\<lambda>p. p \<notin> set (q # qs)) ps"
    unfolding distinct_remove1_removeAll [OF d] removeAll_filter_not_eq filter_filter
    by (rule filter_cong) auto
  moreover have "k_heap (removed t q) |` (- set qs) = k_heap t |` (- set (q # qs))"
    by (rule ext) (auto simp: restrict_map_def)
  ultimately show ?case
    using t' rm(1) [OF q] same_table_trans [OF same_table_ops(1) t'(3)] by (simp del: set_simps)
qed (simp add: restrict_map_def)

lemma flush_buckets_plain:
  assumes "table_rel md t ps" and "\<forall>i \<in> set is. i < length (iphash t)"
  shows "\<exists>t'. flush_buckets t is = Done t' \<and> table_rel md t' (filter (\<lambda>p. bucket_at md t p \<notin> set is) ps) \<and>
    same_table t t'"
  using assms
proof (induction "is" arbitrary: t ps)
  case (Cons i "is")
  note r = table_relD [OF Cons.prems(1)]
  have b: "iphash t ! i = filter (\<lambda>p. bucket_at md t p = i) ps"
    using r(6) [of i] Cons.prems(2) by simp
  then have "distinct (iphash t ! i)" "set (iphash t ! i) \<subseteq> set ps" using r(2) by auto
  from remove_entries_plain [OF Cons.prems(1) this] obtain t1 where t1:
    "remove_entries t (iphash t ! i) = Done t1" "same_table t t1" "length (iphash t1) = length (iphash t)"
    "table_rel md t1 (filter (\<lambda>p. p \<notin> set (iphash t ! i)) ps)"
    "k_heap t1 = k_heap t |` (- set (iphash t ! i))" by blast
  let ?ps = "filter (\<lambda>p. p \<notin> set (iphash t ! i)) ps"
  have bk: "bucket_at md t1 p = bucket_at md t p" if "p \<in> set ?ps" for p
    using that by (simp add: bucket_at_def t1(5))
  from Cons.IH [OF t1(4)] Cons.prems(2) t1(3) obtain t2 where t2: "flush_buckets t1 is = Done t2"
    "table_rel md t2 (filter (\<lambda>p. bucket_at md t1 p \<notin> set is) ?ps)" "same_table t1 t2" by auto
  have "filter (\<lambda>p. bucket_at md t1 p \<notin> set is) ?ps = filter (\<lambda>p. bucket_at md t p \<notin> set is) ?ps"
    by (rule filter_cong) (auto simp: bk)
  also have "\<dots> = filter (\<lambda>p. bucket_at md t p \<notin> set (i # is)) ps"
    unfolding filter_filter b by (rule filter_cong) auto
  finally have "filter (\<lambda>p. bucket_at md t1 p \<notin> set is) ?ps = filter (\<lambda>p. bucket_at md t p \<notin> set (i # is)) ps" .
  with t1 t2 Cons.prems(2) same_table_trans [OF t1(2) t2(3)] show ?case by simp
qed simp

lemma flush_plain:
  assumes "table_rel md t ps" and "module_ok md"
  obtains t' where "recent_table_flush md t = Done t'" "table_rel md t' []" "same_table t t'"
proof -
  note r = table_relD [OF assms(1)]
  have l: "\<forall>i \<in> set [0..<unat (ip_list_hash_size md)]. i < length (iphash t)" using r(1) by simp
  have "bucket_at md t p < unat (ip_list_hash_size md)" if "p \<in> set ps" for p
    using that r(5) bucket_in_range [OF assms(2)] by (auto simp: bucket_at_def split: option.splits)
  then have "filter (\<lambda>p. bucket_at md t p \<notin> set [0..<unat (ip_list_hash_size md)]) ps = []"
    by (simp add: filter_empty_conv)
  with flush_buckets_plain [OF assms(1) l] that show ?thesis by (auto simp: recent_table_flush_def)
qed

text \<open>An empty table has no memory in use.\<close>

lemma table_rel_empty: "table_rel md t [] \<Longrightarrow> k_heap t = Map.empty \<and> lru_list t = []"
  by (auto simp: table_rel_def)

end
