(* ===== verification/Xt_Recent_Match.thy ===== *)
theory Xt_Recent_Match
  imports Xt_Recent_Table
begin

text \<open>
  \<open>kmodule/xt_recent-4.9.13.c\<close>: the \<open>recent\<close> match, that is what a firewall rule does with a packet, the
  checks when a rule is added and removed, and the module's start and end. Time, memory and the other
  answers of the kernel are arguments; the constants and structures of \<open>linux/netfilter/xt_recent.h\<close> are
  written with their names.
\<close>

section \<open>Rules and packets\<close>

datatype recent_flag = XT_RECENT_CHECK | XT_RECENT_SET | XT_RECENT_UPDATE | XT_RECENT_REMOVE
  | XT_RECENT_TTL | XT_RECENT_REAP | XT_RECENT_unknown

record xt_recent_mtinfo =
  i_seconds :: u32
  i_hit_count :: u32
  i_check_set :: "recent_flag list"
  i_invert :: bool
  i_name :: string
  i_dest :: bool
  i_mask :: nf_inet_addr

text \<open>The addresses are those of the header, 4 or 16 bytes; \<open>skb_forwarded\<close> is \<open>par->out != NULL &&
  skb->sk == NULL\<close>.\<close>

record sk_buff =
  skb_saddr :: "byte list"
  skb_daddr :: "byte list"
  skb_ttl :: byte
  skb_forwarded :: bool

record 't recent_net =
  tables :: "'t list"
  proc_files :: "string list option"

definition nf_inet_addr_mask :: "nf_inet_addr \<Rightarrow> nf_inet_addr \<Rightarrow> nf_inet_addr" where
  "nf_inet_addr_mask a m = map2 (AND) a m"

definition set_table ::
    "'a recent_table_32_scheme \<Rightarrow> ('a recent_table_32_scheme) recent_net \<Rightarrow>
     ('a recent_table_32_scheme) recent_net" where
  "set_table t net = net\<lparr>tables := map (\<lambda>x. if k_name x = k_name t then t else x) (tables net)\<rparr>"

section \<open>The match\<close>

definition packet_addr :: "nfproto \<Rightarrow> xt_recent_mtinfo \<Rightarrow> sk_buff \<Rightarrow> nf_inet_addr" where
  "packet_addr family info skb =
     (let raw = (if i_dest info then skb_daddr skb else skb_saddr skb)
      in if family = NFPROTO_IPV4 then ipv4_addr raw else raw)"

definition packet_ttl :: "sk_buff \<Rightarrow> byte" where
  "packet_ttl skb = (if skb_forwarded skb then skb_ttl skb + 1 else skb_ttl skb)"

text \<open>The loop over the stamps: whether \<open>hits\<close> reaches the rule's count.\<close>

fun hit_loop :: "xt_recent_mtinfo \<Rightarrow> u64 \<Rightarrow> recent_entry \<Rightarrow> nat list \<Rightarrow> u32 \<Rightarrow> bool run" where
  "hit_loop info time e [] hits = Done False"
| "hit_loop info time e (i # is) hits =
     (if length (k_stamps e) \<le> i then Fault
      else if i_seconds info \<noteq> 0 \<and> time_after time (k_stamps e ! i) then hit_loop info time e is hits
      else if i_hit_count info = 0 \<or> i_hit_count info \<le> hits + 1 then Done True
      else hit_loop info time e is (hits + 1))"

text \<open>The subtraction of the seconds is in 32 bits before it is widened.\<close>

definition match_time :: "u32 \<Rightarrow> u64 \<Rightarrow> xt_recent_mtinfo \<Rightarrow> u64" where
  "match_time HZ jiffies info = jiffies - ucast (i_seconds info * HZ)"

definition match_found ::
    "u32 \<Rightarrow> u64 \<Rightarrow> xt_recent_mtinfo \<Rightarrow> byte \<Rightarrow> recent_table \<Rightarrow> ptr \<Rightarrow> (bool \<times> recent_table) run" where
  "match_found HZ jiffies info ttl t p =
     (let cs = set (i_check_set info); ret = i_invert info
      in run_bind
           (if XT_RECENT_SET \<in> cs then Done (\<not> ret, t)
            else if XT_RECENT_REMOVE \<in> cs then run_bind (recent_entry_remove t p) (\<lambda>t. Done (\<not> ret, t))
            else if XT_RECENT_CHECK \<in> cs \<or> XT_RECENT_UPDATE \<in> cs then
              (let time = match_time HZ jiffies info
               in run_bind (deref t p) (\<lambda>e.
                    run_bind (hit_loop info time e [0..<unat (k_nstamps e)] 0) (\<lambda>hit.
                      let ret = (if hit then \<not> ret else ret)
                      in if XT_RECENT_REAP \<in> cs
                         then run_bind (recent_entry_reap t time) (\<lambda>t. Done (ret, t))
                         else Done (ret, t))))
            else Done (ret, t))
           (\<lambda>(ret, t).
              if XT_RECENT_SET \<in> cs \<or> XT_RECENT_UPDATE \<in> cs \<and> ret then
                run_bind (recent_entry_update jiffies t p None) (\<lambda>t.
                  run_bind (deref t p) (\<lambda>e.
                    Done (ret, t\<lparr>k_heap := (k_heap t)(p \<mapsto> e\<lparr>k_ttl := ttl\<rparr>)\<rparr>)))
              else Done (ret, t)))"

text \<open>\<open>match_table\<close> is \<open>recent_mt\<close> after the table is found: the verdict, \<open>hotdrop\<close> and the table.\<close>

definition match_table ::
    "recent_module \<Rightarrow> u32 \<Rightarrow> u64 \<Rightarrow> (ptr \<times> (nat \<Rightarrow> u64)) option \<Rightarrow> nfproto \<Rightarrow> xt_recent_mtinfo \<Rightarrow> sk_buff \<Rightarrow>
     recent_table \<Rightarrow> (bool \<times> bool \<times> recent_table) run" where
  "match_table md HZ jiffies mem family info skb t =
     (let cs = set (i_check_set info); ret = i_invert info; ttl = packet_ttl skb;
          addr_mask = nf_inet_addr_mask (packet_addr family info skb) (k_mask t)
      in run_bind (recent_entry_lookup md t addr_mask family (if XT_RECENT_TTL \<in> cs then ttl else 0)) (\<lambda>e.
           case e of
             None \<Rightarrow>
               if XT_RECENT_SET \<notin> cs then Done (ret, False, t)
               else run_bind (recent_entry_init md jiffies mem t addr_mask family ttl None)
                      (\<lambda>(e, t). Done (\<not> ret, e = None, t))
           | Some p \<Rightarrow>
               run_bind (match_found HZ jiffies info ttl t p) (\<lambda>(ret, t). Done (ret, False, t))))"

text \<open>Without the table, the null pointer is followed.\<close>

definition recent_mt ::
    "recent_module \<Rightarrow> u32 \<Rightarrow> u64 \<Rightarrow> (ptr \<times> (nat \<Rightarrow> u64)) option \<Rightarrow> nfproto \<Rightarrow> xt_recent_mtinfo \<Rightarrow> sk_buff \<Rightarrow>
     recent_table recent_net \<Rightarrow> (bool \<times> bool \<times> recent_table recent_net) run" where
  "recent_mt md HZ jiffies mem family info skb net =
     (case recent_table_lookup (tables net) (i_name info) of
        None \<Rightarrow> Fault
      | Some t \<Rightarrow> run_bind (match_table md HZ jiffies mem family info skb t)
                    (\<lambda>(ret, hotdrop, t). Done (ret, hotdrop, set_table t net)))"

section \<open>Adding and removing a rule\<close>

datatype errno = EINVAL | ENOMEM | EFAULT | ESPIPE

definition XT_RECENT_MAX_NSTAMPS :: u32 where
  "XT_RECENT_MAX_NSTAMPS = 256"

definition XT_RECENT_NAME_LEN :: nat where
  "XT_RECENT_NAME_LEN = 200"

fun roundup_pow_of_two :: "nat \<Rightarrow> nat" where
  "roundup_pow_of_two n = (if n \<le> 1 then 1 else 2 * roundup_pow_of_two ((n + 1) div 2))"

declare roundup_pow_of_two.simps [simp del]

definition new_recent_table :: "recent_module \<Rightarrow> xt_recent_mtinfo \<Rightarrow> byte \<Rightarrow> recent_table" where
  "new_recent_table md info nstamp_mask =
     \<lparr>k_name = i_name info, k_refcnt = 1, k_entries = 0, k_heap = Map.empty, lru_list = [],
      iphash = replicate (unat (ip_list_hash_size md)) [], k_mask = i_mask info, nstamps_max_mask = nstamp_mask\<rparr>"

definition check_rejects :: "xt_recent_mtinfo \<Rightarrow> bool" where
  "check_rejects info =
     (let cs = set (i_check_set info)
      in XT_RECENT_unknown \<in> cs \<or>
         card (cs \<inter> {XT_RECENT_SET, XT_RECENT_REMOVE, XT_RECENT_CHECK, XT_RECENT_UPDATE}) \<noteq> 1 \<or>
         (XT_RECENT_SET \<in> cs \<or> XT_RECENT_REMOVE \<in> cs) \<and>
           (i_seconds info \<noteq> 0 \<or> i_hit_count info \<noteq> 0 \<or> XT_RECENT_TTL \<in> cs \<or> XT_RECENT_REAP \<in> cs) \<or>
         XT_RECENT_REAP \<in> cs \<and> i_seconds info = 0 \<or>
         XT_RECENT_MAX_NSTAMPS \<le> i_hit_count info \<or>
         i_name info = [] \<or> XT_RECENT_NAME_LEN \<le> length (i_name info))"

definition nstamp_mask_of :: "recent_module \<Rightarrow> xt_recent_mtinfo \<Rightarrow> nat" where
  "nstamp_mask_of md info =
     (if ip_pkt_list_tot md \<noteq> 0 \<and> i_hit_count info < ip_pkt_list_tot md
      then roundup_pow_of_two (unat (ip_pkt_list_tot md)) - 1
      else if i_hit_count info \<noteq> 0 then roundup_pow_of_two (unat (i_hit_count info)) - 1
      else 32 - 1)"

text \<open>The answers of the kernel: memory, valid owner ids, and the file in \<open>/proc\<close>.\<close>

definition recent_mt_check ::
    "recent_module \<Rightarrow> bool \<Rightarrow> bool \<Rightarrow> bool \<Rightarrow> xt_recent_mtinfo \<Rightarrow> recent_table recent_net \<Rightarrow>
     ((errno + unit) \<times> recent_table recent_net) run" where
  "recent_mt_check md mem_ok ids_ok proc_ok info net =
     (if check_rejects info then Done (Inl EINVAL, net)
      else
        (let nstamp_mask = nstamp_mask_of md info
         in case recent_table_lookup (tables net) (i_name info) of
              Some t \<Rightarrow>
                run_bind (if unat (nstamps_max_mask t) < nstamp_mask
                          then run_bind (recent_table_flush md t)
                                 (\<lambda>t. Done (t\<lparr>nstamps_max_mask := word_of_nat nstamp_mask\<rparr>))
                          else Done t)
                  (\<lambda>t. Done (Inr (), set_table (t\<lparr>k_refcnt := k_refcnt t + 1\<rparr>) net))
            | None \<Rightarrow>
                if \<not> mem_ok then Done (Inl ENOMEM, net)
                else if \<not> ids_ok then Done (Inl EINVAL, net)
                else if \<not> proc_ok then Done (Inl ENOMEM, net)
                else
                  (let t = new_recent_table md info (word_of_nat nstamp_mask)
                   in Done (Inr (), net\<lparr>tables := tables net @ [t],
                        proc_files := map_option (\<lambda>fs. fs @ [k_name t]) (proc_files net)\<rparr>))))"

text \<open>Revision 0 of the rule has no mask; all bits are compared.\<close>

definition recent_mt_check_v0 ::
    "recent_module \<Rightarrow> bool \<Rightarrow> bool \<Rightarrow> bool \<Rightarrow> xt_recent_mtinfo \<Rightarrow> recent_table recent_net \<Rightarrow>
     ((errno + unit) \<times> recent_table recent_net) run" where
  "recent_mt_check_v0 md mem_ok ids_ok proc_ok info net =
     recent_mt_check md mem_ok ids_ok proc_ok (info\<lparr>i_mask := replicate 16 0xff\<rparr>) net"

definition recent_mt_check_v1 ::
    "recent_module \<Rightarrow> bool \<Rightarrow> bool \<Rightarrow> bool \<Rightarrow> xt_recent_mtinfo \<Rightarrow> recent_table recent_net \<Rightarrow>
     ((errno + unit) \<times> recent_table recent_net) run" where
  "recent_mt_check_v1 md mem_ok ids_ok proc_ok info net = recent_mt_check md mem_ok ids_ok proc_ok info net"

definition recent_mt_destroy ::
    "recent_module \<Rightarrow> xt_recent_mtinfo \<Rightarrow> ('a recent_table_32_scheme) recent_net \<Rightarrow>
     ('a recent_table_32_scheme) recent_net run" where
  "recent_mt_destroy md info net =
     (case recent_table_lookup (tables net) (i_name info) of
        None \<Rightarrow> Fault
      | Some t \<Rightarrow>
          (let t = t\<lparr>k_refcnt := k_refcnt t - 1\<rparr>
           in if k_refcnt t = 0
              then run_bind (recent_table_flush md t) (\<lambda>_.
                     Done (net\<lparr>tables := filter (\<lambda>x. k_name x \<noteq> k_name t) (tables net),
                       proc_files := map_option (removeAll (k_name t)) (proc_files net)\<rparr>))
              else Done (set_table t net)))"

section \<open>The module\<close>

definition recent_proc_net_init :: "bool \<Rightarrow> (errno + string list option)" where
  "recent_proc_net_init proc_ok = (if \<not> proc_ok then Inl ENOMEM else Inr (Some []))"

definition recent_net_init :: "bool \<Rightarrow> (errno + 't recent_net)" where
  "recent_net_init proc_ok =
     (case recent_proc_net_init proc_ok of
        Inl e \<Rightarrow> Inl e
      | Inr dir \<Rightarrow> Inr \<lparr>tables = [], proc_files = dir\<rparr>)"

text \<open>Every table's file goes, then the directory; the tables themselves stay for \<open>recent_mt_destroy\<close>.\<close>

definition recent_proc_net_exit :: "'t recent_net \<Rightarrow> 't recent_net" where
  "recent_proc_net_exit net = net\<lparr>proc_files := None\<rparr>"

definition recent_net_exit :: "'t recent_net \<Rightarrow> 't recent_net" where
  "recent_net_exit net = recent_proc_net_exit net"

fun fls :: "nat \<Rightarrow> nat" where
  "fls n = (if n = 0 then 0 else Suc (fls (n div 2)))"

declare fls.simps [simp del]

text \<open>The size of the hash table from \<open>ip_list_tot\<close>; shifting a 32-bit number by 32 is undefined.\<close>

definition recent_mt_init :: "recent_module \<Rightarrow> (errno + recent_module) run" where
  "recent_mt_init md =
     (if ip_list_tot md = 0 \<or> XT_RECENT_MAX_NSTAMPS \<le> ip_pkt_list_tot md then Done (Inl EINVAL)
      else if 32 \<le> fls (unat (ip_list_tot md)) then Fault
      else Done (Inr (md\<lparr>ip_list_hash_size := push_bit (fls (unat (ip_list_tot md))) 1\<rparr>)))"

section \<open>What a rule does\<close>

definition fresh_stamp :: "xt_recent_mtinfo \<Rightarrow> u64 \<Rightarrow> u64 \<Rightarrow> bool" where
  "fresh_stamp info time s \<longleftrightarrow> i_seconds info = 0 \<or> \<not> time_after time s"

text \<open>The rule's condition on the stamps of an entry, as the documentation has it: at least \<open>hit_count\<close>
  of them within the last \<open>seconds\<close>.\<close>

definition rule_hit :: "xt_recent_mtinfo \<Rightarrow> u64 \<Rightarrow> recent_entry \<Rightarrow> bool" where
  "rule_hit info time e \<longleftrightarrow>
     max 1 (unat (i_hit_count info)) \<le>
       length (filter (fresh_stamp info time) (take (unat (k_nstamps e)) (k_stamps e)))"

lemma hit_loop_count:
  assumes "\<forall>i \<in> set is. i < length (k_stamps e)" and "unat h + length is < 2 ^ 32"
    and "i_hit_count info \<noteq> 0 \<longrightarrow> h < i_hit_count info"
  shows "hit_loop info time e is h = Done
    (let n = length (filter (\<lambda>i. fresh_stamp info time (k_stamps e ! i)) is)
     in if i_hit_count info = 0 then 0 < n else unat (i_hit_count info) \<le> unat h + n)"
  using assms
proof (induction "is" arbitrary: h)
  case Nil
  then show ?case by (auto simp: word_less_nat_alt)
next
  case (Cons i "is")
  have h1: "unat (h + 1) = unat h + 1" using Cons.prems(2) by (simp add: unat_word_ariths)
  show ?case
  proof (cases "fresh_stamp info time (k_stamps e ! i)")
    case False
    with Cons show ?thesis by (simp add: fresh_stamp_def Let_def)
  next
    case fresh: True
    show ?thesis
    proof (cases "i_hit_count info = 0 \<or> i_hit_count info \<le> h + 1")
      case True
      with fresh Cons.prems(1) show ?thesis
        by (auto simp: fresh_stamp_def Let_def word_le_nat_alt h1)
    next
      case False
      then have "h + 1 < i_hit_count info" by (simp add: not_le)
      with Cons.IH [of "h + 1"] Cons.prems fresh False show ?thesis
        by (auto simp: fresh_stamp_def Let_def h1)
    qed
  qed
qed

lemma take_map_nth: "n \<le> length xs \<Longrightarrow> take n xs = map ((!) xs) [0..<n]"
  by (rule nth_equalityI) auto

lemma hit_loop_rule:
  assumes "entry_ok m e"
  shows "hit_loop info time e [0..<unat (k_nstamps e)] 0 = Done (rule_hit info time e)"
proof -
  have n: "unat (k_nstamps e) \<le> length (k_stamps e)" "unat (k_nstamps e) \<le> 256"
    using assms unat_byte_less [of m] by (auto simp: entry_ok_def simp del: unat_byte_less)
  have "length (filter (\<lambda>i. fresh_stamp info time (k_stamps e ! i)) [0..<unat (k_nstamps e)]) =
      length (filter (fresh_stamp info time) (take (unat (k_nstamps e)) (k_stamps e)))"
    by (simp add: take_map_nth [OF n(1)] filter_map comp_def)
  moreover have "unat (i_hit_count info) = 0 \<longleftrightarrow> i_hit_count info = 0" by (simp add: unat_eq_0)
  ultimately show ?thesis
    using n hit_loop_count [of "[0..<unat (k_nstamps e)]" e 0 info time]
    by (auto simp: rule_hit_def Let_def word_gt_0 max_def Suc_le_eq)
qed

text \<open>
  The three outcomes when the address is in the table, as \<open>recent_mt_check\<close> lets the flags combine: a
  rule has exactly one of the four commands.
\<close>

lemma deref_Some: "k_heap t p = Some e \<Longrightarrow> deref t p = Done e"
  by (simp add: deref_def)

definition seen :: "u64 \<Rightarrow> byte \<Rightarrow> recent_table \<Rightarrow> ptr \<Rightarrow> recent_entry \<Rightarrow> recent_table" where
  "seen jiffies ttl t p e = touched t p ((stamped (nstamps_max_mask t) jiffies e)\<lparr>k_ttl := ttl\<rparr>)"

lemma entry_ok_ttl [simp]: "entry_ok m (e\<lparr>k_ttl := ttl\<rparr>) = entry_ok m e"
  by (simp add: entry_ok_def)

lemma seen_plain:
  assumes "table_rel md t ps" and "k_heap t p = Some e"
  shows "run_bind (recent_entry_update jiffies t p None) (\<lambda>t. run_bind (deref t p) (\<lambda>e.
      Done (ret, t\<lparr>k_heap := (k_heap t)(p \<mapsto> e\<lparr>k_ttl := ttl\<rparr>)\<rparr>))) = Done (ret, seen jiffies ttl t p e)"
    and "table_rel md (seen jiffies ttl t p e) ps"
proof -
  note r = table_relD [OF assms(1)]
  show "run_bind (recent_entry_update jiffies t p None) (\<lambda>t. run_bind (deref t p) (\<lambda>e.
      Done (ret, t\<lparr>k_heap := (k_heap t)(p \<mapsto> e\<lparr>k_ttl := ttl\<rparr>)\<rparr>))) = Done (ret, seen jiffies ttl t p e)"
    unfolding update_plain(1) [OF assms] by (simp add: deref_def seen_def touched_def)
  have p: "p \<in> set (lru_list t)" using assms(2) r(4,5) by auto
  show "table_rel md (seen jiffies ttl t p e) ps"
    unfolding seen_def touched_def
    by (rule rewrite_plain [OF assms]) (use r p stamped_ok [OF r(7) [OF assms(2)]] in auto)
qed

lemma match_found_plain:
  assumes "table_rel md t ps" and "k_heap t p = Some e"
  shows
    "XT_RECENT_SET \<in> set (i_check_set info) \<Longrightarrow>
       match_found HZ jiffies info ttl t p = Done (\<not> i_invert info, seen jiffies ttl t p e)"
    "XT_RECENT_SET \<notin> set (i_check_set info) \<Longrightarrow> XT_RECENT_REMOVE \<in> set (i_check_set info) \<Longrightarrow>
       XT_RECENT_UPDATE \<notin> set (i_check_set info) \<Longrightarrow>
       match_found HZ jiffies info ttl t p = Done (\<not> i_invert info, removed t p)"
    "XT_RECENT_SET \<notin> set (i_check_set info) \<Longrightarrow> XT_RECENT_REMOVE \<notin> set (i_check_set info) \<Longrightarrow>
       XT_RECENT_CHECK \<in> set (i_check_set info) \<or> XT_RECENT_UPDATE \<in> set (i_check_set info) \<Longrightarrow>
       XT_RECENT_REAP \<notin> set (i_check_set info) \<Longrightarrow>
       match_found HZ jiffies info ttl t p =
         (let ret = (i_invert info \<noteq> rule_hit info (match_time HZ jiffies info) e)
          in Done (ret, if XT_RECENT_UPDATE \<in> set (i_check_set info) \<and> ret then seen jiffies ttl t p e else t))"
proof -
  note r = table_relD [OF assms(1)]
  have ok: "entry_ok (nstamps_max_mask t) e" using r(7) [OF assms(2)] .
  have p: "p \<in> set ps" using assms(2) r(5) by auto
  note u = seen_plain(1) [OF assms]
  show "match_found HZ jiffies info ttl t p = Done (\<not> i_invert info, seen jiffies ttl t p e)"
    if "XT_RECENT_SET \<in> set (i_check_set info)"
    using that by (simp add: match_found_def Let_def u)
  show "match_found HZ jiffies info ttl t p = Done (\<not> i_invert info, removed t p)"
    if "XT_RECENT_SET \<notin> set (i_check_set info)" "XT_RECENT_REMOVE \<in> set (i_check_set info)"
      "XT_RECENT_UPDATE \<notin> set (i_check_set info)"
    using that by (simp add: match_found_def Let_def remove_plain(1) [OF assms(1) p])
  show "match_found HZ jiffies info ttl t p =
      (let ret = (i_invert info \<noteq> rule_hit info (match_time HZ jiffies info) e)
       in Done (ret, if XT_RECENT_UPDATE \<in> set (i_check_set info) \<and> ret then seen jiffies ttl t p e else t))"
    if "XT_RECENT_SET \<notin> set (i_check_set info)" "XT_RECENT_REMOVE \<notin> set (i_check_set info)"
      "XT_RECENT_CHECK \<in> set (i_check_set info) \<or> XT_RECENT_UPDATE \<in> set (i_check_set info)"
      "XT_RECENT_REAP \<notin> set (i_check_set info)"
    using that by (simp add: match_found_def Let_def deref_Some [OF assms(2)] hit_loop_rule [OF ok] u)
qed

definition match_key :: "nfproto \<Rightarrow> xt_recent_mtinfo \<Rightarrow> sk_buff \<Rightarrow> recent_table \<Rightarrow> nf_inet_addr" where
  "match_key family info skb t = nf_inet_addr_mask (packet_addr family info skb) (k_mask t)"

definition key_ttl :: "xt_recent_mtinfo \<Rightarrow> sk_buff \<Rightarrow> byte" where
  "key_ttl info skb = (if XT_RECENT_TTL \<in> set (i_check_set info) then packet_ttl skb else 0)"

lemma match_table_plain:
  assumes "table_rel md t ps" and "module_ok md"
  shows "match_table md HZ jiffies mem family info skb t =
    (case plain_lookup t ps (match_key family info skb t) family (key_ttl info skb) of
       None \<Rightarrow>
         if XT_RECENT_SET \<notin> set (i_check_set info) then Done (i_invert info, False, t)
         else (case mem of
           None \<Rightarrow> Done (\<not> i_invert info, True, init_evicted md t)
         | Some (p, old) \<Rightarrow> Done (\<not> i_invert info, False, inited md (init_evicted md t) p
             (new_entry t (match_key family info skb t) family (packet_ttl skb) old jiffies)))
     | Some p \<Rightarrow> run_bind (match_found HZ jiffies info (packet_ttl skb) t p) (\<lambda>(ret, t). Done (ret, False, t)))"
proof -
  note i = init_plain [OF assms, of jiffies]
  show ?thesis
    unfolding match_table_def Let_def lookup_plain [OF assms] match_key_def key_ttl_def
    by (auto simp: i split: option.split)
qed

text \<open>A rule as \<open>recent_mt_check\<close> accepts it.\<close>

lemma accepted_flags:
  assumes "\<not> check_rejects info"
  obtains (set) "set (i_check_set info) = {XT_RECENT_SET}"
  | (remove) "set (i_check_set info) = {XT_RECENT_REMOVE}"
  | (check) "XT_RECENT_CHECK \<in> set (i_check_set info)"
      "XT_RECENT_SET \<notin> set (i_check_set info)" "XT_RECENT_REMOVE \<notin> set (i_check_set info)"
      "XT_RECENT_UPDATE \<notin> set (i_check_set info)"
  | (update) "XT_RECENT_UPDATE \<in> set (i_check_set info)"
      "XT_RECENT_SET \<notin> set (i_check_set info)" "XT_RECENT_REMOVE \<notin> set (i_check_set info)"
      "XT_RECENT_CHECK \<notin> set (i_check_set info)"
proof -
  let ?cs = "set (i_check_set info)" and ?K = "{XT_RECENT_SET, XT_RECENT_REMOVE, XT_RECENT_CHECK, XT_RECENT_UPDATE}"
  have "card (?cs \<inter> ?K) = 1" using assms by (simp add: check_rejects_def Let_def)
  then obtain f where f: "?cs \<inter> ?K = {f}" by (auto simp: card_1_singleton_iff)
  have all: "x = XT_RECENT_CHECK \<or> x = XT_RECENT_SET \<or> x = XT_RECENT_UPDATE \<or> x = XT_RECENT_REMOVE \<or>
      x = XT_RECENT_TTL \<or> x = XT_RECENT_REAP \<or> x = XT_RECENT_unknown" for x
    by (cases x) auto
  have mods: "XT_RECENT_SET \<in> ?cs \<or> XT_RECENT_REMOVE \<in> ?cs \<Longrightarrow> XT_RECENT_TTL \<notin> ?cs \<and> XT_RECENT_REAP \<notin> ?cs"
    "XT_RECENT_unknown \<notin> ?cs"
    using assms by (auto simp: check_rejects_def Let_def)
  from f have "f \<in> ?K" by blast
  then consider "f = XT_RECENT_SET" | "f = XT_RECENT_REMOVE" | "f = XT_RECENT_CHECK" | "f = XT_RECENT_UPDATE"
    by blast
  then show ?thesis
  proof cases
    case 1
    with f mods have "?cs \<subseteq> {XT_RECENT_SET}" using all by fastforce
    with f 1 show ?thesis by (intro set) blast
  next
    case 2
    with f mods have "?cs \<subseteq> {XT_RECENT_REMOVE}" using all by fastforce
    with f 2 show ?thesis by (intro remove) blast
  next
    case 3
    with f show ?thesis by (intro check) auto
  next
    case 4
    with f show ?thesis by (intro update) auto
  qed
qed

section \<open>The invariant of the tables\<close>

definition table_ok :: "recent_module \<Rightarrow> recent_table \<Rightarrow> bool" where
  "table_ok md t \<longleftrightarrow> (\<exists>ps. table_rel md t ps)"

lemma inited_after_evict:
  assumes "table_rel md t ps" and "module_ok md" and "p \<notin> set ps"
    and "entry_ok (nstamps_max_mask t) e"
  shows "\<exists>qs. table_rel md (init_evicted md t) qs \<and> set qs \<subseteq> set ps \<and>
    table_rel md (inited md (init_evicted md t) p e) (qs @ [p])"
proof -
  from evict_plain(2) [OF assms(1,2)] obtain qs where qs: "table_rel md (init_evicted md t) qs" "set qs \<subseteq> set ps"
    "length qs < unat (ip_list_tot md)" by blast
  have "nstamps_max_mask (init_evicted md t) = nstamps_max_mask t" by (simp add: init_evicted_def)
  with insert_plain [OF qs(1) assms(2) qs(3), of p e] qs assms(3,4) show ?thesis by auto
qed

lemma reap_plain:
  assumes "table_rel md t ps" and "ps \<noteq> []" and "nstamps_max_mask t \<noteq> 255"
  shows "\<exists>t'. recent_entry_reap t time = Done t' \<and> (t' = t \<or> t' = removed t (hd (lru_list t))) \<and>
    table_ok md t'"
proof -
  note r = table_relD [OF assms(1)]
  obtain p ls where l: "lru_list t = p # ls" using r(10) assms(2) by (cases "lru_list t") auto
  then have p: "p \<in> set ps" using r(4) by auto
  then obtain e where e: "k_heap t p = Some e" using r(5) by auto
  have ok: "entry_ok (nstamps_max_mask t) e" using r(7) [OF e] .
  then have "k_index e \<noteq> 0" "\<not> length (k_stamps e) < unat (k_index e)"
    using assms(3) by (auto simp: entry_ok_def)
  with remove_plain [OF assms(1) p] assms(1) show ?thesis
    by (auto simp: recent_entry_reap_def l deref_Some [OF e] table_ok_def)
qed

lemma match_found_ok:
  assumes "table_rel md t ps" and "k_heap t p = Some e" and "\<not> check_rejects info"
    and "XT_RECENT_REAP \<in> set (i_check_set info) \<longrightarrow>
      XT_RECENT_UPDATE \<notin> set (i_check_set info) \<and> nstamps_max_mask t \<noteq> 255"
  shows "\<exists>ret t'. match_found HZ jiffies info ttl t p = Done (ret, t') \<and> table_ok md t' \<and> same_table t t'"
proof -
  note r = table_relD [OF assms(1)] and f = match_found_plain [OF assms(1,2)]
  have p: "p \<in> set ps" using assms(2) r(5) by auto
  have sn: "table_ok md (seen jiffies ttl t p e)" "same_table t (seen jiffies ttl t p e)"
    using seen_plain(2) [OF assms(1,2)] by (auto simp: table_ok_def seen_def)
  have rm: "table_ok md (removed t p)" using remove_plain(2) [OF assms(1) p] by (auto simp: table_ok_def)
  have t: "table_ok md t" using assms(1) by (auto simp: table_ok_def)
  show ?thesis
    using assms(3)
  proof (cases rule: accepted_flags)
    case set
    with f(1) sn show ?thesis by simp
  next
    case remove
    with f(2) rm show ?thesis by simp
  next
    case check
    show ?thesis
    proof (cases "XT_RECENT_REAP \<in> set (i_check_set info)")
      case False
      with f(3) check t show ?thesis by (simp add: Let_def)
    next
      case True
      have "ps \<noteq> []" using p by auto
      with reap_plain [OF assms(1)] True assms(4) obtain t' where
        t': "recent_entry_reap t (match_time HZ jiffies info) = Done t'" "t' = t \<or> t' = removed t (hd (lru_list t))"
          "table_ok md t'" by blast
      have ok: "entry_ok (nstamps_max_mask t) e" using r(7) [OF assms(2)] .
      from t' check True show ?thesis
        by (auto simp: match_found_def Let_def deref_Some [OF assms(2)] hit_loop_rule [OF ok])
    qed
  next
    case update
    with assms(4) have "XT_RECENT_REAP \<notin> set (i_check_set info)" by blast
    with f(3) update t sn show ?thesis by (auto simp: Let_def)
  qed
qed

lemma match_table_ok:
  assumes "table_rel md t ps" and "module_ok md" and "\<not> check_rejects info"
    and "XT_RECENT_REAP \<in> set (i_check_set info) \<longrightarrow>
      XT_RECENT_UPDATE \<notin> set (i_check_set info) \<and> nstamps_max_mask t \<noteq> 255"
    and "\<And>p old. mem = Some (p, old) \<Longrightarrow> p \<notin> set ps"
  shows "\<exists>ret drop t'. match_table md HZ jiffies mem family info skb t = Done (ret, drop, t') \<and>
    table_ok md t' \<and> same_table t t'"
proof -
  note r = table_relD [OF assms(1)]
  let ?k = "match_key family info skb t"
  show ?thesis
  proof (cases "plain_lookup t ps ?k family (key_ttl info skb)")
    case None
    show ?thesis
    proof (cases "XT_RECENT_SET \<in> set (i_check_set info)")
      case False
      with None assms(1) show ?thesis by (auto simp: match_table_plain [OF assms(1,2)] table_ok_def)
    next
      case True
      show ?thesis
      proof (cases mem)
        case None': None
        from evict_plain(2) [OF assms(1,2)] have "table_ok md (init_evicted md t)" by (auto simp: table_ok_def)
        with None True None' show ?thesis by (simp add: match_table_plain [OF assms(1,2)]) blast
      next
        case (Some m)
        obtain p old where m: "m = (p, old)" by force
        have "table_ok md (inited md (init_evicted md t) p (new_entry t ?k family (packet_ttl skb) old jiffies))"
          using inited_after_evict [OF assms(1,2) assms(5) [OF Some [unfolded m]] new_entry_ok]
          unfolding table_ok_def by blast
        with None True Some m show ?thesis
          using same_table_trans [OF same_table_ops(4) same_table_ops(2)]
          by (simp add: match_table_plain [OF assms(1,2)]) blast
      qed
    qed
  next
    case (Some p)
    then obtain e where e: "k_heap t p = Some e" using plain_lookup_Some(2) by blast
    from match_found_ok [OF assms(1) e assms(3,4)] obtain ret t' where
      "match_found HZ jiffies info (packet_ttl skb) t p = Done (ret, t')" "table_ok md t'" "same_table t t'" by blast
    with Some show ?thesis by (simp add: match_table_plain [OF assms(1,2)]) blast
  qed
qed

end
