(* ===== verification/Recent_Cache.thy ===== *)
theory Recent_Cache
  imports Xt_Recent_Match
begin

text \<open>
  What a table of \<open>kmodule/xt_recent-4.9.13.c\<close> promises: it is a cache of addresses, the least recently
  used first, each with the last stamps. The rules are stated on this list, and the operations of the
  module, with their buckets, addresses and rings, are shown to implement them.
\<close>

section \<open>The cache\<close>

record cached =
  c_addr :: nf_inet_addr
  c_family :: nfproto
  c_ttl :: byte
  c_stamps :: "u64 list"

definition c_key :: "cached \<Rightarrow> nf_inet_addr \<times> nfproto" where
  "c_key c = (c_addr c, c_family c)"

definition c_matches :: "nf_inet_addr \<Rightarrow> nfproto \<Rightarrow> byte \<Rightarrow> cached \<Rightarrow> bool" where
  "c_matches a family ttl c \<longleftrightarrow> c_key c = (a, family) \<and> (ttl = c_ttl c \<or> ttl = 0 \<or> c_ttl c = 0)"

definition c_lookup :: "nf_inet_addr \<Rightarrow> nfproto \<Rightarrow> byte \<Rightarrow> cached list \<Rightarrow> cached option" where
  "c_lookup a family ttl cs = find (c_matches a family ttl) cs"

definition c_without :: "cached \<Rightarrow> cached list \<Rightarrow> cached list" where
  "c_without c cs = filter (\<lambda>d. c_key d \<noteq> c_key c) cs"

definition c_stamp :: "nat \<Rightarrow> u64 \<Rightarrow> cached \<Rightarrow> cached" where
  "c_stamp n s c = c\<lparr>c_stamps := last_n n (c_stamps c @ [s])\<rparr>"

definition c_evict :: "nat \<Rightarrow> cached list \<Rightarrow> cached list" where
  "c_evict tot cs = (if tot \<le> length cs then tl cs else cs)"

definition c_insert :: "nat \<Rightarrow> cached \<Rightarrow> cached list \<Rightarrow> cached list" where
  "c_insert tot c cs = c_evict tot cs @ [c]"

definition c_reap :: "u64 \<Rightarrow> cached list \<Rightarrow> cached list" where
  "c_reap time cs = (if time_after time (last (c_stamps (hd cs))) then tl cs else cs)"

text \<open>The condition of a rule: enough stamps within the last \<open>seconds\<close>.\<close>

definition c_hit :: "xt_recent_mtinfo \<Rightarrow> u64 \<Rightarrow> cached \<Rightarrow> bool" where
  "c_hit info time c \<longleftrightarrow>
     max 1 (unat (i_hit_count info)) \<le> length (filter (fresh_stamp info time) (c_stamps c))"

text \<open>
  What a rule does with a packet whose key is \<open>(a, family)\<close>: the verdict and the new cache, or nothing
  when the rule would stamp an entry it has just reaped.
\<close>

definition c_rule ::
    "nat \<Rightarrow> nat \<Rightarrow> u64 \<Rightarrow> u64 \<Rightarrow> xt_recent_mtinfo \<Rightarrow> nf_inet_addr \<Rightarrow> nfproto \<Rightarrow> byte \<Rightarrow> cached list \<Rightarrow>
     (bool \<times> cached list) option" where
  "c_rule tot n now time info a family ttl cs =
     (let flags = set (i_check_set info); inv = i_invert info
      in case c_lookup a family (if XT_RECENT_TTL \<in> flags then ttl else 0) cs of
           None \<Rightarrow>
             if XT_RECENT_SET \<in> flags
             then Some (\<not> inv, c_insert tot \<lparr>c_addr = a, c_family = family, c_ttl = ttl, c_stamps = [now]\<rparr> cs)
             else Some (inv, cs)
         | Some c \<Rightarrow>
             let used = (\<lambda>cs. c_without c cs @ [(c_stamp n now c)\<lparr>c_ttl := ttl\<rparr>])
             in if XT_RECENT_SET \<in> flags then Some (\<not> inv, used cs)
                else if XT_RECENT_REMOVE \<in> flags then Some (\<not> inv, c_without c cs)
                else
                  let ret = (inv \<noteq> c_hit info time c);
                      kept = (if XT_RECENT_REAP \<in> flags then c_reap time cs else cs)
                  in if XT_RECENT_UPDATE \<in> flags \<and> ret
                     then (if c \<in> set kept then Some (ret, used kept) else None)
                     else Some (ret, kept))"

section \<open>A table as a cache\<close>

definition cached_of :: "recent_entry \<Rightarrow> cached" where
  "cached_of e = \<lparr>c_addr = k_addr e, c_family = k_family e, c_ttl = k_ttl e, c_stamps = recent_stamps e\<rparr>"

definition at :: "recent_table \<Rightarrow> ptr \<Rightarrow> cached" where
  "at t p = cached_of (the (k_heap t p))"

definition cache :: "recent_table \<Rightarrow> cached list" where
  "cache t = map (at t) (lru_list t)"

text \<open>
  The tables that show a cache: well formed, the keys distinct, and every entry a ring of as many slots as
  the table's mask says. \<open>F\<close> tells for which masks the module keeps its rings: for 4.9.13 the powers of two
  less one.
\<close>

definition cache_fits :: "(byte \<Rightarrow> bool) \<Rightarrow> recent_module \<Rightarrow> recent_table \<Rightarrow> bool" where
  "cache_fits F md t \<longleftrightarrow> table_ok md t \<and> inj_on (\<lambda>p. c_key (at t p)) (dom (k_heap t)) \<and>
     F (nstamps_max_mask t) \<and>
     (\<forall>p e. k_heap t p = Some e \<longrightarrow> ring_n (unat (nstamps_max_mask t) + 1) e)"

definition power_mask :: "byte \<Rightarrow> bool" where
  "power_mask m \<longleftrightarrow> (\<exists>k < 8. m = mask k)"

abbreviation cache_ok :: "recent_module \<Rightarrow> recent_table \<Rightarrow> bool" where
  "cache_ok \<equiv> cache_fits power_mask"

lemma cached_of_fields [simp]:
  "c_addr (cached_of e) = k_addr e" "c_family (cached_of e) = k_family e" "c_ttl (cached_of e) = k_ttl e"
  "c_stamps (cached_of e) = recent_stamps e" "c_key (cached_of e) = (k_addr e, k_family e)"
  by (simp_all add: cached_of_def c_key_def)

lemma at_Some: "k_heap t p = Some e \<Longrightarrow> at t p = cached_of e"
  by (simp add: at_def)

lemma c_matches_cached_of [simp]: "c_matches a family ttl (cached_of e) = entry_matches a family ttl e"
  by (auto simp: c_matches_def entry_matches_def)

lemma c_stamp_key [simp]: "c_key (c_stamp n s c) = c_key c" "c_key (c\<lparr>c_ttl := ttl\<rparr>) = c_key c"
  "c_key (c\<lparr>c_stamps := ss\<rparr>) = c_key c"
  by (simp_all add: c_stamp_def c_key_def)

lemma cached_ttl: "cached_of (e\<lparr>k_ttl := ttl\<rparr>) = (cached_of e)\<lparr>c_ttl := ttl\<rparr>"
  by (simp add: cached_of_def recent_stamps_def)

lemma ring_n_ttl [simp]: "ring_n n (e\<lparr>k_ttl := ttl\<rparr>) = ring_n n e"
  by (simp add: ring_n_def)

lemma ring_n_entry: "ring_n (unat m + 1) e \<Longrightarrow> entry_ok m e"
  by (auto simp: ring_n_def entry_ok_def)

lemma mask_neq_255: "k < 8 \<Longrightarrow> (mask k :: byte) \<noteq> 255"
  using mask_facts(1,3) [of k] by (auto simp: byte_255_iff)

lemma cache_okD:
  assumes "cache_fits F md t"
  obtains ps where "table_rel md t ps" "F (nstamps_max_mask t)"
  using assms by (auto simp: cache_fits_def table_ok_def)

lemma cache_ok_inj: "cache_fits F md t \<Longrightarrow> table_rel md t ps \<Longrightarrow> inj_on (\<lambda>p. c_key (at t p)) (set ps)"
  by (simp add: cache_fits_def table_relD(5))

lemma cache_ok_ring: "cache_fits F md t \<Longrightarrow> k_heap t p = Some e \<Longrightarrow> ring_n (unat (nstamps_max_mask t) + 1) e"
  by (auto simp: cache_fits_def)

lemma find_unique:
  assumes "x \<in> set xs" and "P x" and "\<And>y. y \<in> set xs \<Longrightarrow> P y \<Longrightarrow> f y = f x"
  shows "map_option f (find P xs) = Some (f x)"
proof -
  from assms(1,2) obtain y where y: "find P xs = Some y" by (metis find_None_iff2 not_None_eq)
  then have "y \<in> set xs" "P y" by (auto simp: find_Some_iff)
  with assms(3) y show ?thesis by simp
qed

lemma find_map_eq: "find P (map f xs) = map_option f (find (\<lambda>x. P (f x)) xs)"
  by (induction xs) auto

text \<open>The lookup in the table is the lookup in the cache.\<close>

lemma cache_lookup:
  assumes "cache_fits F md t" and "table_rel md t ps"
  shows "c_lookup a family ttl (cache t) = map_option (at t) (plain_lookup t ps a family ttl)"
proof -
  note r = table_relD [OF assms(2)]
  note inj = cache_ok_inj [OF assms]
  have P: "c_matches a family ttl (at t p) \<longleftrightarrow>
      (case k_heap t p of None \<Rightarrow> False | Some e \<Rightarrow> entry_matches a family ttl e)" if "p \<in> set ps" for p
  proof -
    from that r(5) obtain e where "k_heap t p = Some e" by auto
    then show ?thesis by (simp add: at_Some)
  qed
  let ?P = "\<lambda>p. c_matches a family ttl (at t p)"
  have l: "c_lookup a family ttl (cache t) = map_option (at t) (find ?P (lru_list t))"
    by (simp add: c_lookup_def cache_def find_map_eq)
  have p: "plain_lookup t ps a family ttl = find ?P ps"
    unfolding plain_lookup_def using P by (intro find_cong) auto
  show ?thesis
  proof (cases "find ?P ps")
    case None
    then have "find ?P (lru_list t) = None" using r(4) by (simp add: find_None_iff)
    with None show ?thesis by (simp add: l p)
  next
    case (Some q)
    then have q: "q \<in> set (lru_list t)" "?P q" using r(4) by (auto simp: find_Some_iff)
    have "map_option (at t) (find ?P (lru_list t)) = Some (at t q)"
    proof (rule find_unique [where x = q and P = ?P])
      show "q \<in> set (lru_list t)" "?P q" using q by blast+
      fix y assume y: "y \<in> set (lru_list t)" "?P y"
      then have "c_key (at t y) = c_key (at t q)" using q(2) by (simp add: c_matches_def)
      with inj y(1) q(1) r(4) show "at t y = at t q" by (auto dest: inj_onD)
    qed
    with Some show ?thesis by (simp add: l p)
  qed
qed

section \<open>The operations\<close>

lemma cache_keys_distinct:
  assumes "cache_fits F md t"
  shows "distinct (map c_key (cache t))"
proof -
  obtain ps where ps: "table_rel md t ps" using cache_okD [OF assms] .
  show ?thesis
    using cache_ok_inj [OF assms ps] table_relD(3,4) [OF ps] by (simp add: cache_def distinct_map inj_on_def comp_def)
qed

lemma cache_length: "table_rel md t ps \<Longrightarrow> length (cache t) = length ps"
  by (simp add: cache_def table_relD(10))

lemma filter_neq_remove1: "distinct xs \<Longrightarrow> filter (\<lambda>x. x \<noteq> p) xs = remove1 p xs"
  by (induction xs) (auto simp: filter_id_conv)

lemma remove1_hd: "remove1 (hd xs) xs = tl xs"
  by (cases xs) auto

lemma cache_without:
  assumes "cache_fits F md t" and "table_rel md t ps" and "p \<in> set ps"
  shows "map (at t) (remove1 p (lru_list t)) = c_without (at t p) (cache t)"
proof -
  note r = table_relD [OF assms(2)] and inj = cache_ok_inj [OF assms(1,2)]
  have "c_key (at t q) \<noteq> c_key (at t p) \<longleftrightarrow> q \<noteq> p" if "q \<in> set (lru_list t)" for q
    using inj_onD [OF inj] that assms(3) r(4) by auto
  then have "filter (\<lambda>q. c_key (at t q) \<noteq> c_key (at t p)) (lru_list t) = filter (\<lambda>q. q \<noteq> p) (lru_list t)"
    by (intro filter_cong) auto
  also have "\<dots> = remove1 p (lru_list t)" by (rule filter_neq_remove1 [OF r(3)])
  finally have "filter (\<lambda>q. c_key (at t q) \<noteq> c_key (at t p)) (lru_list t) = remove1 p (lru_list t)" .
  then show ?thesis by (simp add: c_without_def cache_def filter_map comp_def)
qed

text \<open>Where the heap changes at \<open>p\<close> only, the other entries look the same.\<close>

lemma at_other: "k_heap t' = (k_heap t)(p := x) \<Longrightarrow> q \<noteq> p \<Longrightarrow> at t' q = at t q"
  by (simp add: at_def)

lemma map_at_other: "k_heap t' = (k_heap t)(p := x) \<Longrightarrow> p \<notin> set qs \<Longrightarrow> map (at t') qs = map (at t) qs"
  by (induction qs) (auto simp: at_other)

lemma cache_removed:
  assumes "cache_fits F md t" and "table_rel md t ps" and "p \<in> set ps"
  shows "cache (removed t p) = c_without (at t p) (cache t)" and "cache_fits F md (removed t p)"
proof -
  note r = table_relD [OF assms(2)]
  have h: "k_heap (removed t p) = (k_heap t)(p := None)" by simp
  have n: "p \<notin> set (remove1 p (lru_list t))" using r(3) by simp
  show "cache (removed t p) = c_without (at t p) (cache t)"
    using cache_without [OF assms] map_at_other [OF h n] by (simp add: cache_def [of "removed t p"])
  have "inj_on (\<lambda>q. c_key (at (removed t p) q)) (dom (k_heap (removed t p)))"
  proof (rule inj_onI)
    fix x y
    assume x: "x \<in> dom (k_heap (removed t p))" and y: "y \<in> dom (k_heap (removed t p))"
      and "c_key (at (removed t p) x) = c_key (at (removed t p) y)"
    then have "c_key (at t x) = c_key (at t y)"
      using at_other [OF h] by (auto split: if_splits)
    with x y inj_onD [OF cache_ok_inj [OF assms(1,2)]] r(5) show "x = y" by auto
  qed
  with assms remove_plain(2) [OF assms(2,3)] show "cache_fits F md (removed t p)"
    by (auto simp: cache_fits_def table_ok_def split: if_splits)
qed

lemma cache_touched:
  assumes "cache_fits F md t" and "table_rel md t ps" and "k_heap t p = Some e"
    and "ring_n (unat (nstamps_max_mask t) + 1) e'" and "k_addr e' = k_addr e" and "k_family e' = k_family e"
    and "table_rel md (touched t p e') ps"
  shows "cache (touched t p e') = c_without (at t p) (cache t) @ [cached_of e']"
    and "cache_fits F md (touched t p e')"
proof -
  note r = table_relD [OF assms(2)]
  have p: "p \<in> set ps" using assms(3) r(5) by auto
  have h: "k_heap (touched t p e') = (k_heap t)(p := Some e')" by simp
  have n: "p \<notin> set (remove1 p (lru_list t))" using r(3) by simp
  show "cache (touched t p e') = c_without (at t p) (cache t) @ [cached_of e']"
    using cache_without [OF assms(1,2) p] map_at_other [OF h n]
    by (simp add: cache_def [of "touched t p e'"] at_Some)
  have k: "c_key (at (touched t p e') q) = c_key (at t q)" for q
    using at_other [OF h, of q] assms(3,5,6) by (cases "q = p") (simp_all add: at_Some)
  have d: "dom (k_heap (touched t p e')) = dom (k_heap t)" using assms(3) by auto
  show "cache_fits F md (touched t p e')"
    using assms(1,4,7) unfolding cache_fits_def k d table_ok_def by auto
qed

lemma ring_new_entry:
  "ring_n (unat (nstamps_max_mask t) + 1) (new_entry t a family ttl old s)"
  "cached_of (new_entry t a family ttl old s) = \<lparr>c_addr = a, c_family = family, c_ttl = ttl, c_stamps = [s]\<rparr>"
  by (simp_all add: ring_n_def cached_of_def new_entry_def recent_stamps_def upt_rec [of 0] take_Cons' del: upt_Suc)

lemma cache_evict:
  assumes "cache_fits F md t" and "table_rel md t ps" and "module_ok md"
  shows "cache (init_evicted md t) = c_evict (unat (ip_list_tot md)) (cache t)" and "cache_fits F md (init_evicted md t)"
proof -
  note r = table_relD [OF assms(2)]
  have full: "ip_list_tot md \<le> k_entries t \<longleftrightarrow> unat (ip_list_tot md) \<le> length (cache t)"
    using r(8) by (simp add: word_le_nat_alt cache_length [OF assms(2)])
  have "cache (init_evicted md t) = c_evict (unat (ip_list_tot md)) (cache t) \<and> cache_fits F md (init_evicted md t)"
  proof (cases "ip_list_tot md \<le> k_entries t")
    case False
    with assms(1) full show ?thesis by (simp add: init_evicted_def c_evict_def)
  next
    case True
    have "0 < unat (ip_list_tot md)" using assms(3) by (auto simp: module_ok_def word_less_nat_alt)
    with True full have "lru_list t \<noteq> []" by (auto simp: cache_def)
    then have p: "hd (lru_list t) \<in> set ps" using r(4) hd_in_set by blast
    have "c_without (at t (hd (lru_list t))) (cache t) = tl (cache t)"
      using cache_without [OF assms(1,2) p] by (simp add: remove1_hd map_tl cache_def)
    with True full cache_removed [OF assms(1,2) p] show ?thesis by (simp add: init_evicted_def c_evict_def)
  qed
  then show "cache (init_evicted md t) = c_evict (unat (ip_list_tot md)) (cache t)"
    and "cache_fits F md (init_evicted md t)" by auto
qed

lemma cache_inited:
  assumes "cache_fits F md t" and "table_rel md t ps" and "p \<notin> set ps"
    and "ring_n (unat (nstamps_max_mask t) + 1) e" and "table_rel md (inited md t p e) (ps @ [p])"
    and "(k_addr e, k_family e) \<notin> c_key ` set (cache t)"
  shows "cache (inited md t p e) = cache t @ [cached_of e]" and "cache_fits F md (inited md t p e)"
proof -
  note r = table_relD [OF assms(2)]
  have h: "k_heap (inited md t p e) = (k_heap t)(p := Some e)" by simp
  have n: "p \<notin> set (lru_list t)" using assms(3) r(4) by simp
  show "cache (inited md t p e) = cache t @ [cached_of e]"
    using map_at_other [OF h n] by (simp add: cache_def at_Some)
  have new: "at (inited md t p e) p = cached_of e" by (simp add: at_Some)
  have fresh: "c_key (at t q) \<noteq> (k_addr e, k_family e)" if "q \<in> set ps" for q
  proof
    assume "c_key (at t q) = (k_addr e, k_family e)"
    moreover have "c_key (at t q) \<in> c_key ` set (cache t)" using that r(4) by (simp add: cache_def)
    ultimately show False using assms(6) by simp
  qed
  have "inj_on (\<lambda>q. c_key (at (inited md t p e) q)) (set (ps @ [p]))"
  proof (rule inj_onI)
    fix x y
    assume x: "x \<in> set (ps @ [p])" and y: "y \<in> set (ps @ [p])"
      and eq: "c_key (at (inited md t p e) x) = c_key (at (inited md t p e) y)"
    consider "x = p" "y = p" | "x \<noteq> p" "y \<noteq> p" | "x = p" "y \<noteq> p" | "x \<noteq> p" "y = p" by blast
    then show "x = y"
    proof cases
      case 2
      with eq have "c_key (at t x) = c_key (at t y)" by (simp add: at_other [OF h])
      with 2 x y inj_onD [OF cache_ok_inj [OF assms(1,2)]] show ?thesis by auto
    next
      case 3
      with eq new have "c_key (at t y) = (k_addr e, k_family e)" by (simp add: at_other [OF h])
      with fresh [of y] 3 y show ?thesis by simp
    next
      case 4
      with eq new have "c_key (at t x) = (k_addr e, k_family e)" by (simp add: at_other [OF h])
      with fresh [of x] 4 x show ?thesis by simp
    qed simp
  qed
  moreover have "dom (k_heap (inited md t p e)) = set (ps @ [p])" using table_relD(5) [OF assms(5)] .
  ultimately show "cache_fits F md (inited md t p e)"
    using assms(1,4,5) by (auto simp: cache_fits_def table_ok_def)
qed

lemma no_match_no_key: "c_lookup a family 0 cs = None \<Longrightarrow> (a, family) \<notin> c_key ` set cs"
  by (auto simp: c_lookup_def find_None_iff c_matches_def)

lemma set_c_evict: "set (c_evict tot cs) \<subseteq> set cs"
  by (cases cs) (auto simp: c_evict_def)

text \<open>A new entry: the oldest one makes room, the new one is the latest.\<close>

lemma cache_init:
  assumes "cache_fits F md t" and "table_rel md t ps" and "module_ok md" and "p \<notin> set ps"
    and "c_lookup a family 0 (cache t) = None"
  shows "cache (inited md (init_evicted md t) p (new_entry t a family ttl old s)) =
      c_insert (unat (ip_list_tot md)) \<lparr>c_addr = a, c_family = family, c_ttl = ttl, c_stamps = [s]\<rparr> (cache t)"
    and "cache_fits F md (inited md (init_evicted md t) p (new_entry t a family ttl old s))"
proof -
  let ?e = "new_entry t a family ttl old s" and ?t = "init_evicted md t"
  note ev = cache_evict [OF assms(1-3)]
  note ne = ring_new_entry [of t a family ttl old s]
  have m: "nstamps_max_mask ?t = nstamps_max_mask t" by (simp add: init_evicted_def)
  from inited_after_evict [OF assms(2-4) new_entry_ok] obtain qs where
    qs: "table_rel md ?t qs" "set qs \<subseteq> set ps" "table_rel md (inited md ?t p ?e) (qs @ [p])" by blast
  have "(k_addr ?e, k_family ?e) \<notin> c_key ` set (cache ?t)"
    using no_match_no_key [OF assms(5)] set_c_evict by (fastforce simp: ev(1) new_entry_def)
  note ci = cache_inited [OF ev(2) qs(1) _ _ qs(3) this]
  have p: "p \<notin> set qs" using qs(2) assms(4) by auto
  show "cache (inited md ?t p ?e) =
      c_insert (unat (ip_list_tot md)) \<lparr>c_addr = a, c_family = family, c_ttl = ttl, c_stamps = [s]\<rparr> (cache t)"
    using ci(1) [OF p] ne by (simp add: m ev(1) c_insert_def)
  show "cache_fits F md (inited md ?t p ?e)" using ci(2) [OF p] ne(1) by (simp add: m)
qed

text \<open>The stamps in the ring, in whatever order, are the cache's.\<close>

lemma rule_hit_cached: "rule_hit info time e = c_hit info time (cached_of e)"
proof -
  let ?ss = "take (unat (k_nstamps e)) (k_stamps e)"
  have "length (filter (fresh_stamp info time) (recent_stamps e)) = length (filter (fresh_stamp info time) ?ss)"
    by (metis recent_stamps_def append_take_drop_id filter_append length_append add.commute)
  then show ?thesis by (simp add: rule_hit_def c_hit_def)
qed

lemma last_recent_stamp:
  assumes "ring_n n e"
  shows "k_index e \<noteq> 0" "\<not> length (k_stamps e) < unat (k_index e)"
    "k_stamps e ! (unat (k_index e) - 1) = last (recent_stamps e)"
proof -
  from assms have ok: "length (k_stamps e) = n" "unat (k_nstamps e) \<le> n" "1 \<le> unat (k_index e)"
    "unat (k_index e) \<le> unat (k_nstamps e)" by (auto simp: ring_n_def)
  from ok(3) show i: "k_index e \<noteq> 0" by auto
  from ok show l: "\<not> length (k_stamps e) < unat (k_index e)" by simp
  from i have pos: "0 < unat (k_index e)" by (simp add: unat_gt_0)
  let ?ss = "take (unat (k_index e)) (take (unat (k_nstamps e)) (k_stamps e))"
  have len: "length ?ss = unat (k_index e)" using ok by auto
  then have ne: "?ss \<noteq> []" using pos by auto
  then have "last (recent_stamps e) = last ?ss" by (simp add: recent_stamps_def Let_def)
  also have "\<dots> = ?ss ! (unat (k_index e) - 1)" using last_conv_nth [OF ne] len by simp
  also have "\<dots> = k_stamps e ! (unat (k_index e) - 1)" using ok pos by auto
  finally show "k_stamps e ! (unat (k_index e) - 1) = last (recent_stamps e)" by simp
qed

lemma cache_reap:
  assumes "cache_fits F md t" and "table_rel md t ps" and "ps \<noteq> []"
  shows "\<exists>t'. recent_entry_reap t time = Done t' \<and> cache t' = c_reap time (cache t) \<and> cache_fits F md t' \<and>
    (t' = t \<or> t' = removed t (hd (lru_list t)))"
proof -
  note r = table_relD [OF assms(2)]
  obtain p ls where l: "lru_list t = p # ls" using r(10) assms(3) by (cases "lru_list t") auto
  then have p: "p \<in> set ps" using r(4) by auto
  then obtain e where e: "k_heap t p = Some e" using r(5) by auto
  note last = last_recent_stamp [OF cache_ok_ring [OF assms(1) e]]
  have w: "c_without (at t p) (cache t) = tl (cache t)"
    using cache_without [OF assms(1,2) p] l by (simp add: cache_def)
  have "hd (cache t) = cached_of e" by (simp add: cache_def l at_Some [OF e])
  then show ?thesis
    using last cache_removed [OF assms(1,2) p] remove_plain(1) [OF assms(2) p] assms(1) w
    by (auto simp: recent_entry_reap_def l deref_Some [OF e] c_reap_def)
qed

section \<open>A rule on the cache\<close>

lemma at_in_cache: "table_rel md t ps \<Longrightarrow> p \<in> set ps \<Longrightarrow> at t p \<in> set (cache t)"
  by (simp add: cache_def table_relD(4))

lemma reaped_not_in_cache:
  assumes "cache_fits F md t" and "table_rel md t ps" and "p \<in> set ps" and "q \<in> set ps"
  shows "at t p \<in> set (cache (removed t q)) \<longleftrightarrow> p \<noteq> q"
  using inj_onD [OF cache_ok_inj [OF assms(1,2)]] assms(3,4) at_in_cache [OF assms(2,3)]
  by (auto simp: cache_removed(1) [OF assms(1,2,4)] c_without_def)

text \<open>
  The match with the function that stamps an entry as an argument: the modules differ in it. (For 4.9.13 it
  is the match of the code by definition, see below.)
\<close>

definition match_found_by ::
    "(u64 \<Rightarrow> recent_table \<Rightarrow> ptr \<Rightarrow> u64 option \<Rightarrow> recent_table run) \<Rightarrow> u32 \<Rightarrow> u64 \<Rightarrow> xt_recent_mtinfo \<Rightarrow> byte \<Rightarrow>
     recent_table \<Rightarrow> ptr \<Rightarrow> (bool \<times> recent_table) run" where
  "match_found_by upd HZ jiffies info ttl t p =
     (let cs = set (i_check_set info); ret = i_invert info
      in run_bind
           (if XT_RECENT_SET \<in> cs then Done (\<not> ret, t)
            else if XT_RECENT_REMOVE \<in> cs then run_bind (recent_entry_remove t p) (\<lambda>t. Done (\<not> ret, t))
            else if XT_RECENT_CHECK \<in> cs \<or> XT_RECENT_UPDATE \<in> cs then
              (let time = match_time HZ jiffies info
               in run_bind (deref t p) (\<lambda>e.
                    run_bind (hit_loop info time e [0..<unat (k_nstamps e)] 0) (\<lambda>hit.
                      let ret = (if hit then \<not> ret else ret)
                      in if XT_RECENT_REAP \<in> cs
                         then run_bind (recent_entry_reap t time) (\<lambda>t. Done (ret, t))
                         else Done (ret, t))))
            else Done (ret, t))
           (\<lambda>(ret, t).
              if XT_RECENT_SET \<in> cs \<or> XT_RECENT_UPDATE \<in> cs \<and> ret then
                run_bind (upd jiffies t p None) (\<lambda>t.
                  run_bind (deref t p) (\<lambda>e.
                    Done (ret, t\<lparr>k_heap := (k_heap t)(p \<mapsto> e\<lparr>k_ttl := ttl\<rparr>)\<rparr>)))
              else Done (ret, t)))"

definition match_addr_by ::
    "(u64 \<Rightarrow> recent_table \<Rightarrow> ptr \<Rightarrow> u64 option \<Rightarrow> recent_table run) \<Rightarrow> recent_module \<Rightarrow> u32 \<Rightarrow> u64 \<Rightarrow>
     (ptr \<times> (nat \<Rightarrow> u64)) option \<Rightarrow> nfproto \<Rightarrow> xt_recent_mtinfo \<Rightarrow> nf_inet_addr \<Rightarrow> byte \<Rightarrow> recent_table \<Rightarrow>
     (bool \<times> bool \<times> recent_table) run" where
  "match_addr_by upd md HZ jiffies mem family info a ttl t =
     (let cs = set (i_check_set info); ret = i_invert info
      in run_bind (recent_entry_lookup md t a family (if XT_RECENT_TTL \<in> cs then ttl else 0)) (\<lambda>e.
           case e of
             None \<Rightarrow>
               if XT_RECENT_SET \<notin> cs then Done (ret, False, t)
               else run_bind (recent_entry_init md jiffies mem t a family ttl None)
                      (\<lambda>(e, t). Done (\<not> ret, e = None, t))
           | Some p \<Rightarrow>
               run_bind (match_found_by upd HZ jiffies info ttl t p) (\<lambda>(ret, t). Done (ret, False, t))))"

text \<open>
  What a rule may ask for, as every version of \<open>recent_mt_check\<close> lets through: one command, and nothing else
  with a \<open>SET\<close> or a \<open>REMOVE\<close>.
\<close>

definition rule_flags :: "xt_recent_mtinfo \<Rightarrow> bool" where
  "rule_flags info \<longleftrightarrow>
     (let cs = set (i_check_set info)
      in card (cs \<inter> {XT_RECENT_SET, XT_RECENT_REMOVE, XT_RECENT_CHECK, XT_RECENT_UPDATE}) = 1 \<and>
         (XT_RECENT_SET \<in> cs \<or> XT_RECENT_REMOVE \<in> cs \<longrightarrow> XT_RECENT_TTL \<notin> cs \<and> XT_RECENT_REAP \<notin> cs))"

lemma rule_flags_cases:
  assumes "rule_flags info"
  obtains "XT_RECENT_SET \<in> set (i_check_set info)" "XT_RECENT_REMOVE \<notin> set (i_check_set info)"
  | "XT_RECENT_SET \<notin> set (i_check_set info)" "XT_RECENT_REMOVE \<in> set (i_check_set info)"
    "XT_RECENT_UPDATE \<notin> set (i_check_set info)"
  | "XT_RECENT_SET \<notin> set (i_check_set info)" "XT_RECENT_REMOVE \<notin> set (i_check_set info)"
    "XT_RECENT_CHECK \<in> set (i_check_set info) \<or> XT_RECENT_UPDATE \<in> set (i_check_set info)"
proof -
  from assms obtain c where "set (i_check_set info) \<inter>
      {XT_RECENT_SET, XT_RECENT_REMOVE, XT_RECENT_CHECK, XT_RECENT_UPDATE} = {c}"
    by (auto simp: rule_flags_def Let_def card_1_singleton_iff)
  with that show ?thesis by (cases c) blast+
qed

text \<open>
  The contract of a stamping function: on an entry whose ring the module keeps it pushes the stamp, and on
  freed memory it faults.
\<close>

locale stamper =
  fixes F :: "byte \<Rightarrow> bool"
    and upd :: "u64 \<Rightarrow> recent_table \<Rightarrow> ptr \<Rightarrow> u64 option \<Rightarrow> recent_table run"
  assumes stamps: "F (nstamps_max_mask t) \<Longrightarrow> k_heap t p = Some e \<Longrightarrow> ring_n (unat (nstamps_max_mask t) + 1) e \<Longrightarrow>
      \<exists>e'. upd jiffies t p ns = Done (touched t p e') \<and> ring_n (unat (nstamps_max_mask t) + 1) e' \<and>
        cached_of e' = c_stamp (unat (nstamps_max_mask t) + 1) (case ns of None \<Rightarrow> jiffies | Some s \<Rightarrow> s) (cached_of e)"
    and gone: "k_heap t p = None \<Longrightarrow> upd jiffies t p ns = Fault"
begin

lemma upd_cache:
  assumes "cache_fits F md t" and "table_rel md t ps" and "k_heap t p = Some e"
  shows "\<exists>e'. upd jiffies t p ns = Done (touched t p e') \<and> ring_n (unat (nstamps_max_mask t) + 1) e' \<and>
    k_addr e' = k_addr e \<and> k_family e' = k_family e \<and> (\<forall>ttl. table_rel md (touched t p (e'\<lparr>k_ttl := ttl\<rparr>)) ps) \<and>
    cached_of e' = c_stamp (unat (nstamps_max_mask t) + 1) (case ns of None \<Rightarrow> jiffies | Some s \<Rightarrow> s) (at t p)"
proof -
  note r = table_relD [OF assms(2)]
  have "F (nstamps_max_mask t)" using assms(1) by (simp add: cache_fits_def)
  from stamps [OF this assms(3) cache_ok_ring [OF assms(1,3)], of jiffies ns] obtain e' where
    e': "upd jiffies t p ns = Done (touched t p e')" "ring_n (unat (nstamps_max_mask t) + 1) e'"
    "cached_of e' = c_stamp (unat (nstamps_max_mask t) + 1) (case ns of None \<Rightarrow> jiffies | Some s \<Rightarrow> s) (at t p)"
    by (auto simp: at_Some [OF assms(3)])
  from arg_cong [OF e'(3), of c_addr] arg_cong [OF e'(3), of c_family]
  have f: "k_addr e' = k_addr e" "k_family e' = k_family e"
    by (simp_all add: at_Some [OF assms(3)] c_stamp_def)
  have p: "p \<in> set (lru_list t)" using assms(3) r(4,5) by auto
  have "entry_ok (nstamps_max_mask t) (e'\<lparr>k_ttl := ttl\<rparr>)" for ttl using ring_n_entry [OF e'(2)] by simp
  then have "table_rel md (touched t p (e'\<lparr>k_ttl := ttl\<rparr>)) ps" for ttl
    unfolding touched_def by (rule rewrite_plain [OF assms(2,3)]) (use r p f in auto)
  with e' f show ?thesis by blast
qed

text \<open>\<open>recent_entry_update\<close> as the file calls it, and with the TTL as the match does.\<close>

lemma upd_file:
  assumes "cache_fits F md t" and "k_heap t p = Some e"
  shows "\<exists>t' e'. upd jiffies t p (Some s) = Done t' \<and> cache_fits F md t' \<and> same_table t t' \<and> k_heap t' p = Some e' \<and>
    at t' p = c_stamp (unat (nstamps_max_mask t) + 1) s (at t p) \<and>
    cache t' = c_without (at t p) (cache t) @ [c_stamp (unat (nstamps_max_mask t) + 1) s (at t p)]"
proof -
  obtain ps where ps: "table_rel md t ps" using cache_okD [OF assms(1)] .
  from upd_cache [OF assms(1) ps assms(2), of jiffies "Some s"] obtain e' where
    e': "upd jiffies t p (Some s) = Done (touched t p e')" "ring_n (unat (nstamps_max_mask t) + 1) e'"
    "k_addr e' = k_addr e" "k_family e' = k_family e" "\<And>ttl. table_rel md (touched t p (e'\<lparr>k_ttl := ttl\<rparr>)) ps"
    "cached_of e' = c_stamp (unat (nstamps_max_mask t) + 1) s (at t p)" by auto
  have "table_rel md (touched t p e') ps" using e'(5) [of "k_ttl e'"] by simp
  note ct = cache_touched [OF assms(1) ps assms(2) e'(2-4) this]
  have "at (touched t p e') p = cached_of e'" by (simp add: at_Some)
  with e'(1,6) ct show ?thesis by (intro exI [of _ "touched t p e'"] exI [of _ e']) simp
qed

lemma upd_match:
  assumes "cache_fits F md t" and "table_rel md t ps" and "k_heap t p = Some e"
  shows "\<exists>t'. run_bind (upd jiffies t p None) (\<lambda>t. run_bind (deref t p) (\<lambda>e.
      Done (ret, t\<lparr>k_heap := (k_heap t)(p \<mapsto> e\<lparr>k_ttl := ttl\<rparr>)\<rparr>))) = Done (ret, t') \<and> cache_fits F md t' \<and>
    cache t' = c_without (at t p) (cache t) @ [(c_stamp (unat (nstamps_max_mask t) + 1) jiffies (at t p))\<lparr>c_ttl := ttl\<rparr>]"
proof -
  from upd_cache [OF assms, of jiffies None] obtain e' where
    e': "upd jiffies t p None = Done (touched t p e')" "ring_n (unat (nstamps_max_mask t) + 1) e'"
    "k_addr e' = k_addr e" "k_family e' = k_family e" "table_rel md (touched t p (e'\<lparr>k_ttl := ttl\<rparr>)) ps"
    "cached_of e' = c_stamp (unat (nstamps_max_mask t) + 1) jiffies (at t p)" by auto
  have "cache (touched t p (e'\<lparr>k_ttl := ttl\<rparr>)) =
      c_without (at t p) (cache t) @ [(c_stamp (unat (nstamps_max_mask t) + 1) jiffies (at t p))\<lparr>c_ttl := ttl\<rparr>]"
    "cache_fits F md (touched t p (e'\<lparr>k_ttl := ttl\<rparr>))"
    using cache_touched [OF assms _ _ _ e'(5)] e' by (simp_all add: cached_ttl)
  moreover have "run_bind (upd jiffies t p None) (\<lambda>t. run_bind (deref t p) (\<lambda>e.
      Done (ret, t\<lparr>k_heap := (k_heap t)(p \<mapsto> e\<lparr>k_ttl := ttl\<rparr>)\<rparr>))) = Done (ret, touched t p (e'\<lparr>k_ttl := ttl\<rparr>))"
    by (simp add: e'(1) deref_def touched_def)
  ultimately show ?thesis by blast
qed

end

text \<open>The end of the match for a rule that updates, on the table that reaping left.\<close>

context stamper
begin

lemma update_after_reap:
  assumes "cache_fits F md t" and "table_rel md t ps" and "k_heap t p = Some e"
    and "cache_fits F md t'" and "t' = t \<or> (\<exists>q \<in> set ps. t' = removed t q)"
  shows "if at t p \<in> set (cache t')
    then \<exists>t''. run_bind (upd jiffies t' p None) (\<lambda>t. run_bind (deref t p) (\<lambda>e.
        Done (ret, t\<lparr>k_heap := (k_heap t)(p \<mapsto> e\<lparr>k_ttl := ttl\<rparr>)\<rparr>))) = Done (ret, t'') \<and> cache_fits F md t'' \<and>
      cache t'' = c_without (at t p) (cache t') @ [(c_stamp (unat (nstamps_max_mask t) + 1) jiffies (at t p))\<lparr>c_ttl := ttl\<rparr>]
    else run_bind (upd jiffies t' p None) (\<lambda>t. run_bind (deref t p) (\<lambda>e.
        Done (ret, t\<lparr>k_heap := (k_heap t)(p \<mapsto> e\<lparr>k_ttl := ttl\<rparr>)\<rparr>))) = Fault"
proof -
  have p: "p \<in> set ps" using assms(3) table_relD(5) [OF assms(2)] by auto
  obtain ps' where ps': "table_rel md t' ps'" using cache_okD [OF assms(4)] .
  have same: "nstamps_max_mask t' = nstamps_max_mask t" using assms(5) by auto
  have h: "k_heap t' p = (if at t p \<in> set (cache t') then Some e else None)"
    using assms(3,5) at_in_cache [OF assms(2) p] reaped_not_in_cache [OF assms(1,2) p] by auto
  show ?thesis
  proof (cases "at t p \<in> set (cache t')")
    case True
    with h have e: "k_heap t' p = Some e" by simp
    then have "at t' p = at t p" using assms(3) by (simp add: at_Some)
    with upd_match [OF assms(4) ps' e, of jiffies ret ttl] True same show ?thesis by simp
  next
    case False
    with h gone [of t' p jiffies None] show ?thesis by simp
  qed
qed

lemma check_update:
  fixes HZ :: u32 and jiffies :: u64
  assumes "cache_fits F md t" and "table_rel md t ps" and "k_heap t p = Some e"
    and "XT_RECENT_SET \<notin> set (i_check_set info)" and "XT_RECENT_REMOVE \<notin> set (i_check_set info)"
    and "XT_RECENT_CHECK \<in> set (i_check_set info) \<or> XT_RECENT_UPDATE \<in> set (i_check_set info)"
  defines "time \<equiv> match_time HZ jiffies info"
  defines "ret \<equiv> (i_invert info \<noteq> c_hit info time (at t p))"
    and "kept \<equiv> (if XT_RECENT_REAP \<in> set (i_check_set info) then c_reap time (cache t) else cache t)"
  shows "if XT_RECENT_UPDATE \<in> set (i_check_set info) \<and> ret \<and> at t p \<notin> set kept
    then match_found_by upd HZ jiffies info ttl t p = Fault
    else \<exists>t'. match_found_by upd HZ jiffies info ttl t p = Done (ret, t') \<and> cache_fits F md t' \<and>
      cache t' = (if XT_RECENT_UPDATE \<in> set (i_check_set info) \<and> ret
        then c_without (at t p) kept @ [(c_stamp (unat (nstamps_max_mask t) + 1) jiffies (at t p))\<lparr>c_ttl := ttl\<rparr>]
        else kept)"
proof -
  have p: "p \<in> set ps" using assms(3) table_relD(5) [OF assms(2)] by auto
  have ok: "entry_ok (nstamps_max_mask t) e" using table_relD(7) [OF assms(2,3)] .
  have reap: "\<exists>t'. (if XT_RECENT_REAP \<in> set (i_check_set info)
      then run_bind (recent_entry_reap t time) (\<lambda>t. Done (ret, t)) else Done (ret, t)) = Done (ret, t') \<and>
    cache t' = kept \<and> cache_fits F md t' \<and> (t' = t \<or> (\<exists>q \<in> set ps. t' = removed t q))"
  proof (cases "XT_RECENT_REAP \<in> set (i_check_set info)")
    case True
    have "ps \<noteq> []" using p by auto
    moreover have "hd (lru_list t) \<in> set ps"
      using p table_relD(4,10) [OF assms(2)] by (metis \<open>ps \<noteq> []\<close> hd_in_set length_0_conv)
    ultimately show ?thesis using cache_reap [OF assms(1,2), of time] True by (auto simp: kept_def)
  qed (use assms(1) in \<open>simp add: kept_def\<close>)
  then obtain t' where t': "(if XT_RECENT_REAP \<in> set (i_check_set info)
      then run_bind (recent_entry_reap t time) (\<lambda>t. Done (ret, t)) else Done (ret, t)) = Done (ret, t')"
    "cache t' = kept" "cache_fits F md t'" "t' = t \<or> (\<exists>q \<in> set ps. t' = removed t q)" by blast
  have hit: "(if rule_hit info time e then \<not> i_invert info else i_invert info) = ret"
    by (simp add: ret_def at_Some [OF assms(3)] rule_hit_cached)
  let ?stamp = "\<lambda>ret t. run_bind (upd jiffies t p None) (\<lambda>t. run_bind (deref t p) (\<lambda>e.
      Done (ret, t\<lparr>k_heap := (k_heap t)(p \<mapsto> e\<lparr>k_ttl := ttl\<rparr>)\<rparr>)))"
  let ?hit = "if rule_hit info time e then \<not> i_invert info else i_invert info"
  have "match_found_by upd HZ jiffies info ttl t p =
      run_bind (if XT_RECENT_REAP \<in> set (i_check_set info)
        then run_bind (recent_entry_reap t time) (\<lambda>t. Done (?hit, t)) else Done (?hit, t))
      (\<lambda>(ret, t). if XT_RECENT_UPDATE \<in> set (i_check_set info) \<and> ret then ?stamp ret t else Done (ret, t))"
    using assms(4-6)
    by (simp add: match_found_by_def Let_def deref_Some [OF assms(3)] hit_loop_rule [OF ok]
        flip: time_def split del: if_split)
  also have "\<dots> = (if XT_RECENT_UPDATE \<in> set (i_check_set info) \<and> ret then ?stamp ret t' else Done (ret, t'))"
    unfolding hit t'(1) by simp
  finally show ?thesis
    using update_after_reap [OF assms(1-3) t'(3,4), of jiffies ret ttl] t'(2,3) by (auto split: if_splits)
qed

text \<open>The match does what the rule does to the cache.\<close>

lemma match_addr_refines:
  assumes "cache_fits F md t" and "module_ok md" and "rule_flags info" and "k_heap t p = None"
  shows "case c_rule (unat (ip_list_tot md)) (unat (nstamps_max_mask t) + 1) jiffies (match_time HZ jiffies info)
      info a family ttl (cache t) of
    None \<Rightarrow> match_addr_by upd md HZ jiffies (Some (p, old)) family info a ttl t = Fault
  | Some (ret, cs) \<Rightarrow>
      \<exists>t'. match_addr_by upd md HZ jiffies (Some (p, old)) family info a ttl t = Done (ret, False, t') \<and>
        cache t' = cs \<and> cache_fits F md t'"
proof -
  obtain ps where ps: "table_rel md t ps" using cache_okD [OF assms(1)] .
  let ?fs = "set (i_check_set info)" and ?ttl = "if XT_RECENT_TTL \<in> set (i_check_set info) then ttl else 0"
  note cl = cache_lookup [OF assms(1) ps, of a family ?ttl]
  note rule = c_rule_def [where info = info and a = a and family = family and ttl = ttl
    and cs = "cache t", unfolded Let_def, unfolded cl]
  note mt = match_addr_by_def [where upd = upd and md = md and info = info and t = t and a = a and family = family
      and ttl = ttl, unfolded Let_def lookup_plain [OF ps assms(2)] run_bind.simps(1)]
  show ?thesis
  proof (cases "plain_lookup t ps a family ?ttl")
    case None
    show ?thesis
    proof (cases "XT_RECENT_SET \<in> ?fs")
      case True
      have "XT_RECENT_TTL \<notin> ?fs" using assms(3) True by (auto simp: rule_flags_def Let_def)
      then have z: "?ttl = 0" by simp
      have p: "p \<notin> set ps" using assms(4) table_relD(5) [OF ps] by auto
      have "c_lookup a family 0 (cache t) = None" using cl None z by simp
      from cache_init [OF assms(1) ps assms(2) p this] None True show ?thesis
        by (simp add: mt rule init_plain(2) [OF ps assms(2)])
    next
      case False
      with None cl assms(1) show ?thesis by (simp add: mt rule)
    qed
  next
    case (Some q)
    then obtain e where e: "k_heap t q = Some e" and q: "q \<in> set ps" using plain_lookup_Some by blast
    note cu = check_update [OF assms(1) ps e, of info HZ jiffies ttl]
    from assms(3) consider "XT_RECENT_SET \<in> ?fs" "XT_RECENT_REMOVE \<notin> ?fs"
      | "XT_RECENT_SET \<notin> ?fs" "XT_RECENT_REMOVE \<in> ?fs" "XT_RECENT_UPDATE \<notin> ?fs"
      | "XT_RECENT_SET \<notin> ?fs" "XT_RECENT_REMOVE \<notin> ?fs" "XT_RECENT_CHECK \<in> ?fs \<or> XT_RECENT_UPDATE \<in> ?fs"
      by (rule rule_flags_cases)
    then show ?thesis
    proof cases
      case 1
      from upd_match [OF assms(1) ps e, of jiffies "\<not> i_invert info" ttl] obtain t' where
        "match_found_by upd HZ jiffies info ttl t q = Done (\<not> i_invert info, t')" "cache_fits F md t'"
        "cache t' = c_without (at t q) (cache t) @ [(c_stamp (unat (nstamps_max_mask t) + 1) jiffies (at t q))\<lparr>c_ttl := ttl\<rparr>]"
        using 1 by (auto simp: match_found_by_def Let_def)
      with 1 Some cl show ?thesis by (simp add: mt rule)
    next
      case 2
      have "match_found_by upd HZ jiffies info ttl t q = Done (\<not> i_invert info, removed t q)"
        using 2 by (simp add: match_found_by_def Let_def remove_plain(1) [OF ps q])
      with 2 cache_removed [OF assms(1) ps q] Some cl show ?thesis by (simp add: mt rule)
    next
      case 3
      with cu Some cl show ?thesis by (auto simp: mt rule split: if_splits)
    qed
  qed
qed

end

section \<open>The module 4.9.13\<close>

interpretation kernel_49: stamper power_mask recent_entry_update
proof unfold_locales
  fix t :: recent_table and p e and jiffies :: u64 and ns :: "u64 option"
  assume m: "power_mask (nstamps_max_mask t)" and e: "k_heap t p = Some e"
    and ring: "ring_n (unat (nstamps_max_mask t) + 1) e"
  let ?s = "case ns of None \<Rightarrow> jiffies | Some s \<Rightarrow> s"
  have ok: "ring_ok (nstamps_max_mask t) e" using m ring by (auto simp: ring_ok_n power_mask_def)
  note st = stamped_ring [OF ok, of ?s]
  show "\<exists>e'. recent_entry_update jiffies t p ns = Done (touched t p e') \<and>
      ring_n (unat (nstamps_max_mask t) + 1) e' \<and>
      cached_of e' = c_stamp (unat (nstamps_max_mask t) + 1) ?s (cached_of e)"
  proof (intro exI conjI)
    show "recent_entry_update jiffies t p ns = Done (touched t p (stamped (nstamps_max_mask t) ?s e))"
      using stamp_entry_ok [OF ring_n_entry [OF ring]]
      by (simp add: recent_entry_update_def deref_Some [OF e] touched_def)
    show "ring_n (unat (nstamps_max_mask t) + 1) (stamped (nstamps_max_mask t) ?s e)"
      using st(1) by (simp add: ring_ok_n)
    show "cached_of (stamped (nstamps_max_mask t) ?s e) = c_stamp (unat (nstamps_max_mask t) + 1) ?s (cached_of e)"
      by (simp add: cached_of_def c_stamp_def st(2))
  qed
qed (simp add: recent_entry_update_def deref_def)

lemma check_rejects_flags: "\<not> check_rejects info \<Longrightarrow> rule_flags info"
  by (auto simp: check_rejects_def rule_flags_def Let_def)

lemma found_by_49: "match_found_by recent_entry_update = match_found"
  by (intro ext) (simp only: match_found_by_def match_found_def)

lemma match_table_by:
  "match_table md HZ jiffies mem family info skb t =
   match_addr_by recent_entry_update md HZ jiffies mem family info (match_key family info skb t) (packet_ttl skb) t"
  by (simp only: match_table_def match_addr_by_def found_by_49 match_key_def Let_def)

lemma match_refines_cache:
  assumes "cache_ok md t" and "module_ok md" and "\<not> check_rejects info" and "k_heap t p = None"
  shows "case c_rule (unat (ip_list_tot md)) (unat (nstamps_max_mask t) + 1) jiffies (match_time HZ jiffies info)
      info (match_key family info skb t) family (packet_ttl skb) (cache t) of
    None \<Rightarrow> match_table md HZ jiffies (Some (p, old)) family info skb t = Fault
  | Some (ret, cs) \<Rightarrow> \<exists>t'. match_table md HZ jiffies (Some (p, old)) family info skb t = Done (ret, False, t') \<and>
      cache t' = cs \<and> cache_ok md t'"
  unfolding match_table_by
  by (rule kernel_49.match_addr_refines [OF assms(1,2) check_rejects_flags [OF assms(3)] assms(4)])

lemma cache_ok_new:
  assumes "k < 8" and "module_ok md"
  shows "cache_ok md (new_recent_table md info (mask k))" and "cache (new_recent_table md info (mask k)) = []"
proof -
  have "table_rel md (new_recent_table md info (mask k)) []"
    by (simp add: table_rel_def new_recent_table_def)
  then show "cache_ok md (new_recent_table md info (mask k))"
    using assms(1) by (auto simp: cache_fits_def power_mask_def table_ok_def new_recent_table_def)
  show "cache (new_recent_table md info (mask k)) = []" by (simp add: cache_def new_recent_table_def)
qed

section \<open>Properties\<close>

definition sample_module :: recent_module where
  "sample_module = \<lparr>ip_list_tot = 100, ip_list_hash_size = 128, ip_pkt_list_tot = 0,
     jhash4 = (\<lambda>a. ucast (hd a)), jhash6 = (\<lambda>a. ucast (hd a))\<rparr>"

definition sample_rule :: "recent_flag list \<Rightarrow> bool \<Rightarrow> xt_recent_mtinfo" where
  "sample_rule flags neg = \<lparr>i_seconds = (if XT_RECENT_REAP \<in> set flags then 1 else 0), i_hit_count = 0,
     i_check_set = flags, i_invert = neg, i_name = ''web'', i_dest = False, i_mask = replicate 16 0xFF\<rparr>"

definition sample_skb :: sk_buff where
  "sample_skb = \<lparr>skb_saddr = [10, 0, 0, 1], skb_daddr = [10, 0, 0, 2], skb_ttl = 64, skb_forwarded = False\<rparr>"

definition sample_recent_table :: recent_table where
  "sample_recent_table = new_recent_table sample_module (sample_rule [XT_RECENT_SET] False) 31"

lemma sample_module_ok: "module_ok sample_module"
  unfolding module_ok_def by (auto simp: sample_module_def intro!: exI [of _ 7])

lemma sample_table_ok: "cache_ok sample_module sample_recent_table" "cache sample_recent_table = []"
  "k_heap sample_recent_table = Map.empty"
proof -
  have m: "(31 :: byte) = mask 5" by (simp add: mask_eq_exp_minus_1)
  show "cache_ok sample_module sample_recent_table" "cache sample_recent_table = []"
    unfolding sample_recent_table_def m using cache_ok_new [of 5 sample_module] sample_module_ok by simp_all
  show "k_heap sample_recent_table = Map.empty" by (simp add: sample_recent_table_def new_recent_table_def)
qed

lemma sample_key: "match_key NFPROTO_IPV4 (sample_rule fs neg) sample_skb sample_recent_table =
    ipv4_addr [10, 0, 0, 1]"
  by (simp add: match_key_def packet_addr_def sample_rule_def sample_skb_def sample_recent_table_def
      new_recent_table_def nf_inet_addr_mask_def ipv4_addr_def numeral_eq_Suc)

text \<open>C1: \<open>match_table\<close>, with its hash table, its addresses and its rings of stamps, does what the rule
  says of the cache of addresses: the same verdict, and a table that shows the rule's new cache; and
  it uses freed memory exactly when the rule stamps the entry it has just reaped.\<close>

theorem kernel_match_refines_cache:
  assumes "cache_ok md t" and "module_ok md" and "\<not> check_rejects info" and "k_heap t p = None"
  shows "case c_rule (unat (ip_list_tot md)) (unat (nstamps_max_mask t) + 1) jiffies (match_time HZ jiffies info)
      info (match_key family info skb t) family (packet_ttl skb) (cache t) of
    None \<Rightarrow> match_table md HZ jiffies (Some (p, old)) family info skb t = Fault
  | Some (ret, cs) \<Rightarrow> \<exists>t'. match_table md HZ jiffies (Some (p, old)) family info skb t = Done (ret, False, t') \<and>
      cache t' = cs \<and> cache_ok md t'"
  using match_refines_cache [OF assms] .

text \<open>The first packet of a rule that sets.\<close>

theorem kernel_match_refines_cache_witness:
  "\<exists>t'. match_table sample_module 250 5000 (Some (3, \<lambda>_. 0)) NFPROTO_IPV4 (sample_rule [XT_RECENT_SET] False) sample_skb
      sample_recent_table = Done (True, False, t') \<and>
    cache t' = [\<lparr>c_addr = ipv4_addr [10, 0, 0, 1], c_family = NFPROTO_IPV4, c_ttl = 64, c_stamps = [5000]\<rparr>] \<and>
    cache_ok sample_module t'"
proof -
  have acc: "\<not> check_rejects (sample_rule [XT_RECENT_SET] False)"
    by (simp add: check_rejects_def sample_rule_def XT_RECENT_MAX_NSTAMPS_def XT_RECENT_NAME_LEN_def)
  have free: "k_heap sample_recent_table 3 = None" by (simp add: sample_table_ok)
  have r: "c_rule 100 n 5000 time (sample_rule [XT_RECENT_SET] False) (ipv4_addr [10, 0, 0, 1]) NFPROTO_IPV4 64 [] =
      Some (True, [\<lparr>c_addr = ipv4_addr [10, 0, 0, 1], c_family = NFPROTO_IPV4, c_ttl = 64, c_stamps = [5000]\<rparr>])"
    for n time
    by (simp add: c_rule_def c_lookup_def c_insert_def c_evict_def sample_rule_def)
  have f: "unat (ip_list_tot sample_module) = 100" "packet_ttl sample_skb = 64"
    by (simp_all add: sample_module_def packet_ttl_def sample_skb_def)
  show ?thesis
    using kernel_match_refines_cache [where jiffies = 5000 and HZ = 250 and family = NFPROTO_IPV4
        and skb = sample_skb and old = "\<lambda>_. 0", OF sample_table_ok(1) sample_module_ok acc free,
        unfolded sample_key sample_table_ok(2) f r] by simp
qed

text \<open>C38: a rule with \<open>--update\<close> and \<open>--reap\<close> (which needs an inverted rule, or stamps that were written
  out of order) that finds the oldest entry of the table with a last stamp outside the rule's seconds, and
  matches, reaps that entry and then stamps its freed memory.\<close>

theorem reap_update_uses_freed_entry:
  assumes "cache_ok md t" and "module_ok md" and "\<not> check_rejects info" and "k_heap t p = None"
    and "{XT_RECENT_UPDATE, XT_RECENT_REAP} \<subseteq> set (i_check_set info)"
    and "cache t = c # cs" and "c_matches (match_key family info skb t) family (key_ttl info skb) c"
    and "time_after (match_time HZ jiffies info) (last (c_stamps c))"
    and "i_invert info \<noteq> c_hit info (match_time HZ jiffies info) c"
  shows "match_table md HZ jiffies (Some (p, old)) family info skb t = Fault"
proof -
  have lk: "c_lookup (match_key family info skb t) family (key_ttl info skb) (cache t) = Some c"
    using assms(6,7) by (simp add: c_lookup_def)
  have no: "XT_RECENT_SET \<notin> set (i_check_set info)" "XT_RECENT_REMOVE \<notin> set (i_check_set info)"
    using assms(3) assms(5) by (auto elim: accepted_flags)
  have "c \<notin> set cs"
  proof -
    have "distinct (map c_key (cache t))" using assms(1) by (rule cache_keys_distinct)
    then show ?thesis by (auto simp: assms(6))
  qed
  then have "c_rule (unat (ip_list_tot md)) (unat (nstamps_max_mask t) + 1) jiffies (match_time HZ jiffies info)
      info (match_key family info skb t) family (packet_ttl skb) (cache t) = None"
    using assms(5,8,9) no lk
    by (simp add: c_rule_def Let_def c_reap_def assms(6) flip: key_ttl_def)
  with match_refines_cache [where jiffies = jiffies and HZ = HZ and family = family and skb = skb
    and old = old, OF assms(1-4)] show ?thesis by simp
qed

text \<open>An inverted rule on the only entry, 95000 ticks old.\<close>

definition sample_old_table :: recent_table where
  "sample_old_table = inited sample_module (init_evicted sample_module sample_recent_table) 3
     (new_entry sample_recent_table (ipv4_addr [10, 0, 0, 1]) NFPROTO_IPV4 64 (\<lambda>_. 0) 5000)"

lemma sample_old_table_ok: "cache_ok sample_module sample_old_table"
  "cache sample_old_table = [\<lparr>c_addr = ipv4_addr [10, 0, 0, 1], c_family = NFPROTO_IPV4, c_ttl = 64, c_stamps = [5000]\<rparr>]"
proof -
  obtain ps where ps: "table_rel sample_module sample_recent_table ps" using cache_okD [OF sample_table_ok(1)] .
  have p: "3 \<notin> set ps" using table_relD(5) [OF ps] sample_table_ok(3) by simp
  have none: "c_lookup (ipv4_addr [10, 0, 0, 1]) NFPROTO_IPV4 0 (cache sample_recent_table) = None"
    by (simp add: sample_table_ok c_lookup_def)
  note ci = cache_init [OF sample_table_ok(1) ps sample_module_ok p none, of 64 "\<lambda>_. 0" 5000]
  show "cache_ok sample_module sample_old_table" using ci(2) by (simp add: sample_old_table_def)
  show "cache sample_old_table = [\<lparr>c_addr = ipv4_addr [10, 0, 0, 1], c_family = NFPROTO_IPV4, c_ttl = 64, c_stamps = [5000]\<rparr>]"
    using ci(1) by (simp add: sample_old_table_def sample_table_ok c_insert_def c_evict_def sample_module_def)
qed

theorem reap_update_uses_freed_entry_witness:
  "match_table sample_module 250 100000 (Some (4, \<lambda>_. 0)) NFPROTO_IPV4
     (sample_rule [XT_RECENT_UPDATE, XT_RECENT_REAP] True) sample_skb sample_old_table = Fault"
proof (rule reap_update_uses_freed_entry [OF sample_old_table_ok(1) sample_module_ok])
  let ?r = "sample_rule [XT_RECENT_UPDATE, XT_RECENT_REAP] True"
  have time: "time_after (match_time 250 100000 ?r) 5000"
    by (simp add: match_time_def time_after_def sample_rule_def)
  show "\<not> check_rejects ?r"
    by (simp add: check_rejects_def sample_rule_def XT_RECENT_MAX_NSTAMPS_def XT_RECENT_NAME_LEN_def)
  show "k_heap sample_old_table 4 = None"
    by (simp add: sample_old_table_def init_evicted_def sample_table_ok)
  show "{XT_RECENT_UPDATE, XT_RECENT_REAP} \<subseteq> set (i_check_set ?r)" by (simp add: sample_rule_def)
  show "cache sample_old_table = [\<lparr>c_addr = ipv4_addr [10, 0, 0, 1], c_family = NFPROTO_IPV4, c_ttl = 64, c_stamps = [5000]\<rparr>]"
    by (rule sample_old_table_ok(2))
  have k: "match_key NFPROTO_IPV4 ?r sample_skb sample_old_table = ipv4_addr [10, 0, 0, 1]"
    using sample_key [of "[XT_RECENT_UPDATE, XT_RECENT_REAP]" True]
    by (simp add: match_key_def sample_old_table_def init_evicted_def)
  show "c_matches (match_key NFPROTO_IPV4 ?r sample_skb sample_old_table) NFPROTO_IPV4 (key_ttl ?r sample_skb)
      \<lparr>c_addr = ipv4_addr [10, 0, 0, 1], c_family = NFPROTO_IPV4, c_ttl = 64, c_stamps = [5000]\<rparr>"
    unfolding k by (simp add: c_matches_def c_key_def key_ttl_def sample_rule_def)
  show "time_after (match_time 250 100000 ?r)
      (last (c_stamps \<lparr>c_addr = ipv4_addr [10, 0, 0, 1], c_family = NFPROTO_IPV4, c_ttl = 64, c_stamps = [5000]\<rparr>))"
    using time by simp
  show "i_invert ?r \<noteq> c_hit ?r (match_time 250 100000 ?r)
      \<lparr>c_addr = ipv4_addr [10, 0, 0, 1], c_family = NFPROTO_IPV4, c_ttl = 64, c_stamps = [5000]\<rparr>"
    using time by (simp add: c_hit_def fresh_stamp_def) (simp add: sample_rule_def)
qed

lemma distinct_set_one: "distinct xs \<Longrightarrow> set xs = {x} \<Longrightarrow> xs = [x]"
proof (cases xs)
  case (Cons y ys)
  assume d: "distinct xs" "set xs = {x}"
  then have "y = x" "y \<notin> set ys" "set ys \<subseteq> {x}" using Cons by auto
  then have "set ys = {}" by (auto simp: subset_singleton_iff)
  with Cons \<open>y = x\<close> show ?thesis by simp
qed simp

lemma sample_old_table_rel: "table_rel sample_module sample_old_table [3]"
proof -
  obtain ps where ps: "table_rel sample_module sample_old_table ps" using cache_okD [OF sample_old_table_ok(1)] .
  note r = table_relD [OF ps]
  have "dom (k_heap sample_old_table) = {3}"
    by (simp add: sample_old_table_def init_evicted_def sample_table_ok)
  then have "set ps = {3}" using r(5) by simp
  then have "ps = [3]" using r(2) by (intro distinct_set_one)
  with ps show ?thesis by simp
qed

text \<open>C12: the hashed lookup, whatever the two hash functions of the kernel are, finds the entry that a walk
  over all entries in the order of their insertion finds, and never leaves the buckets or follows a dangling
  address.\<close>

theorem hashed_lookup_is_linear_search:
  assumes "table_rel md t ps" and "module_ok md"
  shows "recent_entry_lookup md t a family ttl = Done (plain_lookup t ps a family ttl)"
  using assms by (rule lookup_plain)

theorem hashed_lookup_is_linear_search_witness:
  "recent_entry_lookup sample_module sample_old_table (ipv4_addr [10, 0, 0, 1]) NFPROTO_IPV4 0 = Done (Some 3)"
  unfolding hashed_lookup_is_linear_search [OF sample_old_table_rel sample_module_ok]
  by (simp add: plain_lookup_def sample_old_table_def new_entry_def entry_matches_def)

end
