(* ===== verification/Xt_Recent_File.thy ===== *)
theory Xt_Recent_File
  imports Xt_Recent_Match Utils
begin

text \<open>
  \<open>kmodule/xt_recent-4.9.13.c\<close>: the file of a table in \<open>/proc/net/xt_recent/\<close>. Reading it walks the
  hash table and prints one row per entry; writing it flushes, removes, adds, or, with the \<open>*\<close> that this
  program's patch adds, restores an entry with its stamps.
\<close>

section \<open>Reading\<close>

text \<open>The position of the walk: an entry and its bucket.\<close>

fun nth_in_bucket :: "ptr list \<Rightarrow> nat \<Rightarrow> ptr option \<times> nat" where
  "nth_in_bucket [] p = (None, p)"
| "nth_in_bucket (e # es) p = (if p = 0 then (Some e, 0) else nth_in_bucket es (p - 1))"

fun seq_start_from :: "ptr list list \<Rightarrow> nat \<Rightarrow> nat \<Rightarrow> (ptr \<times> nat) option" where
  "seq_start_from [] b p = None"
| "seq_start_from (es # bs) b p =
     (case nth_in_bucket es p of
        (Some e, _) \<Rightarrow> Some (e, b)
      | (None, p) \<Rightarrow> seq_start_from bs (Suc b) p)"

definition recent_seq_start :: "recent_module \<Rightarrow> 'a recent_table_32_scheme \<Rightarrow> nat \<Rightarrow> (ptr \<times> nat) option" where
  "recent_seq_start md t pos = seq_start_from (take (unat (ip_list_hash_size md)) (iphash t)) 0 pos"

fun following :: "ptr \<Rightarrow> ptr list \<Rightarrow> ptr list" where
  "following p [] = []"
| "following p (q # qs) = (if q = p then qs else following p qs)"

fun first_of :: "ptr list list \<Rightarrow> nat \<Rightarrow> (ptr \<times> nat) option" where
  "first_of [] b = None"
| "first_of (es # bs) b = (case es of e # _ \<Rightarrow> Some (e, b) | [] \<Rightarrow> first_of bs (Suc b))"

definition recent_seq_next :: "recent_module \<Rightarrow> 'a recent_table_32_scheme \<Rightarrow> ptr \<times> nat \<Rightarrow> (ptr \<times> nat) option" where
  "recent_seq_next md t = (\<lambda>(p, b).
     case following p (iphash t ! b) of
       q # _ \<Rightarrow> Some (q, b)
     | [] \<Rightarrow> first_of (drop (Suc b) (take (unat (ip_list_hash_size md)) (iphash t))) (Suc b))"

text \<open>The kernel's library: address parsing, number parsing and the format \<open>%pI6\<close>.\<close>

record kernel_lib =
  in4_pton :: "string \<Rightarrow> int \<Rightarrow> byte list option"
  in6_pton :: "string \<Rightarrow> int \<Rightarrow> byte list option"
  kstrtou8 :: "string \<Rightarrow> byte option"
  kstrtoul :: "string \<Rightarrow> u64 option"
  pI6 :: "byte list \<Rightarrow> string"

fun show_stamps :: "u64 list \<Rightarrow> nat \<Rightarrow> string" where
  "show_stamps [] i = []"
| "show_stamps (s # ss) i = (if i = 0 then [] else '','') @ '' '' @ to_string_u s @ show_stamps ss (Suc i)"

definition recent_seq_show :: "kernel_lib \<Rightarrow> recent_table \<Rightarrow> recent_entry \<Rightarrow> string run" where
  "recent_seq_show lib t e =
     (let i = (k_index e - 1) AND nstamps_max_mask t
      in if length (k_stamps e) \<le> unat i \<or> length (k_stamps e) < unat (k_nstamps e) then Fault
         else Done (''src='' @
           (if k_family e = NFPROTO_IPV4 then ipv4_string (take 4 (k_addr e)) else pI6 lib (k_addr e)) @
           '' ttl: '' @ to_string_u (k_ttl e) @ '' last_seen: '' @ to_string_u (k_stamps e ! unat i) @
           '' oldest_pkt: '' @ to_string_u (k_index e) @
           show_stamps (take (unat (k_nstamps e)) (k_stamps e)) 0 @ [CHR 0x0A]))"

text \<open>What reading the whole file gives: \<open>seq_read\<close> starts, shows and steps until the end; the bound on
  the steps is the number of entries.\<close>

fun seq_walk :: "recent_module \<Rightarrow> 'a recent_table_32_scheme \<Rightarrow> nat \<Rightarrow> (ptr \<times> nat) option \<Rightarrow> ptr list" where
  "seq_walk md t n None = []"
| "seq_walk md t 0 (Some pb) = []"
| "seq_walk md t (Suc n) (Some pb) = fst pb # seq_walk md t n (recent_seq_next md t pb)"

fun show_rows :: "kernel_lib \<Rightarrow> recent_table \<Rightarrow> ptr list \<Rightarrow> string list run" where
  "show_rows lib t [] = Done []"
| "show_rows lib t (p # ps) =
     run_bind (deref t p) (\<lambda>e. run_bind (recent_seq_show lib t e) (\<lambda>row.
       run_bind (show_rows lib t ps) (\<lambda>rows. Done (row # rows))))"

definition read_file :: "kernel_lib \<Rightarrow> recent_module \<Rightarrow> recent_table \<Rightarrow> string list run" where
  "read_file lib md t = show_rows lib t (seq_walk md t (unat (k_entries t)) (recent_seq_start md t 0))"

section \<open>Writing\<close>

text \<open>
  The string functions work on the memory from the start of \<open>buf\<close>: the \<open>n\<close> bytes of the array, which has
  no terminator, and the stack behind it. A separator found behind the array would be overwritten there.
  A pointer is an offset; \<open>None\<close> is null.
\<close>

definition strsep_at :: "string \<Rightarrow> nat \<Rightarrow> nat option \<Rightarrow> (string option \<times> nat option) run" where
  "strsep_at mem n c =
     (case c of
        None \<Rightarrow> Done (None, None)
      | Some i \<Rightarrow>
          (let tok = takeWhile (\<lambda>x. x \<noteq> CHR '';'' \<and> x \<noteq> CHR 0x00) (drop i mem); j = i + length tok
           in if length mem \<le> j then Fault
              else if mem ! j = CHR '';'' then (if n \<le> j then Fault else Done (Some tok, Some (Suc j)))
              else Done (Some tok, None)))"

fun strnchr_at :: "string \<Rightarrow> nat \<Rightarrow> nat \<Rightarrow> char \<Rightarrow> bool run" where
  "strnchr_at mem i 0 x = Done False"
| "strnchr_at mem i (Suc n) x =
     (if length mem \<le> i then Fault
      else if mem ! i = CHR 0x00 then Done False
      else if mem ! i = x then Done True
      else strnchr_at mem (Suc i) n x)"

definition strnchr :: "string \<Rightarrow> nat option \<Rightarrow> nat \<Rightarrow> char \<Rightarrow> bool run" where
  "strnchr mem c n x = (case c of None \<Rightarrow> if n = 0 then Done False else Fault | Some i \<Rightarrow> strnchr_at mem i n x)"

lemma strsep_at_later:
  "strsep_at mem n c = Done (Some tok, c') \<Longrightarrow>
   \<exists>i. c = Some i \<and> (case c' of None \<Rightarrow> True | Some j \<Rightarrow> i < j \<and> j \<le> length mem)"
  by (auto simp: strsep_at_def Let_def split: option.splits if_splits)

text \<open>The stamps: every token that is a number; \<open>e\<close> is null when no entry was made.\<close>

function write_stamps ::
    "kernel_lib \<Rightarrow> u64 \<Rightarrow> string \<Rightarrow> nat \<Rightarrow> nat option \<Rightarrow> ptr option \<Rightarrow> recent_table \<Rightarrow> recent_table run" where
  "write_stamps lib jiffies mem n c e t =
     (case strsep_at mem n c of
        Done (Some tok, c) \<Rightarrow>
          (case kstrtoul lib tok of
             None \<Rightarrow> write_stamps lib jiffies mem n c e t
           | Some tmp \<Rightarrow>
               (case e of
                  None \<Rightarrow> Fault
                | Some p \<Rightarrow>
                    (case recent_entry_update jiffies t p (Some tmp) of
                       Done t \<Rightarrow> write_stamps lib jiffies mem n c e t
                     | r \<Rightarrow> r)))
      | Done (None, _) \<Rightarrow> Done t
      | _ \<Rightarrow> Fault)"
  by pat_completeness auto
termination
  by (relation "measure (\<lambda>(_, _, mem, _, c, _). case c of None \<Rightarrow> 0 | Some i \<Rightarrow> Suc (length mem - i))")
    (fastforce dest!: strsep_at_later split: option.splits)+

declare write_stamps.simps [simp del]

definition parse_addr :: "kernel_lib \<Rightarrow> bool \<Rightarrow> string \<Rightarrow> int \<Rightarrow> (nf_inet_addr \<times> nfproto) option" where
  "parse_addr lib v6 src delim =
     (if v6 then map_option (\<lambda>a. (a, NFPROTO_IPV6)) (in6_pton lib src delim)
      else map_option (\<lambda>a. (ipv4_addr a, NFPROTO_IPV4)) (in4_pton lib src delim))"

text \<open>\<open>*\<close> on an address that is not in the table: the TTL, the first stamp, the others.\<close>

definition restore_new ::
    "kernel_lib \<Rightarrow> recent_module \<Rightarrow> u64 \<Rightarrow> (ptr \<times> (nat \<Rightarrow> u64)) option \<Rightarrow> string \<Rightarrow> nat \<Rightarrow> nat option \<Rightarrow>
     nf_inet_addr \<Rightarrow> nfproto \<Rightarrow> recent_table \<Rightarrow> ((errno + unit) \<times> recent_table) run" where
  "restore_new lib md jiffies mem_res mem n c a family t =
     run_bind (strsep_at mem n c) (\<lambda>(tok, c).
       case (case tok of None \<Rightarrow> Some 0 | Some s \<Rightarrow> kstrtou8 lib s) of
         None \<Rightarrow> Done (Inl EINVAL, t)
       | Some ttl \<Rightarrow>
           run_bind (strsep_at mem n c) (\<lambda>(tok, c).
             run_bind (case (case tok of None \<Rightarrow> None | Some s \<Rightarrow> kstrtoul lib s) of
                         None \<Rightarrow> Done (None, t)
                       | Some nstamp \<Rightarrow> recent_entry_init md jiffies mem_res t a family ttl (Some nstamp))
               (\<lambda>(e, t). run_bind (write_stamps lib jiffies mem n c e t) (\<lambda>t. Done (Inr (), t)))))"

datatype proc_cmd = Proc_remove | Proc_add | Proc_restore

definition write_entry ::
    "kernel_lib \<Rightarrow> recent_module \<Rightarrow> u64 \<Rightarrow> (ptr \<times> (nat \<Rightarrow> u64)) option \<Rightarrow> proc_cmd \<Rightarrow> string \<Rightarrow> nat \<Rightarrow> nat option \<Rightarrow>
     nf_inet_addr \<Rightarrow> nfproto \<Rightarrow> recent_table \<Rightarrow> ((errno + unit) \<times> recent_table) run" where
  "write_entry lib md jiffies mem_res cmd mem n c a family t =
     run_bind (recent_entry_lookup md t a family 0) (\<lambda>e.
       case e of
         None \<Rightarrow>
           (case cmd of
              Proc_add \<Rightarrow> run_bind (recent_entry_init md jiffies mem_res t a family 0 None) (\<lambda>(_, t). Done (Inr (), t))
            | Proc_restore \<Rightarrow> restore_new lib md jiffies mem_res mem n c a family t
            | Proc_remove \<Rightarrow> Done (Inr (), t))
       | Some p \<Rightarrow>
           (case cmd of
              Proc_add \<Rightarrow> run_bind (recent_entry_update jiffies t p None) (\<lambda>t. Done (Inr (), t))
            | Proc_restore \<Rightarrow> run_bind (strsep_at mem n c) (\<lambda>(_, c).
                run_bind (write_stamps lib jiffies mem n c (Some p) t) (\<lambda>t. Done (Inr (), t)))
            | Proc_remove \<Rightarrow> run_bind (recent_entry_remove t p) (\<lambda>t. Done (Inr (), t))))"

definition MAX_WRITE :: nat where
  "MAX_WRITE = 32 + 5 + 12 * 32"

definition proc_cmd_of :: "char \<Rightarrow> proc_cmd option" where
  "proc_cmd_of x = (if x = CHR ''-'' then Some Proc_remove else if x = CHR ''+'' then Some Proc_add
     else if x = CHR ''*'' then Some Proc_restore else None)"

text \<open>\<open>stack\<close> is the memory behind the array; the result is an error or the number of bytes taken.\<close>

definition recent_mt_proc_write ::
    "kernel_lib \<Rightarrow> recent_module \<Rightarrow> u64 \<Rightarrow> (ptr \<times> (nat \<Rightarrow> u64)) option \<Rightarrow> string \<Rightarrow> bool \<Rightarrow> string \<Rightarrow> nat \<Rightarrow>
     recent_table \<Rightarrow> ((errno + nat) \<times> recent_table) run" where
  "recent_mt_proc_write lib md jiffies mem_res stack copy_ok input loff t =
     (let n = length input; mem = input @ stack
      in if MAX_WRITE < n then Done (Inl EINVAL, t)
         else if n = 0 then Done (Inr 0, t)
         else if \<not> copy_ok then Done (Inl EFAULT, t)
         else if loff \<noteq> 0 then Done (Inl ESPIPE, t)
         else if hd input = CHR ''/'' then run_bind (recent_table_flush md t) (\<lambda>t. Done (Inr n, t))
         else (case proc_cmd_of (hd input) of
           None \<Rightarrow> Done (Inl EINVAL, t)
         | Some cmd \<Rightarrow>
             run_bind (if cmd = Proc_restore
               then run_bind (strsep_at mem n (Some 1)) (\<lambda>(ipaddr, c).
                      run_bind (strnchr mem c (n - 1) (CHR '':'')) (\<lambda>v6.
                        Done (c, case ipaddr of None \<Rightarrow> None | Some s \<Rightarrow> parse_addr lib v6 s (- 1))))
               else run_bind (strnchr mem (Some 1) (n - 1) (CHR '':'')) (\<lambda>v6.
                      Done (Some 1, parse_addr lib v6 (tl input) 10)))
             (\<lambda>(c, addr). case addr of
                None \<Rightarrow> Done (Inl EINVAL, t)
              | Some (a, family) \<Rightarrow>
                  run_bind (write_entry lib md jiffies mem_res cmd mem n c a family t)
                    (\<lambda>(r, t). Done (case r of Inl x \<Rightarrow> Inl x | Inr _ \<Rightarrow> Inr n, t)))))"

end
