(* ===== verification/Recent_Restore.thy ===== *)
theory Recent_Restore
  imports Recent_Cache Xt_Recent_File
begin

text \<open>
  What writing to the file of a table does to its cache. The kernel's number and address parsers are
  the arguments \<open>lib\<close>; what the code relies on of them is \<open>lib_reads\<close>.
\<close>

section \<open>Stamping an entry\<close>

definition c_push :: "nat \<Rightarrow> u64 list \<Rightarrow> cached \<Rightarrow> cached list \<Rightarrow> cached list" where
  "c_push n ss c cs =
     (if ss = [] then cs else c_without c cs @ [c\<lparr>c_stamps := last_n n (c_stamps c @ ss)\<rparr>])"

lemma last_n_last_n: "last_n n (last_n n xs @ ys) = last_n n (xs @ ys)"
  by (cases "n \<le> length xs") (simp_all add: last_n_def add.commute)

lemma c_without_other [simp]:
  "c_without c (c_without d cs) = c_without c cs" if "c_key c = c_key d"
  using that by (simp add: c_without_def)

lemma c_without_snoc: "c_key d = c_key c \<Longrightarrow> c_without c (cs @ [d]) = c_without c cs"
  by (simp add: c_without_def)

lemma c_without_same_key: "c_key d = c_key c \<Longrightarrow> c_without d cs = c_without c cs"
  by (simp add: c_without_def)

lemma c_push_Cons: "c_push n ss (c_stamp n s c) (c_without c cs @ [c_stamp n s c]) = c_push n (s # ss) c cs"
proof -
  have "c_without (c_stamp n s c) (c_without c cs @ [c_stamp n s c]) = c_without c cs"
    by (simp add: c_without_same_key [of "c_stamp n s c" c] c_without_snoc)
  then show ?thesis by (simp add: c_push_def c_stamp_def last_n_last_n)
qed

lemma cache_update:
  assumes "cache_ok md t" and "k_heap t p = Some e"
  shows "\<exists>t' e'. recent_entry_update jiffies t p ns = Done t' \<and> cache_ok md t' \<and> k_heap t' p = Some e' \<and>
    same_table t t' \<and>
    (let c = c_stamp (unat (nstamps_max_mask t) + 1) (case ns of None \<Rightarrow> jiffies | Some s \<Rightarrow> s) (at t p)
     in cached_of e' = c \<and> cache t' = c_without (at t p) (cache t) @ [c])"
proof -
  obtain ps where ps: "table_rel md t ps" using cache_okD [OF assms(1)] .
  from kernel_49.upd_cache [OF assms(1) ps assms(2), of jiffies ns] obtain e' where
    e': "recent_entry_update jiffies t p ns = Done (touched t p e')" "ring_n (unat (nstamps_max_mask t) + 1) e'"
    "k_addr e' = k_addr e" "k_family e' = k_family e" "\<And>ttl. table_rel md (touched t p (e'\<lparr>k_ttl := ttl\<rparr>)) ps"
    "cached_of e' = c_stamp (unat (nstamps_max_mask t) + 1) (case ns of None \<Rightarrow> jiffies | Some s \<Rightarrow> s) (at t p)"
    by auto
  have "table_rel md (touched t p e') ps" using e'(5) [of "k_ttl e'"] by simp
  from cache_touched [OF assms(1) ps assms(2) e'(2-4) this] e'(1,6) show ?thesis by (simp add: Let_def)
qed

section \<open>The tokens of a line\<close>

definition token_ok :: "string \<Rightarrow> bool" where
  "token_ok tok \<longleftrightarrow> CHR '';'' \<notin> set tok \<and> CHR 0x00 \<notin> set tok"

lemma drop_token: "drop i mem = tok @ rest \<Longrightarrow> drop (i + length tok) mem = rest"
  by (metis add.commute append_eq_conv_conj drop_drop)

lemma strsep_token:
  assumes "drop i mem = tok @ CHR '';'' # rest" and "token_ok tok" and "i + length tok < n"
  shows "strsep_at mem n (Some i) = Done (Some tok, Some (Suc (i + length tok)))"
    and "drop (Suc (i + length tok)) mem = rest"
proof -
  have d: "drop (i + length tok) mem = CHR '';'' # rest" using drop_token [OF assms(1)] .
  then have l: "i + length tok < length mem" by (metis drop_all list.distinct(1) not_le)
  then have "mem ! (i + length tok) = CHR '';''" using d by (metis hd_drop_conv_nth list.sel(1))
  moreover have "takeWhile (\<lambda>x. x \<noteq> CHR '';'' \<and> x \<noteq> CHR 0x00) (drop i mem) = tok"
    unfolding assms(1) using assms(2) by (subst takeWhile_append2) (auto simp: token_ok_def)
  ultimately show "strsep_at mem n (Some i) = Done (Some tok, Some (Suc (i + length tok)))"
    using l assms(3) by (simp add: strsep_at_def Let_def)
  show "drop (Suc (i + length tok)) mem = rest"
    using drop_token [of i mem "tok @ '';''" rest] assms(1) by simp
qed

lemma strsep_last:
  assumes "drop i mem = tok @ CHR 0x00 # rest" and "token_ok tok"
  shows "strsep_at mem n (Some i) = Done (Some tok, None)"
proof -
  have d: "drop (i + length tok) mem = CHR 0x00 # rest" using drop_token [OF assms(1)] .
  then have l: "i + length tok < length mem" by (metis drop_all list.distinct(1) not_le)
  then have "mem ! (i + length tok) = CHR 0x00" using d by (metis hd_drop_conv_nth list.sel(1))
  moreover have "takeWhile (\<lambda>x. x \<noteq> CHR '';'' \<and> x \<noteq> CHR 0x00) (drop i mem) = tok"
    unfolding assms(1) using assms(2) by (subst takeWhile_append2) (auto simp: token_ok_def)
  ultimately show ?thesis using l by (simp add: strsep_at_def Let_def)
qed

lemma strsep_none [simp]: "strsep_at mem n None = Done (None, None)"
  by (simp add: strsep_at_def)

text \<open>What the kernel's parsers do with the texts the daemon writes.\<close>

definition lib_reads :: "kernel_lib \<Rightarrow> bool" where
  "lib_reads lib \<longleftrightarrow> (\<forall>ip d. length ip = 4 \<longrightarrow> in4_pton lib (ipv4_string ip) d = Some ip) \<and>
     (\<forall>b. kstrtou8 lib (to_string_u b) = Some b) \<and> (\<forall>w. kstrtoul lib (to_string_u w) = Some w) \<and>
     kstrtoul lib [] = None"

definition stamps_text :: "u64 list \<Rightarrow> string" where
  "stamps_text ss = concat (map (\<lambda>s. to_string_u s @ '';'') ss)"

lemma token_digits [simp]: "token_ok (to_string_u w)"
  by (auto simp: token_ok_def to_string_u_def is_digit_def dest!: dec_all_digits)

lemma token_ip [simp]: "token_ok (ipv4_string ip)"
  by (auto simp: token_ok_def is_digit_def dest!: ipv4_string_chars)

lemma stamps_text_Cons: "stamps_text (s # ss) = to_string_u s @ CHR '';'' # stamps_text ss"
  by (simp add: stamps_text_def)

text \<open>The last token ends where the line or the memory behind it has a \<open>NUL\<close>; it may be a number too.\<close>

definition tail_stamps :: "kernel_lib \<Rightarrow> string \<Rightarrow> u64 list" where
  "tail_stamps lib tok = (case kstrtoul lib tok of None \<Rightarrow> [] | Some w \<Rightarrow> [w])"

text \<open>
  The contract of a module's file for what the daemon writes, the flush and the restore: the loop over the
  stamps, the restore of one address and the two ways through \<open>recent_mt_proc_write\<close>, over the module's own
  stamping function. The three modules have this text.
\<close>

locale line_writer = stamper F upd
  for F :: "byte \<Rightarrow> bool" and upd :: "u64 \<Rightarrow> recent_table \<Rightarrow> ptr \<Rightarrow> u64 option \<Rightarrow> recent_table run" +
  fixes md :: recent_module
    and ws :: "kernel_lib \<Rightarrow> u64 \<Rightarrow> string \<Rightarrow> nat \<Rightarrow> nat option \<Rightarrow> ptr option \<Rightarrow> recent_table \<Rightarrow> recent_table run"
    and rst :: "kernel_lib \<Rightarrow> u64 \<Rightarrow> (ptr \<times> (nat \<Rightarrow> u64)) option \<Rightarrow> string \<Rightarrow> nat \<Rightarrow> nat option \<Rightarrow> nf_inet_addr \<Rightarrow>
      nfproto \<Rightarrow> recent_table \<Rightarrow> ((errno + unit) \<times> recent_table) run"
    and pw :: "kernel_lib \<Rightarrow> u64 \<Rightarrow> (ptr \<times> (nat \<Rightarrow> u64)) option \<Rightarrow> string \<Rightarrow> bool \<Rightarrow> string \<Rightarrow> nat \<Rightarrow>
      recent_table \<Rightarrow> ((errno + nat) \<times> recent_table) run"
  assumes ws_None: "ws lib jiffies mem n None e t = Done t"
    and ws_token: "strsep_at mem n (Some i) = Done (Some tok, c) \<Longrightarrow> ws lib jiffies mem n (Some i) e t =
      (case kstrtoul lib tok of
         None \<Rightarrow> ws lib jiffies mem n c e t
       | Some tmp \<Rightarrow> (case e of None \<Rightarrow> Fault
           | Some p \<Rightarrow> run_bind (upd jiffies t p (Some tmp)) (ws lib jiffies mem n c e)))"
    and rst_step: "F (nstamps_max_mask t) \<Longrightarrow> rst lib jiffies res mem n c a family t =
      run_bind (recent_entry_lookup md t a family 0) (\<lambda>e.
        case e of
          None \<Rightarrow>
            run_bind (strsep_at mem n c) (\<lambda>(tok, c).
              case (case tok of None \<Rightarrow> Some 0 | Some s \<Rightarrow> kstrtou8 lib s) of
                None \<Rightarrow> Done (Inl EINVAL, t)
              | Some ttl \<Rightarrow>
                  run_bind (strsep_at mem n c) (\<lambda>(tok, c).
                    run_bind (case (case tok of None \<Rightarrow> None | Some s \<Rightarrow> kstrtoul lib s) of
                                None \<Rightarrow> Done (None, t)
                              | Some nstamp \<Rightarrow> recent_entry_init md jiffies res t a family ttl (Some nstamp))
                      (\<lambda>(e, t). run_bind (ws lib jiffies mem n c e t) (\<lambda>t. Done (Inr (), t)))))
        | Some p \<Rightarrow> run_bind (strsep_at mem n c) (\<lambda>(_, c).
            run_bind (ws lib jiffies mem n c (Some p) t) (\<lambda>t. Done (Inr (), t))))"
    and pw_restore: "Suc (length line) \<le> MAX_WRITE \<Longrightarrow>
      pw lib jiffies res stack True (CHR ''*'' # line) 0 t =
      run_bind (strsep_at (CHR ''*'' # line @ stack) (Suc (length line)) (Some 1)) (\<lambda>(ipaddr, c).
        run_bind (strnchr (CHR ''*'' # line @ stack) c (length line) (CHR '':'')) (\<lambda>v6.
          case (case ipaddr of None \<Rightarrow> None | Some s \<Rightarrow> parse_addr lib v6 s (- 1)) of
            None \<Rightarrow> Done (Inl EINVAL, t)
          | Some (a, family) \<Rightarrow>
              run_bind (rst lib jiffies res (CHR ''*'' # line @ stack) (Suc (length line)) c a family t)
                (\<lambda>(r, t). Done (case r of Inl x \<Rightarrow> Inl x | Inr _ \<Rightarrow> Inr (Suc (length line)), t))))"
    and pw_flush: "pw lib jiffies res stack True ''/'' 0 t = run_bind (recent_table_flush md t) (\<lambda>t. Done (Inr 1, t))"
begin

lemma write_stamps_cache:
  assumes "lib_reads lib" and "token_ok tok" and "cache_fits F md t" and "k_heap t p = Some e"
    and "drop i mem = stamps_text ss @ tok @ CHR 0x00 # rest" and "i + length (stamps_text ss) \<le> n"
  shows "\<exists>t'. ws lib jiffies mem n (Some i) (Some p) t = Done t' \<and> cache_fits F md t' \<and>
    same_table t t' \<and>
    cache t' = c_push (unat (nstamps_max_mask t) + 1) (ss @ tail_stamps lib tok) (at t p) (cache t)"
  using assms(3-6)
proof (induction ss arbitrary: t e i)
  case Nil
  then have tk: "strsep_at mem n (Some i) = Done (Some tok, None)"
    using strsep_last [OF _ assms(2)] by (simp add: stamps_text_def)
  show ?case
  proof (cases "kstrtoul lib tok")
    case None
    with Nil.prems(1) show ?thesis by (simp add: ws_token [OF tk] ws_None tail_stamps_def c_push_def)
  next
    case (Some w)
    from upd_file [OF Nil.prems(1,2), of jiffies w] obtain t1 where
      "upd jiffies t p (Some w) = Done t1" "cache_fits F md t1" "same_table t t1"
      "cache t1 = c_without (at t p) (cache t) @ [c_stamp (unat (nstamps_max_mask t) + 1) w (at t p)]" by blast
    with Some show ?thesis by (simp add: ws_token [OF tk] ws_None tail_stamps_def c_push_def c_stamp_def)
  qed
next
  case (Cons s ss)
  note tok = strsep_token [of i mem "to_string_u s" "stamps_text ss @ tok @ CHR 0x00 # rest" n]
  have tk: "strsep_at mem n (Some i) = Done (Some (to_string_u s), Some (Suc (i + length (to_string_u s))))"
    "drop (Suc (i + length (to_string_u s))) mem = stamps_text ss @ tok @ CHR 0x00 # rest"
    using tok Cons.prems(3,4) by (simp_all add: stamps_text_Cons)
  from upd_file [OF Cons.prems(1,2), of jiffies s] obtain t1 e1 where
    t1: "upd jiffies t p (Some s) = Done t1" "cache_fits F md t1" "k_heap t1 p = Some e1"
      "same_table t t1" "at t1 p = c_stamp (unat (nstamps_max_mask t) + 1) s (at t p)"
      "cache t1 = c_without (at t p) (cache t) @ [c_stamp (unat (nstamps_max_mask t) + 1) s (at t p)]" by blast
  have len: "Suc (i + length (to_string_u s)) + length (stamps_text ss) \<le> n"
    using Cons.prems(4) by (simp add: stamps_text_Cons)
  have n: "nstamps_max_mask t1 = nstamps_max_mask t" using t1(4) by (simp add: same_table_def)
  have "kstrtoul lib (to_string_u s) = Some s" using assms(1) by (simp add: lib_reads_def)
  then have "ws lib jiffies mem n (Some i) (Some p) t =
      ws lib jiffies mem n (Some (Suc (i + length (to_string_u s)))) (Some p) t1"
    by (simp add: ws_token [OF tk(1)] t1(1))
  with Cons.IH [OF t1(2,3) tk(2) len] show ?case
    using t1(4-6) by (auto simp: n c_push_Cons dest: same_table_trans)
qed

end

section \<open>Restoring an address\<close>

definition restore_line :: "byte list \<Rightarrow> byte \<Rightarrow> u64 list \<Rightarrow> string" where
  "restore_line ip ttl ss = ''*'' @ ipv4_string ip @ '';'' @ to_string_u ttl @ '';'' @ stamps_text ss"

definition c_restore :: "nat \<Rightarrow> nat \<Rightarrow> byte list \<Rightarrow> byte \<Rightarrow> u64 list \<Rightarrow> cached list \<Rightarrow> cached list" where
  "c_restore tot n ip ttl ss cs =
     (case c_lookup (ipv4_addr ip) NFPROTO_IPV4 0 cs of
        Some c \<Rightarrow> c_push n ss c cs
      | None \<Rightarrow> if ss = [] then cs
          else c_insert tot \<lparr>c_addr = ipv4_addr ip, c_family = NFPROTO_IPV4, c_ttl = ttl,
            c_stamps = last_n n ss\<rparr> cs)"

lemma strnchr_at_string:
  "drop i mem = xs @ CHR 0x00 # rest \<Longrightarrow> CHR 0x00 \<notin> set xs \<Longrightarrow>
   strnchr_at mem i n x = Done (x \<in> set (take n xs))"
proof (induction xs arbitrary: i n)
  case Nil
  then have "i < length mem" by (metis append_Nil drop_all list.distinct(1) not_le)
  with Nil(1) have "mem ! i = CHR 0x00" by (metis append_Nil hd_drop_conv_nth list.sel(1))
  then show ?case using \<open>i < length mem\<close> by (cases n) auto
next
  case (Cons y ys)
  have "i < length mem" using Cons.prems(1) by (metis append_Cons drop_all list.distinct(1) not_le)
  moreover have "mem ! i = y" using Cons.prems(1) calculation by (metis append_Cons hd_drop_conv_nth list.sel(1))
  moreover have "drop (Suc i) mem = ys @ CHR 0x00 # rest"
    using Cons.prems(1) by (metis append_Cons drop_Suc drop_tl list.sel(3))
  ultimately show ?case using Cons.IH [of "Suc i"] Cons.prems(2) by (cases n) auto
qed

lemma strnchr_at_absent:
  "drop i mem = xs @ CHR 0x00 # rest \<Longrightarrow> x \<notin> set xs \<Longrightarrow> CHR 0x00 \<notin> set xs \<Longrightarrow>
   strnchr_at mem i n x = Done False"
  by (auto simp: strnchr_at_string dest: in_set_takeD)

lemma c_insert_push:
  assumes "c_lookup (c_addr c) (c_family c) 0 cs = None"
  shows "c_push n ss c (c_insert tot c cs) =
    c_insert tot (if ss = [] then c else c\<lparr>c_stamps := last_n n (c_stamps c @ ss)\<rparr>) cs"
proof -
  have "c_key c \<notin> c_key ` set (c_evict tot cs)"
    using no_match_no_key [OF assms] set_c_evict [of tot cs] by (auto simp: c_key_def)
  then have "c_without c (c_evict tot cs) = c_evict tot cs"
    unfolding c_without_def by (intro filter_True) (metis imageI)
  then show ?thesis by (simp add: c_push_def c_insert_def c_without_snoc)
qed

text \<open>Both branches of \<open>write_entry\<close> for \<open>*\<close>, behind the address.\<close>

context line_writer
begin

lemma restore_cache:
  assumes "lib_reads lib" and "token_ok tok" and "cache_fits F md t" and "module_ok md" and "k_heap t p = None"
    and "drop i mem = to_string_u ttl @ '';'' @ stamps_text ss @ tok @ CHR 0x00 # rest"
    and "i + length (to_string_u ttl) + 1 + length (stamps_text ss) \<le> n"
  shows "\<exists>t'. rst lib jiffies (Some (p, old)) mem n (Some i) (ipv4_addr ip) NFPROTO_IPV4 t =
      Done (Inr (), t') \<and> cache_fits F md t' \<and> same_table t t' \<and>
    cache t' = c_restore (unat (ip_list_tot md)) (unat (nstamps_max_mask t) + 1) ip ttl
      (ss @ tail_stamps lib tok) (cache t)"
proof -
  obtain ps where ps: "table_rel md t ps" using cache_okD [OF assms(3)] .
  have mask: "F (nstamps_max_mask t)" using assms(3) by (simp add: cache_fits_def)
  let ?a = "ipv4_addr ip" and ?N = "unat (nstamps_max_mask t) + 1"
  let ?i = "Suc (i + length (to_string_u ttl))"
  note cl = cache_lookup [OF assms(3) ps, of ?a NFPROTO_IPV4 0]
  have tk: "strsep_at mem n (Some i) = Done (Some (to_string_u ttl), Some ?i)"
    "drop ?i mem = stamps_text ss @ tok @ CHR 0x00 # rest"
    using strsep_token [of i mem "to_string_u ttl" "stamps_text ss @ tok @ CHR 0x00 # rest" n] assms(6,7)
    by simp_all
  show ?thesis
  proof (cases "plain_lookup t ps ?a NFPROTO_IPV4 0")
    case (Some q)
    then obtain e where e: "k_heap t q = Some e" using plain_lookup_Some by blast
    from write_stamps_cache [OF assms(1-3) e tk(2), of n jiffies] assms(7) obtain t' where
      "ws lib jiffies mem n (Some ?i) (Some q) t = Done t'" "cache_fits F md t'" "same_table t t'"
      "cache t' = c_push ?N (ss @ tail_stamps lib tok) (at t q) (cache t)" by auto
    with Some cl show ?thesis
      by (simp add: rst_step [OF mask] lookup_plain [OF ps assms(4)] tk(1) c_restore_def)
  next
    case None
    have none: "c_lookup ?a NFPROTO_IPV4 0 (cache t) = None" using cl None by simp
    have ttl: "kstrtou8 lib (to_string_u ttl) = Some ttl" and num: "\<And>w. kstrtoul lib (to_string_u w) = Some w"
      using assms(1) by (simp_all add: lib_reads_def)
    have p: "p \<notin> set ps" using assms(5) table_relD(5) [OF ps] by auto
    let ?c = "\<lambda>s. \<lparr>c_addr = ?a, c_family = NFPROTO_IPV4, c_ttl = ttl, c_stamps = [s]\<rparr>"
    let ?t = "\<lambda>s. inited md (init_evicted md t) p (new_entry t ?a NFPROTO_IPV4 ttl old s)"
    note ci = cache_init [OF assms(3) ps assms(4) p none, of ttl old]
    have same: "same_table t (?t s)" for s
      using same_table_trans [OF same_table_ops(4) same_table_ops(2)] by blast
    show ?thesis
    proof (cases ss)
      case Nil
      have tk2: "strsep_at mem n (Some ?i) = Done (Some tok, None)"
        using strsep_last [of ?i mem tok] tk(2) Nil assms(2) by (simp add: stamps_text_def)
      show ?thesis
      proof (cases "kstrtoul lib tok")
        case None
        with \<open>plain_lookup _ _ _ _ _ = None\<close> none Nil assms(3) show ?thesis
          by (simp add: rst_step [OF mask] lookup_plain [OF ps assms(4)] tk(1) tk2 ttl c_restore_def ws_None
              tail_stamps_def)
      next
        case (Some w)
        with \<open>plain_lookup _ _ _ _ _ = None\<close> none Nil ci [of w] same [of w] show ?thesis
          by (simp add: rst_step [OF mask] lookup_plain [OF ps assms(4)] tk(1) tk2 ttl c_restore_def ws_None
              tail_stamps_def init_plain(2) [OF ps assms(4)] last_n_def)
      qed
    next
      case (Cons s ss')
      let ?j = "Suc (?i + length (to_string_u s))"
      have tk2: "strsep_at mem n (Some ?i) = Done (Some (to_string_u s), Some ?j)"
        "drop ?j mem = stamps_text ss' @ tok @ CHR 0x00 # rest"
        using strsep_token [of ?i mem "to_string_u s" "stamps_text ss' @ tok @ CHR 0x00 # rest" n] tk(2) assms(7)
        by (simp_all add: Cons stamps_text_Cons)
      have m: "nstamps_max_mask (?t s) = nstamps_max_mask t" using same by (simp add: same_table_def)
      have e: "k_heap (?t s) p = Some (new_entry t ?a NFPROTO_IPV4 ttl old s)" by simp
      have at: "at (?t s) p = ?c s" using ring_new_entry(2) by (simp add: at_Some [OF e])
      have "?j + length (stamps_text ss') \<le> n" using assms(7) by (simp add: Cons stamps_text_Cons)
      from write_stamps_cache [OF assms(1,2) ci(2) e tk2(2) this, of jiffies, unfolded at m ci(1)] obtain t' where
        t': "ws lib jiffies mem n (Some ?j) (Some p) (?t s) = Done t'" "cache_fits F md t'"
        "same_table (?t s) t'"
        "cache t' = c_push ?N (ss' @ tail_stamps lib tok) (?c s) (c_insert (unat (ip_list_tot md)) (?c s) (cache t))"
        by blast
      have push: "c_push ?N (ss' @ tail_stamps lib tok) (?c s) (c_insert (unat (ip_list_tot md)) (?c s) (cache t)) =
          c_restore (unat (ip_list_tot md)) ?N ip ttl (ss @ tail_stamps lib tok) (cache t)"
        using none by (simp add: c_insert_push c_restore_def Cons last_n_def)
      show ?thesis
        using None t'(1,2) t'(4) [unfolded push] same_table_trans [OF same t'(3)]
        by (simp add: rst_step [OF mask] lookup_plain [OF ps assms(4)] tk(1) tk2(1) ttl num
            init_plain(2) [OF ps assms(4)])
    qed
  qed
qed

end

section \<open>The file\<close>

lemma digit_colon [simp]: "\<not> is_digit (CHR '':'')" "\<not> is_digit (CHR 0x00)"
  by (simp_all add: is_digit_def)

lemma no_colon_digits [simp]: "CHR '':'' \<notin> set (to_string_u w)" "CHR 0x00 \<notin> set (to_string_u w)"
  by (auto simp: to_string_u_def dest!: dec_all_digits)

lemma no_colon_stamps [simp]: "CHR '':'' \<notin> set (stamps_text ss)" "CHR 0x00 \<notin> set (stamps_text ss)"
  by (auto simp: stamps_text_def)

context line_writer
begin

lemma flush_file:
  assumes "cache_fits F md t" and "module_ok md"
  shows "\<exists>t'. pw lib jiffies res stack True ''/'' 0 t = Done (Inr 1, t') \<and>
    cache_fits F md t' \<and> same_table t t' \<and> cache t' = []"
proof -
  obtain ps where ps: "table_rel md t ps" using cache_okD [OF assms(1)] .
  from flush_plain [OF ps assms(2)] obtain t' where
    t': "recent_table_flush md t = Done t'" "table_rel md t' []" "same_table t t'" .
  with table_rel_empty [OF t'(2)] assms(1) show ?thesis
    by (auto simp: pw_flush cache_def cache_fits_def table_ok_def same_table_def)
qed

lemma restore_file:
  assumes "lib_reads lib" and "token_ok tok" and "CHR '':'' \<notin> set tok"
    and "cache_fits F md t" and "module_ok md" and "k_heap t p = None" and "length ip = 4"
    and "length (restore_line ip ttl ss) \<le> MAX_WRITE"
  shows "\<exists>t'. pw lib jiffies (Some (p, old)) (tok @ CHR 0x00 # rest) True (restore_line ip ttl ss) 0 t =
      Done (Inr (length (restore_line ip ttl ss)), t') \<and> cache_fits F md t' \<and> same_table t t' \<and>
    cache t' = c_restore (unat (ip_list_tot md)) (unat (nstamps_max_mask t) + 1) ip ttl
      (ss @ tail_stamps lib tok) (cache t)"
proof -
  let ?tail = "to_string_u ttl @ '';'' @ stamps_text ss"
  let ?b = "ipv4_string ip @ '';'' @ ?tail" and ?i = "Suc (1 + length (ipv4_string ip))"
  let ?n = "Suc (length ?b)" and ?mem = "CHR ''*'' # ?b @ tok @ CHR 0x00 # rest"
  have l: "restore_line ip ttl ss = CHR ''*'' # ?b" by (simp add: restore_line_def)
  have tk: "strsep_at ?mem ?n (Some 1) = Done (Some (ipv4_string ip), Some ?i)"
    "drop ?i ?mem = (?tail @ tok) @ CHR 0x00 # rest"
    using strsep_token [of 1 ?mem "ipv4_string ip" "?tail @ tok @ CHR 0x00 # rest" ?n] by simp_all
  have v6: "strnchr ?mem (Some ?i) (length ?b) (CHR '':'') = Done False"
    unfolding strnchr_def option.case
    by (rule strnchr_at_absent [OF tk(2)]) (use assms(2,3) in \<open>simp_all add: token_ok_def\<close>)
  have addr: "parse_addr lib False (ipv4_string ip) (- 1) = Some (ipv4_addr ip, NFPROTO_IPV4)"
    using assms(1,7) by (simp add: parse_addr_def lib_reads_def)
  have dr: "drop ?i ?mem = to_string_u ttl @ '';'' @ stamps_text ss @ tok @ CHR 0x00 # rest" using tk(2) by simp
  have len: "?i + length (to_string_u ttl) + 1 + length (stamps_text ss) \<le> ?n" by simp
  from restore_cache [OF assms(1,2,4-6) dr len, of jiffies old ip] obtain t' where
    t': "rst lib jiffies (Some (p, old)) ?mem ?n (Some ?i) (ipv4_addr ip) NFPROTO_IPV4 t = Done (Inr (), t')"
    "cache_fits F md t'" "same_table t t'"
    "cache t' = c_restore (unat (ip_list_tot md)) (unat (nstamps_max_mask t) + 1) ip ttl
      (ss @ tail_stamps lib tok) (cache t)" by blast
  have "Suc (length ?b) \<le> MAX_WRITE" using assms(8) unfolding l by simp
  then have "pw lib jiffies (Some (p, old)) (tok @ CHR 0x00 # rest) True (CHR ''*'' # ?b) 0 t = Done (Inr ?n, t')"
    by (simp only: pw_restore tk(1) v6 addr t'(1) run_bind.simps prod.case option.case sum.case)
  with t'(2-4) show ?thesis unfolding l list.size(4) by simp
qed

end

section \<open>The module 4.9.13\<close>

lemma write_stamps_token:
  assumes "strsep_at mem n (Some i) = Done (Some tok, c)"
  shows "write_stamps lib jiffies mem n (Some i) e t =
    (case kstrtoul lib tok of
       None \<Rightarrow> write_stamps lib jiffies mem n c e t
     | Some tmp \<Rightarrow> (case e of None \<Rightarrow> Fault
         | Some p \<Rightarrow> run_bind (recent_entry_update jiffies t p (Some tmp)) (write_stamps lib jiffies mem n c e)))"
  by (subst write_stamps.simps) (simp add: assms split: option.split run.split)

lemma proc_write_restore:
  assumes "Suc (length line) \<le> MAX_WRITE"
  shows "recent_mt_proc_write lib md jiffies res stack True (CHR ''*'' # line) 0 t =
      run_bind (strsep_at (CHR ''*'' # line @ stack) (Suc (length line)) (Some 1)) (\<lambda>(ipaddr, c).
        run_bind (strnchr (CHR ''*'' # line @ stack) c (length line) (CHR '':'')) (\<lambda>v6.
          case (case ipaddr of None \<Rightarrow> None | Some s \<Rightarrow> parse_addr lib v6 s (- 1)) of
            None \<Rightarrow> Done (Inl EINVAL, t)
          | Some (a, family) \<Rightarrow>
              run_bind (write_entry lib md jiffies res Proc_restore (CHR ''*'' # line @ stack) (Suc (length line)) c a family t)
                (\<lambda>(r, t). Done (case r of Inl x \<Rightarrow> Inl x | Inr _ \<Rightarrow> Inr (Suc (length line)), t))))"
  using assms by (simp add: recent_mt_proc_write_def Let_def proc_cmd_of_def not_less case_prod_unfold cong: option.case_cong)

interpretation file_49: line_writer power_mask recent_entry_update md write_stamps
  "\<lambda>lib jiffies res. write_entry lib md jiffies res Proc_restore" "\<lambda>lib. recent_mt_proc_write lib md" for md
proof unfold_locales
  show "write_stamps lib jiffies mem n None e t = Done t" for lib jiffies mem n e t
    by (simp add: write_stamps.simps)
next
  show "recent_mt_proc_write lib md jiffies res stack True ''/'' 0 t =
      run_bind (recent_table_flush md t) (\<lambda>t. Done (Inr 1, t))" for lib jiffies res stack t
    by (simp add: recent_mt_proc_write_def MAX_WRITE_def)
qed (simp_all only: write_stamps_token proc_write_restore write_entry_def restore_new_def proc_cmd.case)

text \<open>Memory that starts with \<open>NUL\<close> adds nothing.\<close>

lemma tail_stamps_Nil [simp]: "lib_reads lib \<Longrightarrow> tail_stamps lib [] = []"
  by (simp add: tail_stamps_def lib_reads_def)

text \<open>
  A restore line of an address of either family: the search for a colon starts behind the address and is as
  long as the line without its first character, so it ends as many bytes behind the line as the address
  and its semicolon take.
\<close>

lemma restore_line_family:
  assumes "token_ok addr" and "CHR '':'' \<notin> set tail" and "CHR 0x00 \<notin> set tail" and "CHR 0x00 \<notin> set tok"
    and "length (CHR ''*'' # addr @ '';'' @ tail) \<le> MAX_WRITE"
  shows "recent_mt_proc_write lib md jiffies mem_res (tok @ CHR 0x00 # rest) True (CHR ''*'' # addr @ '';'' @ tail) 0 t =
    (case parse_addr lib (CHR '':'' \<in> set (take (Suc (length addr)) tok)) addr (- 1) of
       None \<Rightarrow> Done (Inl EINVAL, t)
     | Some (a, family) \<Rightarrow>
         run_bind (write_entry lib md jiffies mem_res Proc_restore ((CHR ''*'' # addr @ '';'' @ tail) @ tok @ CHR 0x00 # rest)
             (length (CHR ''*'' # addr @ '';'' @ tail)) (Some (length addr + 2)) a family t)
           (\<lambda>(r, t). Done (case r of Inl x \<Rightarrow> Inl x | Inr _ \<Rightarrow> Inr (length (CHR ''*'' # addr @ '';'' @ tail)), t)))"
proof -
  let ?l = "addr @ '';'' @ tail" and ?i = "Suc (1 + length addr)"
  let ?mem = "CHR ''*'' # ?l @ tok @ CHR 0x00 # rest"
  have tk: "strsep_at ?mem (Suc (length ?l)) (Some 1) = Done (Some addr, Some ?i)"
    "drop ?i ?mem = (tail @ tok) @ CHR 0x00 # rest"
    using strsep_token [of 1 ?mem addr "tail @ tok @ CHR 0x00 # rest" "Suc (length ?l)"] assms(1) by simp_all
  have v6: "strnchr ?mem (Some ?i) (length ?l) (CHR '':'') =
      Done (CHR '':'' \<in> set (take (Suc (length addr)) tok))"
    unfolding strnchr_def option.case
    by (subst strnchr_at_string [OF tk(2)]) (use assms(2-4) in \<open>auto dest: in_set_takeD\<close>)
  have "Suc (length ?l) \<le> MAX_WRITE" using assms(5) by simp
  note w = proc_write_restore [OF this, of lib md jiffies mem_res "tok @ CHR 0x00 # rest" t]
  have i: "?i = length addr + 2" by simp
  show ?thesis
    by (simp only: w tk(1) [unfolded i] v6 [unfolded i] run_bind.simps prod.case option.case length_Cons
        append_Cons [of "CHR ''*''" ?l "tok @ CHR 0x00 # rest"])
qed

lemma line_without_separator:
  assumes "token_ok (addr @ tok)" and "addr \<noteq> []" and "length (CHR ''*'' # addr) \<le> MAX_WRITE"
  shows "recent_mt_proc_write lib md jiffies mem_res (tok @ CHR 0x00 # rest) True (CHR ''*'' # addr) 0 t = Fault"
proof -
  let ?mem = "(CHR ''*'' # addr) @ tok @ CHR 0x00 # rest"
  have "strsep_at ?mem (length (CHR ''*'' # addr)) (Some 1) = Done (Some (addr @ tok), None)"
    using assms(1) by (intro strsep_last [of _ _ _ rest]) simp_all
  with assms(2,3) show ?thesis
    by (simp add: recent_mt_proc_write_def Let_def proc_cmd_of_def strnchr_def)
qed

section \<open>Parsers for the witnesses\<close>

definition sample_lib :: kernel_lib where
  "sample_lib = \<lparr>
     in4_pton = (\<lambda>s _. case get_ip_address_v4 s of Inl _ \<Rightarrow> None | Inr bs \<Rightarrow> if length bs = 4 then Some bs else None),
     in6_pton = (\<lambda>s _. if CHR '':'' \<in> set s then Some (replicate 16 0) else None),
     kstrtou8 = (\<lambda>s. if s \<noteq> [] \<and> list_all is_digit s \<and> nat_of_dec s < 256 then Some (word_of_nat (nat_of_dec s)) else None),
     kstrtoul = (\<lambda>s. if s \<noteq> [] \<and> list_all is_digit s \<and> nat_of_dec s < 2 ^ 64 then Some (word_of_nat (nat_of_dec s)) else None),
     pI6 = (\<lambda>_. ''::'')\<rparr>"

lemma to_string_u_number:
  "to_string_u w \<noteq> []" "list_all is_digit (to_string_u w)" "nat_of_dec (to_string_u w) = unat w"
  by (simp_all add: to_string_u_def list_all_iff dec_all_digits)

lemma sample_lib_reads: "lib_reads sample_lib"
proof -
  have "in4_pton sample_lib (ipv4_string ip) d = Some ip" if "length ip = 4" for ip d
  proof -
    from that have "ip \<noteq> []" by auto
    with that show ?thesis by (simp add: sample_lib_def)
  qed
  moreover have "kstrtou8 sample_lib (to_string_u b) = Some b" for b :: byte
    by (simp add: sample_lib_def to_string_u_number)
  moreover have "kstrtoul sample_lib (to_string_u w) = Some w" for w :: u64
    using unsigned_less [of w] by (simp add: sample_lib_def to_string_u_number)
  ultimately show ?thesis by (simp add: lib_reads_def sample_lib_def)
qed

section \<open>Properties\<close>

text \<open>C9: a line \<open>*ip;ttl;s1;s2;...\<close> is taken whole: a new address gets the TTL and its last stamps and
  becomes the latest of the table, the oldest one making room when the table is full; a known address gets
  the stamps after its own. The line has no terminator, so a number that follows it on the kernel's stack
  becomes one more stamp.\<close>

theorem restore_line_effect:
  assumes "lib_reads lib" and "token_ok tok" and "CHR '':'' \<notin> set tok"
    and "cache_ok md t" and "module_ok md" and "k_heap t p = None" and "length ip = 4"
    and "length (restore_line ip ttl ss) \<le> MAX_WRITE"
  shows "\<exists>t'. recent_mt_proc_write lib md jiffies (Some (p, old)) (tok @ CHR 0x00 # rest) True (restore_line ip ttl ss) 0 t =
      Done (Inr (length (restore_line ip ttl ss)), t') \<and> cache_ok md t' \<and> same_table t t' \<and>
    cache t' = c_restore (unat (ip_list_tot md)) (unat (nstamps_max_mask t) + 1) ip ttl
      (ss @ tail_stamps lib tok) (cache t)"
  using assms by (rule file_49.restore_file)

text \<open>The digit 7 behind the line \<open>*10.0.0.1;64;5;\<close>.\<close>

theorem restore_line_effect_witness:
  "\<exists>t'. recent_mt_proc_write sample_lib sample_module 5000 (Some (3, \<lambda>_. 0)) (''7'' @ CHR 0x00 # []) True
      (restore_line [10, 0, 0, 1] 64 [5]) 0 sample_recent_table =
      Done (Inr (length (restore_line [10, 0, 0, 1] 64 [5])), t') \<and>
    cache t' = [\<lparr>c_addr = ipv4_addr [10, 0, 0, 1], c_family = NFPROTO_IPV4, c_ttl = 64, c_stamps = [5, 7]\<rparr>]"
proof -
  have tok: "token_ok ''7''" "CHR '':'' \<notin> set ''7''" by (simp_all add: token_ok_def)
  have tail: "tail_stamps sample_lib ''7'' = [7]"
    by (simp add: tail_stamps_def sample_lib_def is_digit_def nat_of_dec_def digit_val_def)
  have len: "length (restore_line [10, 0, 0, 1] 64 [5]) \<le> MAX_WRITE"
    by (simp add: restore_line_def MAX_WRITE_def stamps_text_def ipv4_string_four to_string_u_def dec_of_nat.simps)
  have free: "k_heap sample_recent_table 3 = None" by (simp add: sample_table_ok)
  have m: "unat (nstamps_max_mask sample_recent_table) + 1 = 32" "unat (ip_list_tot sample_module) = 100"
    by (simp_all add: sample_recent_table_def new_recent_table_def sample_module_def)
  have r: "c_restore 100 32 [10, 0, 0, 1] 64 [5, 7] [] =
      [\<lparr>c_addr = ipv4_addr [10, 0, 0, 1], c_family = NFPROTO_IPV4, c_ttl = 64, c_stamps = [5, 7]\<rparr>]"
    by (simp add: c_restore_def c_lookup_def c_insert_def c_evict_def last_n_def)
  show ?thesis
    using restore_line_effect [where jiffies = 5000 and old = "\<lambda>_. 0" and rest = "[]" and ip = "[10, 0, 0, 1]"
        and ttl = 64 and ss = "[5]", OF sample_lib_reads tok sample_table_ok(1) sample_module_ok free _ len,
        unfolded tail m sample_table_ok(2)] r by auto
qed

text \<open>C39: the family of a restored address does not depend on the address. The colon that tells IPv6
  from IPv4 is looked for behind the address, where a line of the daemon has digits and semicolons only,
  and then on the stack behind the line, as far as the address is long: with a colon there the address is
  read as IPv6, otherwise as IPv4, and a line whose address that parser refuses is refused. So over a
  clean stack no IPv6 address can be restored, and over a colon no IPv4 address.\<close>

theorem restore_family_from_stack:
  assumes "token_ok addr" and "CHR 0x00 \<notin> set tok"
    and "line = CHR ''*'' # addr @ '';'' @ to_string_u (ttl :: byte) @ '';'' @ stamps_text ss"
    and "length line \<le> MAX_WRITE"
  shows "recent_mt_proc_write lib md jiffies mem_res (tok @ CHR 0x00 # rest) True line 0 t =
    (case if CHR '':'' \<in> set (take (Suc (length addr)) tok)
          then map_option (\<lambda>a. (a, NFPROTO_IPV6)) (in6_pton lib addr (- 1))
          else map_option (\<lambda>a. (ipv4_addr a, NFPROTO_IPV4)) (in4_pton lib addr (- 1)) of
       None \<Rightarrow> Done (Inl EINVAL, t)
     | Some (a, family) \<Rightarrow>
         run_bind (write_entry lib md jiffies mem_res Proc_restore (line @ tok @ CHR 0x00 # rest) (length line)
             (Some (length addr + 2)) a family t)
           (\<lambda>(r, t). Done (case r of Inl x \<Rightarrow> Inl x | Inr _ \<Rightarrow> Inr (length line), t)))"
  using restore_line_family [OF assms(1) _ _ assms(2) assms(4) [unfolded assms(3)], of lib md jiffies mem_res rest t]
  unfolding assms(3) parse_addr_def by simp

text \<open>An IPv6 address over a clean stack, and an IPv4 address over a stack with a colon.\<close>

theorem restore_family_from_stack_witness:
  "recent_mt_proc_write sample_lib sample_module 5000 None (CHR 0x00 # []) True
     (CHR ''*'' # ''fe80::1'' @ '';'' @ to_string_u (64 :: byte) @ '';'' @ stamps_text [5]) 0 sample_recent_table =
   Done (Inl EINVAL, sample_recent_table) \<and>
   recent_mt_proc_write sample_lib sample_module 5000 None (''0:'' @ CHR 0x00 # []) True
     (CHR ''*'' # ''10.0.0.1'' @ '';'' @ to_string_u (64 :: byte) @ '';'' @ stamps_text [5]) 0 sample_recent_table =
   Done (Inl EINVAL, sample_recent_table)"
proof -
  have v4: "in4_pton sample_lib ''fe80::1'' (- 1) = None"
    by (simp add: sample_lib_def get_ip_address_v4_def c_str_def stoi_def scan_int_def is_space_def is_digit_def)
  have v6: "in6_pton sample_lib ''10.0.0.1'' (- 1) = None"
    by (simp add: sample_lib_def)
  have len: "length (CHR ''*'' # ''fe80::1'' @ '';'' @ to_string_u (64 :: byte) @ '';'' @ stamps_text [5]) \<le> MAX_WRITE"
    "length (CHR ''*'' # ''10.0.0.1'' @ '';'' @ to_string_u (64 :: byte) @ '';'' @ stamps_text [5]) \<le> MAX_WRITE"
    by (simp_all add: MAX_WRITE_def stamps_text_def to_string_u_def dec_of_nat.simps)
  note a = restore_family_from_stack [where tok = "[]" and rest = "[]" and t = sample_recent_table and
      lib = sample_lib and md = sample_module and jiffies = 5000 and mem_res = None, OF _ _ refl len(1)]
  note b = restore_family_from_stack [where tok = "''0:''" and rest = "[]" and t = sample_recent_table and
      lib = sample_lib and md = sample_module and jiffies = 5000 and mem_res = None, OF _ _ refl len(2)]
  show ?thesis
    using a b by (simp add: token_ok_def v4 v6)
qed

text \<open>A line \<open>*ip\<close> without a semicolon, a short write of any program that may write the file, makes
  the kernel follow the null pointer that \<open>strsep\<close> leaves behind.\<close>

theorem line_without_separator_faults:
  assumes "token_ok (addr @ tok)" and "addr \<noteq> []" and "length (CHR ''*'' # addr) \<le> MAX_WRITE"
  shows "recent_mt_proc_write lib md jiffies mem_res (tok @ CHR 0x00 # rest) True (CHR ''*'' # addr) 0 t = Fault"
  using assms by (rule line_without_separator)

theorem line_without_separator_faults_witness:
  "recent_mt_proc_write sample_lib sample_module 5000 None ([] @ CHR 0x00 # []) True (CHR ''*'' # ''10.0.0.1'') 0
     sample_recent_table = Fault"
  by (rule line_without_separator_faults) (simp_all add: token_ok_def MAX_WRITE_def)

end
