(* ===== verification/Counter_File.thy ===== *)
theory Counter_File
  imports Recent_Restore Xt_Recent_Proc Base_Sync
begin

text \<open>
  The interface between the daemon and a kernel: the file of a table of counters, as the daemon uses it. What a
  module promises of it is the locale \<open>counter_file\<close>, and what follows from that for
  \<open>xt_recent_proc::get_table\<close> and \<open>base_sync::write_recent_all\<close> is proved here once for every version of the
  module.
\<close>

section \<open>What the daemon sees\<close>

text \<open>The address, the TTL and the stamps in order, of a stored entry and of a cached one; the stamp 0 is
  no stamp for the daemon.\<close>

definition entry_view :: "xt_recent_entry \<Rightarrow> s32 \<times> u64 list" where
  "entry_view e = (get_ttl e, sort (timestamps e))"

definition cached_view :: "cached \<Rightarrow> s32 \<times> u64 list" where
  "cached_view c = (ucast (c_ttl c), sort (filter (\<lambda>s. s \<noteq> 0) (c_stamps c)))"

definition cached_ip :: "cached \<Rightarrow> string" where
  "cached_ip c = ipv4_string (take 4 (c_addr c))"

lemma ipv4_string_inj: "length a = 4 \<Longrightarrow> length b = 4 \<Longrightarrow> ipv4_string a = ipv4_string b \<Longrightarrow> a = b"
  by (metis get_ip_address_v4_string length_0_conv sum.inject(2) zero_neq_numeral)

lemma take_ipv4_addr [simp]: "length ip = 4 \<Longrightarrow> take 4 (ipv4_addr ip) = ip"
  by (simp add: ipv4_addr_def)

definition ipv4_only :: "cached list \<Rightarrow> bool" where
  "ipv4_only cs \<longleftrightarrow> (\<forall>c \<in> set cs. c_family c = NFPROTO_IPV4 \<and> (\<exists>ip. length ip = 4 \<and> c_addr c = ipv4_addr ip))"

lemma cached_ips_distinct:
  assumes "distinct (map c_key cs)" and "ipv4_only cs"
  shows "distinct (map cached_ip cs)"
proof -
  have key: "\<exists>a. length a = 4 \<and> c_key c = (ipv4_addr a, NFPROTO_IPV4) \<and> cached_ip c = ipv4_string a" if "c \<in> set cs" for c
  proof -
    from assms(2) that obtain a where "length a = 4" "c_addr c = ipv4_addr a" "c_family c = NFPROTO_IPV4"
      by (auto simp: ipv4_only_def)
    then show ?thesis by (intro exI [of _ a]) (simp add: c_key_def cached_ip_def)
  qed
  have "inj_on cached_ip (set cs)"
  proof (rule inj_onI)
    fix x y assume xy: "x \<in> set cs" "y \<in> set cs" "cached_ip x = cached_ip y"
    obtain a b where a: "length a = 4" "c_key x = (ipv4_addr a, NFPROTO_IPV4)" "cached_ip x = ipv4_string a"
      and b: "length b = 4" "c_key y = (ipv4_addr b, NFPROTO_IPV4)" "cached_ip y = ipv4_string b"
      using key [OF xy(1)] key [OF xy(2)] by blast
    have "a = b" by (rule ipv4_string_inj [OF a(1) b(1)]) (use xy(3) a(3) b(3) in simp)
    with a b have "c_key x = c_key y" by simp
    with assms(1) xy(1,2) show "x = y" by (auto simp: distinct_map dest: inj_onD)
  qed
  with assms(1) show ?thesis by (simp add: distinct_map)
qed

lemma mget_rows_entries:
  assumes "distinct (map row_ip rows)"
  shows "mget (mmap entry_view (rows_entries u rows [])) k =
    map_of (map (\<lambda>r. (row_ip r, entry_view (row_value u r))) rows) k"
proof -
  let ?kvs = "map (\<lambda>r. (row_ip r, row_value u r)) rows"
  have "rows_entries u rows [] = foldl (\<lambda>m (k, v). mput k v m) [] ?kvs"
    by (simp add: rows_entries_def foldl_map)
  then have "mget (rows_entries u rows []) k = mget (foldl (\<lambda>m (k, v). mput k v m) [] ?kvs) k" by (rule arg_cong)
  also have "\<dots> = map_of (rev ?kvs) k"
    unfolding om.lookup_inserts [OF omap_ok_Nil] by (cases "map_of (rev ?kvs) k") simp_all
  also have "\<dots> = map_of ?kvs k"
  proof -
    have d: "distinct (map fst ?kvs)" using assms by (simp add: comp_def)
    moreover have "distinct (map fst (rev ?kvs))" using d unfolding rev_map [symmetric] distinct_rev .
    ultimately have "map_of (rev ?kvs) = map_of ?kvs \<longleftrightarrow> set (rev ?kvs) = set ?kvs"
      by (intro map_of_inject_set)
    then show ?thesis unfolding set_rev by simp
  qed
  finally have "mget (rows_entries u rows []) k = map_of ?kvs k" .
  moreover have "map_of (map (\<lambda>r. (row_ip r, entry_view (row_value u r))) rows) k = map_option entry_view (map_of ?kvs k)"
    by (induction rows) auto
  ultimately show ?thesis by (simp add: store_simps)
qed

section \<open>What the daemon writes\<close>

text \<open>A sequence of writes to a file, each with what the kernel makes of it.\<close>

fun write_lines :: "('t \<Rightarrow> string \<Rightarrow> ((errno + nat) \<times> 't) run) \<Rightarrow> 't \<Rightarrow> string list \<Rightarrow> 't run" where
  "write_lines put t [] = Done t"
| "write_lines put t (line # ls) = run_bind (put t line) (\<lambda>(_, t). write_lines put t ls)"

definition quad :: "string \<Rightarrow> byte list" where
  "quad s = (case get_ip_address_v4 s of Inl _ \<Rightarrow> [] | Inr bs \<Rightarrow> bs)"

text \<open>What an entry of the daemon needs for a kernel with \<open>n\<close> stamps per entry to take it whole.\<close>

definition restorable :: "nat \<Rightarrow> string \<times> xt_recent_entry \<Rightarrow> bool" where
  "restorable n ke = (case ke of (k, e) \<Rightarrow>
     is_ipv4 k \<and> 0 \<le> sint (get_ttl e) \<and> sint (get_ttl e) < 256 \<and> timestamps e \<noteq> [] \<and> 0 \<notin> set (timestamps e) \<and>
     length (timestamps e) \<le> n \<and> length (entry_update k e) \<le> MAX_WRITE)"

definition restored :: "string \<times> xt_recent_entry \<Rightarrow> cached" where
  "restored ke = (case ke of (k, e) \<Rightarrow>
     \<lparr>c_addr = ipv4_addr (quad k), c_family = NFPROTO_IPV4, c_ttl = ucast (get_ttl e),
      c_stamps = sort (timestamps e)\<rparr>)"

lemma is_ipv4_quad: "is_ipv4 k \<Longrightarrow> length (quad k) = 4 \<and> ipv4_string (quad k) = k"
  by (auto simp: is_ipv4_def quad_def split: sum.splits)

lemma byte_ttl:
  fixes w :: s32
  assumes "0 \<le> sint w" and "sint w < 256"
  shows "to_string_s w = to_string_u (ucast w :: byte)" and "ucast (ucast w :: byte) = w"
proof -
  have "uint w = sint w"
    using assms by (simp add: uint_sint [of w] take_bit_eq_mod)
  then have w: "sint w = int (unat w)" by simp
  have lt: "unat w < 256" using assms(2) unfolding w by linarith
  then have u: "unat (ucast w :: byte) = unat w" by (simp add: unsigned_ucast_eq take_bit_nat_eq_self)
  then show "to_string_s w = to_string_u (ucast w :: byte)"
    using assms(1) w by (simp add: to_string_s_def to_string_u_def)
  have "take_bit 8 w = w"
    by (rule word_unat_eq_iff [THEN iffD2]) (simp add: unsigned_take_bit_eq take_bit_nat_eq_self lt)
  then show "ucast (ucast w :: byte) = w" by (simp add: unsigned_ucast_eq)
qed

lemma restorable_line:
  assumes "restorable n (k, e)"
  shows "entry_update k e = restore_line (quad k) (ucast (get_ttl e)) (sort (timestamps e))"
  using assms is_ipv4_quad [of k] byte_ttl(1) [of "get_ttl e"]
  by (simp add: restorable_def entry_update_def restore_line_def stamps_text_def)

lemma restored_view:
  assumes "restorable n (k, e)"
  shows "cached_ip (restored (k, e)) = k" and "cached_view (restored (k, e)) = entry_view e"
proof -
  show "cached_ip (restored (k, e)) = k"
    using assms is_ipv4_quad [of k] by (simp add: restorable_def cached_ip_def restored_def)
  have "filter (\<lambda>s. s \<noteq> 0) (sort (timestamps e)) = sort (timestamps e)"
    using assms by (intro filter_True) (auto simp: restorable_def)
  then show "cached_view (restored (k, e)) = entry_view e"
    using assms byte_ttl(2) [of "get_ttl e"]
    by (simp add: restorable_def cached_view_def restored_def entry_view_def sort_key_id_if_sorted)
qed

lemma restored_key_inj:
  assumes "restorable n (k, e)" and "restorable n (k', e')" and "c_key (restored (k, e)) = c_key (restored (k', e'))"
  shows "k = k'"
proof -
  have "cached_ip (restored (k, e)) = cached_ip (restored (k', e'))"
    using assms(3) by (simp add: cached_ip_def c_key_def)
  then show ?thesis by (simp add: restored_view(1) [OF assms(1)] restored_view(1) [OF assms(2)])
qed

lemma restored_ipv4:
  assumes "\<forall>ke \<in> set es. restorable n ke"
  shows "ipv4_only (map restored es)"
proof -
  have "\<exists>ip. length ip = 4 \<and> c_family (restored (k, e)) = NFPROTO_IPV4 \<and> c_addr (restored (k, e)) = ipv4_addr ip"
    if "(k, e) \<in> set es" for k e
    using assms that is_ipv4_quad [of k] by (intro exI [of _ "quad k"]) (auto simp: restored_def restorable_def)
  then show ?thesis by (fastforce simp: ipv4_only_def)
qed

lemma restored_views:
  assumes "\<forall>ke \<in> set es. restorable n ke"
  shows "map (\<lambda>c. (cached_ip c, cached_view c)) (map restored es) = mmap entry_view es"
  using assms restored_view by (fastforce simp: mmap_def)

text \<open>An entry that the table does not have yet is appended with its stamps.\<close>

lemma restore_appends:
  assumes "restorable n (k, e)" and "\<forall>ke \<in> set pre. restorable n ke \<and> fst ke \<noteq> k" and "length pre < tot"
  shows "c_restore tot n (quad k) (ucast (get_ttl e)) (sort (timestamps e)) (map restored pre) =
    map restored (pre @ [(k, e)])"
proof -
  have "c_lookup (ipv4_addr (quad k)) NFPROTO_IPV4 0 (map restored pre) = None"
  proof -
    have "c_key c \<noteq> c_key (restored (k, e))" if "c \<in> set (map restored pre)" for c
    proof -
      from that obtain k' e' where "(k', e') \<in> set pre" "c = restored (k', e')" by auto
      with assms(2) restored_key_inj [OF _ assms(1), of k' e'] show ?thesis by auto
    qed
    moreover have "c_key (restored (k, e)) = (ipv4_addr (quad k), NFPROTO_IPV4)"
      by (simp add: restored_def c_key_def)
    ultimately show ?thesis unfolding c_lookup_def find_None_iff c_matches_def by metis
  qed
  moreover have "sort (timestamps e) \<noteq> []"
    using assms(1) unfolding length_0_conv [symmetric] by (simp add: restorable_def)
  ultimately show ?thesis
    using assms(1,3) by (simp add: c_restore_def c_insert_def c_evict_def restorable_def last_n_def restored_def)
qed

section \<open>The contract of the file\<close>

text \<open>
  A table of type \<open>'t\<close> shows a cache of addresses with up to \<open>slots t\<close> stamps each. Writing \<open>/\<close> empties it,
  writing a restore line restores the address, and reading it gives one row per address.
\<close>

locale counter_file =
  fixes md :: recent_module
    and ok :: "'t \<Rightarrow> bool"
    and contents :: "'t \<Rightarrow> cached list"
    and slots :: "'t \<Rightarrow> nat"
    and free :: "'t \<Rightarrow> ptr \<Rightarrow> bool"
    and put :: "kernel_lib \<Rightarrow> u64 \<Rightarrow> (ptr \<times> (nat \<Rightarrow> u64)) option \<Rightarrow> string \<Rightarrow> bool \<Rightarrow> string \<Rightarrow> nat \<Rightarrow> 't \<Rightarrow>
      ((errno + nat) \<times> 't) run"
    and rd :: "kernel_lib \<Rightarrow> 't \<Rightarrow> string list run"
  assumes keys: "ok t \<Longrightarrow> distinct (map c_key (contents t))"
    and flush: "ok t \<Longrightarrow> \<exists>t'. put lib jiffies res stack True ''/'' 0 t = Done (Inr 1, t') \<and> ok t' \<and>
      slots t' = slots t \<and> contents t' = []"
    and restore: "ok t \<Longrightarrow> lib_reads lib \<Longrightarrow> free t p \<Longrightarrow> length ip = 4 \<Longrightarrow> length (restore_line ip b ss) \<le> MAX_WRITE \<Longrightarrow>
      \<exists>t'. put lib jiffies (Some (p, old)) (CHR 0x00 # rest) True (restore_line ip b ss) 0 t =
          Done (Inr (length (restore_line ip b ss)), t') \<and> ok t' \<and> slots t' = slots t \<and>
        contents t' = c_restore (unat (ip_list_tot md)) (slots t) ip b ss (contents t)"
    and rows: "ok t \<Longrightarrow> ipv4_only (contents t) \<Longrightarrow>
      \<exists>rs. rd lib t = Done (map (\<lambda>r. row_text r @ [CHR 0x0A]) rs) \<and> rows_ok rs \<and>
        mset (map (\<lambda>r. (row_ip r, entry_view (row_value u r))) rs) =
        mset (map (\<lambda>c. (cached_ip c, cached_view c)) (contents t))"
begin

text \<open>The daemon reads the table's cache out of the file.\<close>

lemma daemon_reads:
  assumes "ok t" and "ipv4_only (contents t)" and "re2_reads_rows pm"
    and "rd lib t = Done (map (\<lambda>l. l @ [CHR 0x0A]) (files (xt_recent_dir @ n)))"
  shows "\<exists>table. get_table pm u files n = Inr table \<and> entries_ok (entries table) \<and> table_name table = n \<and>
    (\<forall>k. mget (mmap entry_view (entries table)) k = map_of (map (\<lambda>c. (cached_ip c, cached_view c)) (contents t)) k)"
proof -
  from rows [OF assms(1,2), of lib u] obtain rs where
    rs: "rd lib t = Done (map (\<lambda>r. row_text r @ [CHR 0x0A]) rs)" "rows_ok rs"
      "mset (map (\<lambda>r. (row_ip r, entry_view (row_value u r))) rs) =
       mset (map (\<lambda>c. (cached_ip c, cached_view c)) (contents t))" by blast
  have "map (\<lambda>l. l @ [CHR 0x0A]) (files (xt_recent_dir @ n)) = map (\<lambda>l. l @ [CHR 0x0A]) (map row_text rs)"
    using assms(4) rs(1) by (simp add: comp_def)
  then have f: "files (xt_recent_dir @ n) = map row_text rs"
    by (rule map_injective) (simp add: inj_on_def)
  note gt = get_table_rows [where u = u and rows = rs and files = files and n = n, OF assms(3) rs(2) f]
  have d: "distinct (map cached_ip (contents t))" using keys [OF assms(1)] assms(2) by (rule cached_ips_distinct)
  have "mset (map row_ip rs) = mset (map cached_ip (contents t))"
    using arg_cong [OF rs(3), of "image_mset fst"] by (simp flip: mset_map add: comp_def)
  with d have dr: "distinct (map row_ip rs)" by (metis mset_eq_imp_distinct_iff)
  have "map_of (map (\<lambda>r. (row_ip r, entry_view (row_value u r))) rs) =
      map_of (map (\<lambda>c. (cached_ip c, cached_view c)) (contents t))"
    using d dr arg_cong [OF rs(3), of set_mset] by (subst map_of_inject_set) (simp_all add: comp_def)
  then have "mget (mmap entry_view (rows_entries u rs [])) k =
      map_of (map (\<lambda>c. (cached_ip c, cached_view c)) (contents t)) k" for k
    unfolding mget_rows_entries [OF dr] by (rule fun_cong)
  moreover have "entries_ok (rows_entries u rs [])" by (rule rows_entries_ok) simp
  ultimately show ?thesis using gt by simp
qed

text \<open>The flush and the lines of a table, as \<open>write_recent_all\<close> orders them.\<close>

lemma write_entries:
  assumes "lib_reads lib" and "\<forall>t. ok t \<longrightarrow> free t (fst (kmalloc t))"
    and "ok t" and "contents t = map restored pre" and "distinct (map fst (pre @ es))"
    and "\<forall>ke \<in> set (pre @ es). restorable (slots t) ke" and "length (pre @ es) \<le> unat (ip_list_tot md)"
  shows "\<exists>t'. write_lines (\<lambda>t line. put lib jiffies (Some (kmalloc t)) (CHR 0x00 # rest) True line 0 t) t
      (map (\<lambda>(k, e). entry_update k e) es) = Done t' \<and>
    ok t' \<and> slots t' = slots t \<and> contents t' = map restored (pre @ es)"
  using assms(3-7)
proof (induction es arbitrary: t pre)
  case (Cons ke es)
  obtain k e where ke: "ke = (k, e)" by force
  have good: "restorable (slots t) (k, e)" using Cons.prems(4) ke by auto
  note line = restorable_line [OF good]
  obtain p old where mem: "kmalloc t = (p, old)" by force
  have "free t p" using assms(2) Cons.prems(1) mem by (metis fst_conv)
  moreover have "length (quad k) = 4" using good is_ipv4_quad [of k] by (simp add: restorable_def)
  moreover have "length (restore_line (quad k) (ucast (get_ttl e)) (sort (timestamps e))) \<le> MAX_WRITE"
    using good line by (simp add: restorable_def)
  ultimately obtain t1 where
    t1: "put lib jiffies (Some (p, old)) (CHR 0x00 # rest) True (entry_update k e) 0 t =
        Done (Inr (length (entry_update k e)), t1)" "ok t1" "slots t1 = slots t"
      "contents t1 = c_restore (unat (ip_list_tot md)) (slots t) (quad k) (ucast (get_ttl e))
        (sort (timestamps e)) (map restored pre)"
    using restore [OF Cons.prems(1) assms(1)] unfolding line Cons.prems(2) by blast
  have "\<forall>ke \<in> set pre. restorable (slots t) ke \<and> fst ke \<noteq> k" using Cons.prems(3,4) by (auto simp: ke)
  then have "contents t1 = map restored (pre @ [ke])"
    unfolding t1(4) ke by (rule restore_appends [OF good]) (use Cons.prems(5) in simp)
  with Cons.prems(3-5) t1(2,3) have "\<exists>t'. write_lines (\<lambda>t line. put lib jiffies (Some (kmalloc t)) (CHR 0x00 # rest) True line 0 t)
      t1 (map (\<lambda>(k, e). entry_update k e) es) = Done t' \<and>
    ok t' \<and> slots t' = slots t1 \<and> contents t' = map restored ((pre @ [ke]) @ es)"
    by (intro Cons.IH) auto
  with t1(1,3) show ?case by (simp add: ke mem)
qed simp

lemma write_table:
  assumes "lib_reads lib" and "\<forall>t. ok t \<longrightarrow> free t (fst (kmalloc t))" and "ok t"
    and "entries table \<noteq> []" and "omap_ok (entries table)"
    and "\<forall>ke \<in> set (entries table). restorable (slots t) ke" and "length (entries table) \<le> unat (ip_list_tot md)"
  shows "\<exists>t'. write_lines (\<lambda>t line. put lib jiffies (Some (kmalloc t)) (CHR 0x00 # rest) True line 0 t) t
      (map snd (table_writes (n, table))) = Done t' \<and>
    ok t' \<and> slots t' = slots t \<and> contents t' = map restored (entries table)"
proof -
  from flush [OF assms(3), of lib jiffies "Some (kmalloc t)" "CHR 0x00 # rest"] obtain t1 where
    t1: "put lib jiffies (Some (kmalloc t)) (CHR 0x00 # rest) True ''/'' 0 t = Done (Inr 1, t1)"
      "ok t1" "slots t1 = slots t" "contents t1 = []" by blast
  have d: "distinct (map fst ([] @ entries table))" using om.distinct_items [OF assms(5)] by simp
  from write_entries [where pre = "[]" and jiffies = jiffies and rest = rest, OF assms(1,2) t1(2) _ d] t1(3,4) assms(6,7)
  obtain t' where "write_lines (\<lambda>t line. put lib jiffies (Some (kmalloc t)) (CHR 0x00 # rest) True line 0 t) t1
      (map (\<lambda>(k, e). entry_update k e) (entries table)) = Done t'"
    "ok t'" "slots t' = slots t1" "contents t' = map restored (entries table)" by auto
  moreover have "map snd (table_writes (n, table)) = ''/'' # map (\<lambda>(k, e). entry_update k e) (entries table)"
    using assms(4) by (simp add: table_writes_def comp_def case_prod_beta)
  ultimately show ?thesis using t1(1,3) by simp
qed

text \<open>What was written is read again.\<close>

lemma failover:
  assumes "lib_reads lib" and "\<forall>t. ok t \<longrightarrow> free t (fst (kmalloc t))" and "ok t"
    and "entries table \<noteq> []" and "omap_ok (entries table)"
    and "\<forall>ke \<in> set (entries table). restorable (slots t) ke" and "length (entries table) \<le> unat (ip_list_tot md)"
    and "re2_reads_rows pm"
  shows "\<exists>t' rows. write_lines (\<lambda>t line. put lib jiffies (Some (kmalloc t)) (CHR 0x00 # rest) True line 0 t) t
      (map snd (table_writes (n, table))) = Done t' \<and>
    rd lib t' = Done (map (\<lambda>l. l @ [CHR 0x0A]) rows) \<and>
    (\<forall>files. files (xt_recent_dir @ n) = rows \<longrightarrow>
      (\<exists>table'. get_table pm u files n = Inr table' \<and>
        mmap entry_view (entries table') = mmap entry_view (entries table)))"
proof -
  from write_table [OF assms(1-7)] obtain t' where
    t': "write_lines (\<lambda>t line. put lib jiffies (Some (kmalloc t)) (CHR 0x00 # rest) True line 0 t) t
        (map snd (table_writes (n, table))) = Done t'"
      "ok t'" "contents t' = map restored (entries table)" by blast
  have v4: "ipv4_only (contents t')" unfolding t'(3) using assms(6) by (rule restored_ipv4)
  from rows [OF t'(2) v4, of lib u] obtain rs where
    "rd lib t' = Done (map (\<lambda>r. row_text r @ [CHR 0x0A]) rs)" by blast
  then have rd: "rd lib t' = Done (map (\<lambda>l. l @ [CHR 0x0A]) (map row_text rs))" by (simp add: comp_def)
  have "\<exists>table'. get_table pm u files n = Inr table' \<and> mmap entry_view (entries table') = mmap entry_view (entries table)"
    if "files (xt_recent_dir @ n) = map row_text rs" for files
  proof -
    from daemon_reads [OF t'(2) v4 assms(8), of lib files n u] rd that obtain table' where
      tab: "get_table pm u files n = Inr table'" "entries_ok (entries table')"
        "\<And>k. mget (mmap entry_view (entries table')) k = map_of (map (\<lambda>c. (cached_ip c, cached_view c)) (contents t')) k"
      by auto
    have "mmap entry_view (entries table') = mmap entry_view (entries table)"
    proof (rule omap_ext)
      show "mget (mmap entry_view (entries table')) k = mget (mmap entry_view (entries table)) k" for k
        unfolding tab(3) t'(3) restored_views [OF assms(6)] by (simp add: mget_def)
    qed (use tab(2) assms(5) in \<open>simp_all add: entries_ok_def\<close>)
    with tab(1) show ?thesis by blast
  qed
  with t'(1) rd show ?thesis by blast
qed

end

end
