(* ===== verification/Recent_Net.thy ===== *)
theory Recent_Net
  imports Recent_Restore
begin

text \<open>
  The kernel module as a whole: the rules of the firewall and the tables they name, with every event
  that changes them. The step relation has one rule per entry point of
  \<open>kmodule/xt_recent-4.9.13.c\<close>; what the kernel around the module guarantees is in the premises: a
  packet is matched against a rule that was checked, a rule is destroyed once, new memory is unused.
\<close>

section \<open>The module's parameters\<close>

definition loaded :: "recent_module \<Rightarrow> bool" where
  "loaded md \<longleftrightarrow> module_ok md \<and> ip_pkt_list_tot md < XT_RECENT_MAX_NSTAMPS"

lemma fls_bound: "n < 2 ^ fls n"
proof (induction n rule: fls.induct)
  case (1 n)
  then show ?case by (cases "n = 0") (auto simp: fls.simps [of n])
qed

lemma mt_init_loaded:
  assumes "recent_mt_init md = Done (Inr md')"
  shows "loaded md'" and "unat (ip_list_tot md') < unat (ip_list_hash_size md')"
proof -
  let ?k = "fls (unat (ip_list_tot md))"
  from assms have md': "md' = md\<lparr>ip_list_hash_size := push_bit ?k 1\<rparr>" "?k < 32" "ip_list_tot md \<noteq> 0"
    "ip_pkt_list_tot md < XT_RECENT_MAX_NSTAMPS"
    by (auto simp: recent_mt_init_def not_le split: if_splits)
  have p: "push_bit ?k 1 = (2 ^ ?k :: u32)" by (simp add: push_bit_eq_mult)
  show "loaded md'" using md' p by (auto simp: loaded_def module_ok_def word_gt_0)
  have "(2 ^ ?k :: u32) = word_of_nat (2 ^ ?k)" by simp
  then have "unat (2 ^ ?k :: u32) = take_bit 32 (2 ^ ?k)" by (simp only: unsigned_of_nat) simp
  then have "unat (2 ^ ?k :: u32) = 2 ^ ?k" using md'(2) by (simp add: take_bit_nat_eq_self)
  then show "unat (ip_list_tot md') < unat (ip_list_hash_size md')"
    using fls_bound [of "unat (ip_list_tot md)"] md'(1) p by simp
qed

lemma roundup_pow: "\<exists>k. roundup_pow_of_two n = 2 ^ k"
proof (induction n rule: roundup_pow_of_two.induct)
  case (1 n)
  show ?case
  proof (cases "n \<le> 1")
    case True
    then show ?thesis by (intro exI [of _ 0]) (simp add: roundup_pow_of_two.simps)
  next
    case False
    with 1 obtain k where "roundup_pow_of_two ((n + 1) div 2) = 2 ^ k" by blast
    with False show ?thesis by (intro exI [of _ "Suc k"]) (simp add: roundup_pow_of_two.simps [of n])
  qed
qed

lemma roundup_le: "n \<le> 2 ^ j \<Longrightarrow> roundup_pow_of_two n \<le> 2 ^ j"
proof (induction n arbitrary: j rule: roundup_pow_of_two.induct)
  case (1 n)
  show ?case
  proof (cases "n \<le> 1")
    case True
    then show ?thesis by (simp add: roundup_pow_of_two.simps)
  next
    case False
    then obtain i where j: "j = Suc i" using "1.prems" by (cases j) auto
    have "(n + 1) div 2 \<le> 2 ^ i" using "1.prems" j by simp
    with "1.IH" [OF False] False j show ?thesis by (simp add: roundup_pow_of_two.simps [of n])
  qed
qed

lemma nstamp_mask_form:
  assumes "loaded md" and "\<not> check_rejects info"
  shows "\<exists>k \<le> 8. nstamp_mask_of md info = 2 ^ k - 1"
proof -
  have pow: "\<exists>k \<le> 8. roundup_pow_of_two n - 1 = 2 ^ k - 1" if "n \<le> 256" for n
  proof -
    obtain k where k: "roundup_pow_of_two n = 2 ^ k" using roundup_pow by blast
    with roundup_le [of n 8] that have "(2::nat) ^ k \<le> 2 ^ 8" by simp
    then have "k \<le> 8" using power_increasing_iff [of "2::nat" k 8] by simp
    with k show ?thesis by auto
  qed
  have "i_hit_count info < 256" "ip_pkt_list_tot md < 256"
    using assms by (auto simp: check_rejects_def loaded_def Let_def XT_RECENT_MAX_NSTAMPS_def not_le)
  then have "unat (i_hit_count info) \<le> 256" "unat (ip_pkt_list_tot md) \<le> 256"
    by (simp_all add: word_less_nat_alt)
  moreover have "\<exists>k \<le> 8. (32 - 1 :: nat) = 2 ^ k - 1" by (intro exI [of _ 5]) simp
  ultimately show ?thesis unfolding nstamp_mask_of_def using pow by auto
qed

lemma mask_byte: "(word_of_nat (2 ^ k - 1) :: byte) = mask k"
  unfolding mask_eq_exp_minus_1 [where 'a = nat, symmetric] by (rule of_nat_mask_eq)

section \<open>The invariant of a table\<close>

text \<open>A mask of 255 lets the index of a ring wrap to 0; such a table is a well-formed hash table, but its
  rings lose their order. With every smaller mask the table is a cache.\<close>

definition table_inv :: "recent_module \<Rightarrow> recent_table \<Rightarrow> bool" where
  "table_inv md t \<longleftrightarrow> table_ok md t \<and> (nstamps_max_mask t \<noteq> 255 \<longrightarrow> cache_ok md t)"

lemma table_invI: "table_ok md t \<Longrightarrow> (nstamps_max_mask t \<noteq> 255 \<Longrightarrow> cache_ok md t) \<Longrightarrow> table_inv md t"
  by (simp add: table_inv_def)

lemma table_inv_rel:
  assumes "table_inv md t"
  obtains ps where "table_rel md t ps"
  using assms by (auto simp: table_inv_def table_ok_def)

lemma inv_remove:
  assumes "table_inv md t" and "table_rel md t ps" and "p \<in> set ps"
  shows "recent_entry_remove t p = Done (removed t p)" and "table_inv md (removed t p)"
proof -
  show "recent_entry_remove t p = Done (removed t p)" by (rule remove_plain(1) [OF assms(2,3)])
  show "table_inv md (removed t p)"
    using assms(1) remove_plain(2) [OF assms(2,3)] cache_removed(2) [OF _ assms(2,3)]
    by (auto simp: table_inv_def table_ok_def)
qed

lemma inv_update:
  assumes "table_inv md t" and "k_heap t p = Some e"
  shows "\<exists>t' e'. recent_entry_update jiffies t p ns = Done t' \<and> table_inv md t' \<and> same_table t t' \<and>
    k_heap t' p = Some e'"
proof -
  obtain ps where ps: "table_rel md t ps" using table_inv_rel [OF assms(1)] .
  note u = update_plain(1) [OF ps assms(2), of jiffies ns] update_plain(2) [OF ps assms(2)]
  show ?thesis
  proof (cases "nstamps_max_mask t = 255")
    case True
    with u show ?thesis by (auto simp: table_inv_def table_ok_def)
  next
    case False
    then have "cache_ok md t" using assms(1) by (simp add: table_inv_def)
    from cache_update [OF this assms(2), of jiffies ns] show ?thesis
      by (fastforce simp: table_inv_def cache_fits_def Let_def)
  qed
qed

lemma inv_evict:
  assumes "table_inv md t" and "module_ok md"
  shows "table_inv md (init_evicted md t)"
proof -
  obtain ps where ps: "table_rel md t ps" using table_inv_rel [OF assms(1)] .
  from evict_plain(2) [OF ps assms(2)] have "table_ok md (init_evicted md t)" by (auto simp: table_ok_def)
  with assms(1) cache_evict(2) [OF _ ps assms(2)] show ?thesis
    by (auto simp: table_inv_def init_evicted_def)
qed

lemma plain_lookup_cache:
  "cache_ok md t \<Longrightarrow> table_rel md t ps \<Longrightarrow> plain_lookup t ps a family ttl = None \<Longrightarrow>
   c_lookup a family ttl (cache t) = None"
  by (simp add: cache_lookup)

lemma inv_init:
  assumes "table_inv md t" and "table_rel md t ps" and "module_ok md" and "p \<notin> set ps"
    and "plain_lookup t ps a family 0 = None"
  shows "table_inv md (inited md (init_evicted md t) p (new_entry t a family ttl old s))"
proof (rule table_invI)
  show "table_ok md (inited md (init_evicted md t) p (new_entry t a family ttl old s))"
    using inited_after_evict [OF assms(2-4) new_entry_ok] unfolding table_ok_def by blast
next
  assume "nstamps_max_mask (inited md (init_evicted md t) p (new_entry t a family ttl old s)) \<noteq> 255"
  then have c: "cache_ok md t" using assms(1) by (simp add: table_inv_def init_evicted_def split: if_splits)
  show "cache_ok md (inited md (init_evicted md t) p (new_entry t a family ttl old s))"
    by (rule cache_init(2) [OF c assms(2-4) plain_lookup_cache [OF c assms(2,5)]])
qed

text \<open>An insertion, whatever \<open>kmalloc\<close> answers.\<close>

definition fresh_mem :: "(ptr \<times> (nat \<Rightarrow> u64)) option \<Rightarrow> recent_table \<Rightarrow> bool" where
  "fresh_mem mem t \<longleftrightarrow> (\<forall>p old. mem = Some (p, old) \<longrightarrow> k_heap t p = None)"

lemma fresh_memD: "fresh_mem (Some (p, old)) t \<Longrightarrow> k_heap t p = None"
  by (simp add: fresh_mem_def)

lemma inv_insert:
  assumes "table_inv md t" and "table_rel md t ps" and "module_ok md"
    and "fresh_mem mem t" and "plain_lookup t ps a family 0 = None"
  shows "\<exists>e t'. recent_entry_init md jiffies mem t a family ttl first = Done (e, t') \<and> table_inv md t' \<and>
    same_table t t' \<and> (\<forall>p. e = Some p \<longrightarrow> k_heap t' p \<noteq> None)"
proof (cases mem)
  case None
  with init_plain(1) [OF assms(2,3)] inv_evict [OF assms(1,3)] show ?thesis by simp
next
  case (Some m)
  obtain p old where m: "m = (p, old)" by force
  have p: "p \<notin> set ps" using assms(4) Some m table_relD(5) [OF assms(2)] by (auto dest: fresh_memD)
  show ?thesis
    using Some m init_plain(2) [OF assms(2,3)] inv_init [OF assms(1-3) p assms(5)]
      same_table_trans [OF same_table_ops(4) same_table_ops(2)] by auto
qed

lemma inv_flush:
  assumes "table_inv md t" and "module_ok md"
  shows "\<exists>t'. recent_table_flush md t = Done t' \<and> table_rel md t' [] \<and> table_inv md t' \<and> same_table t t'"
proof -
  obtain ps where ps: "table_rel md t ps" using table_inv_rel [OF assms(1)] .
  from flush_plain [OF ps assms(2)] obtain t' where
    t': "recent_table_flush md t = Done t'" "table_rel md t' []" "same_table t t'" .
  with table_rel_empty [OF t'(2)] assms(1) show ?thesis
    by (auto simp: table_inv_def cache_fits_def table_ok_def same_table_def)
qed

lemma table_inv_refcnt [simp]: "table_inv md (t\<lparr>k_refcnt := r\<rparr>) = table_inv md t"
  by (simp add: table_inv_def table_ok_def cache_fits_def table_rel_def bucket_at_def at_def)

section \<open>The events keep the tables well formed\<close>

lemma run_bind_eq_Done:
  "run_bind r f = Done y \<longleftrightarrow> (\<exists>x. r = Done x \<and> f x = Done y)"
  by (cases r) auto

lemma seen_ok:
  assumes "table_rel md t ps" and "k_heap t p = Some e"
  shows "table_ok md (seen jiffies ttl t p e) \<and> same_table t (seen jiffies ttl t p e)"
proof
  show "table_ok md (seen jiffies ttl t p e)" unfolding table_ok_def using seen_plain(2) [OF assms] by blast
  show "same_table t (seen jiffies ttl t p e)" by (simp add: seen_def)
qed

lemma seen_done:
  assumes "table_rel md t ps"
    and "run_bind (recent_entry_update jiffies t p None) (\<lambda>t. run_bind (deref t p) (\<lambda>e.
      Done (ret, t\<lparr>k_heap := (k_heap t)(p \<mapsto> e\<lparr>k_ttl := ttl\<rparr>)\<rparr>))) = Done (ret', t')"
  shows "table_ok md t' \<and> same_table t t'"
proof (cases "k_heap t p")
  case None
  with assms(2) show ?thesis by (simp add: recent_entry_update_def deref_def)
next
  case (Some e)
  have "t' = seen jiffies ttl t p e"
    using assms(2) unfolding seen_plain(1) [OF assms(1) Some] by simp
  with seen_ok [OF assms(1) Some] show ?thesis by simp
qed

lemma reap_done:
  assumes "table_rel md t ps" and "recent_entry_reap t time = Done t'"
  shows "table_ok md t' \<and> same_table t t'"
proof -
  from assms(2) obtain p ls where l: "lru_list t = p # ls" "t' = t \<or> recent_entry_remove t p = Done t'"
    by (auto simp: recent_entry_reap_def run_bind_eq_Done split: list.splits if_splits)
  then have "p \<in> set ps" using table_relD(4) [OF assms(1)] by auto
  with remove_plain [OF assms(1) this] l(2) assms(1) show ?thesis by (auto simp: table_ok_def)
qed

lemma match_found_done:
  assumes "table_rel md t ps" and "k_heap t p = Some e" and "\<not> check_rejects info"
    and "match_found HZ jiffies info ttl t p = Done (ret, t')"
  shows "table_ok md t' \<and> same_table t t'"
proof -
  note f = match_found_plain [OF assms(1,2)]
  have p: "p \<in> set ps" using assms(2) table_relD(5) [OF assms(1)] by auto
  have ok: "entry_ok (nstamps_max_mask t) e" using table_relD(7) [OF assms(1,2)] .
  have check_update: "table_ok md t' \<and> same_table t t'"
    if "XT_RECENT_SET \<notin> set (i_check_set info)" "XT_RECENT_REMOVE \<notin> set (i_check_set info)"
      "XT_RECENT_CHECK \<in> set (i_check_set info) \<or> XT_RECENT_UPDATE \<in> set (i_check_set info)"
  proof -
    from assms(4) that obtain ret1 t1 where
      t1: "t1 = t \<or> recent_entry_reap t (match_time HZ jiffies info) = Done t1"
        "Done (ret1, t1) = Done (ret, t') \<or>
         run_bind (recent_entry_update jiffies t1 p None) (\<lambda>t. run_bind (deref t p) (\<lambda>e.
           Done (ret1, t\<lparr>k_heap := (k_heap t)(p \<mapsto> e\<lparr>k_ttl := ttl\<rparr>)\<rparr>))) = Done (ret, t')"
      by (auto simp: match_found_def Let_def deref_Some [OF assms(2)] hit_loop_rule [OF ok] run_bind_eq_Done
          split: if_splits)
    from t1(1) reap_done [OF assms(1)] assms(1) have s: "table_ok md t1" "same_table t t1"
      by (auto simp: table_ok_def)
    then obtain ps1 where ps1: "table_rel md t1 ps1" by (auto simp: table_ok_def)
    from t1(2) show ?thesis
    proof
      assume "Done (ret1, t1) = Done (ret, t')"
      with s show ?thesis by simp
    next
      assume "run_bind (recent_entry_update jiffies t1 p None) (\<lambda>t. run_bind (deref t p) (\<lambda>e.
          Done (ret1, t\<lparr>k_heap := (k_heap t)(p \<mapsto> e\<lparr>k_ttl := ttl\<rparr>)\<rparr>))) = Done (ret, t')"
      from seen_done [OF ps1 this] s(2) show ?thesis by (auto dest: same_table_trans)
    qed
  qed
  show ?thesis
    using assms(3)
  proof (cases rule: accepted_flags)
    case set
    with f(1) seen_ok [OF assms(1,2)] assms(4) show ?thesis by auto
  next
    case remove
    with f(2) remove_plain(2) [OF assms(1) p] assms(4) show ?thesis by (auto simp: table_ok_def)
  next
    case check
    with check_update show ?thesis by blast
  next
    case update
    with check_update show ?thesis by blast
  qed
qed

lemma match_table_done:
  assumes "table_rel md t ps" and "module_ok md" and "\<not> check_rejects info"
    and "fresh_mem mem t"
    and "match_table md HZ jiffies mem family info skb t = Done (ret, hot, t')"
  shows "table_ok md t' \<and> same_table t t'"
proof -
  let ?k = "match_key family info skb t"
  note mt = match_table_plain [OF assms(1,2), of HZ jiffies mem family info skb]
  show ?thesis
  proof (cases "plain_lookup t ps ?k family (key_ttl info skb)")
    case (Some p)
    then obtain e where "k_heap t p = Some e" using plain_lookup_Some by blast
    with match_found_done [OF assms(1) this assms(3)] assms(5) Some show ?thesis
      by (auto simp: mt run_bind_eq_Done)
  next
    case None
    have "table_ok md (init_evicted md t)"
      using evict_plain(2) [OF assms(1,2)] by (auto simp: table_ok_def)
    moreover have "table_ok md (inited md (init_evicted md t) p (new_entry t ?k family ttl old s)) \<and>
        same_table t (inited md (init_evicted md t) p (new_entry t ?k family ttl old s))"
      if "mem = Some (p, old)" for p old ttl s
    proof -
      have "p \<notin> set ps" using assms(4) that table_relD(5) [OF assms(1)] by (auto dest: fresh_memD)
      from inited_after_evict [OF assms(1,2) this new_entry_ok] show ?thesis
        using same_table_trans [OF same_table_ops(4) same_table_ops(2)] unfolding table_ok_def by blast
    qed
    ultimately show ?thesis
      using None assms(1,5) by (auto simp: mt table_ok_def split: if_splits option.splits)
  qed
qed

lemma match_table_inv:
  assumes "table_inv md t" and "module_ok md" and "\<not> check_rejects info"
    and "fresh_mem mem t"
    and "match_table md HZ jiffies mem family info skb t = Done (ret, hot, t')"
  shows "table_inv md t' \<and> same_table t t'"
proof -
  obtain ps where ps: "table_rel md t ps" using table_inv_rel [OF assms(1)] .
  note ok = match_table_done [OF ps assms(2-5)]
  have "cache_ok md t'" if c: "cache_ok md t"
  proof -
    have free: "\<exists>p. k_heap t p = None"
      using table_relD(5) [OF ps] ex_new_if_finite [of "set ps"] by (auto simp: dom_def)
    show ?thesis
    proof (cases mem)
      case (Some m)
      obtain p old where m: "m = (p, old)" by force
      from match_refines_cache [OF c assms(2,3) fresh_memD [OF assms(4) [unfolded Some m]],
          where jiffies = jiffies and HZ = HZ and family = family and skb = skb and old = old] assms(5) Some m
      show ?thesis by (auto split: option.splits)
    next
      case None
      let ?k = "match_key family info skb t"
      note mt = match_table_plain [OF ps assms(2), of HZ jiffies _ family info skb]
      show ?thesis
      proof (cases "plain_lookup t ps ?k family (key_ttl info skb)")
        case look: None
        with None assms(5) c cache_evict(2) [OF c ps assms(2)] show ?thesis
          by (auto simp: mt split: if_splits)
      next
        case (Some q)
        obtain p where "k_heap t p = None" using free by blast
        with match_refines_cache [OF c assms(2,3) this, where jiffies = jiffies and HZ = HZ and family = family
            and skb = skb and old = "\<lambda>_. 0"] Some assms(5) None
        show ?thesis by (auto simp: mt split: option.splits)
      qed
    qed
  qed
  with ok assms(1) show ?thesis by (auto simp: table_inv_def same_table_def)
qed

lemma write_stamps_inv:
  assumes "table_inv md t" and "\<And>p. e = Some p \<Longrightarrow> k_heap t p \<noteq> None"
    and "write_stamps lib jiffies mem n c e t = Done t'"
  shows "table_inv md t' \<and> same_table t t'"
  using assms
proof (induction lib jiffies mem n c e t rule: write_stamps.induct)
  case (1 lib jiffies mem n c e t)
  note run = "1.prems"(3) [unfolded write_stamps.simps [of lib jiffies mem n c e t]]
  show ?case
  proof (cases "strsep_at mem n c")
    case (Done r)
    obtain tok c' where r: "r = (tok, c')" by force
    show ?thesis
    proof (cases tok)
      case None
      with run Done r "1.prems"(1) show ?thesis by simp
    next
      case tok: (Some tok')
      note sep = Done [unfolded r tok]
      show ?thesis
      proof (cases "kstrtoul lib tok'")
        case None
        with run sep "1.prems"(1,2) show ?thesis by (intro "1.IH"(1) [OF sep refl refl None]) simp_all
      next
        case (Some w)
        with run sep obtain p where p: "e = Some p" by (auto split: option.splits)
        with "1.prems"(2) obtain x where x: "k_heap t p = Some x" by blast
        from inv_update [OF "1.prems"(1) x, of jiffies "Some w"] obtain t1 where
          t1: "recent_entry_update jiffies t p (Some w) = Done t1" "table_inv md t1" "same_table t t1"
            "k_heap t1 p \<noteq> None" by blast
        have "table_inv md t' \<and> same_table t1 t'"
          using run sep Some p t1
          by (intro "1.IH"(2) [OF sep refl refl Some p t1(1)]) simp_all
        with t1(3) show ?thesis by (auto dest: same_table_trans)
      qed
    qed
  qed (use run in simp_all)
qed

lemma restore_new_inv:
  assumes "table_inv md t" and "table_rel md t ps" and "module_ok md"
    and "fresh_mem mem_res t" and "plain_lookup t ps a family 0 = None"
    and "restore_new lib md jiffies mem_res mem n c a family t = Done (r, t')"
  shows "table_inv md t' \<and> same_table t t'"
proof -
  have ins: "table_inv md t1 \<and> same_table t t1 \<and> (\<forall>p. e = Some p \<longrightarrow> k_heap t1 p \<noteq> None)"
    if "recent_entry_init md jiffies mem_res t a family ttl s = Done (e, t1)" for ttl s e t1
    using inv_insert [where jiffies = jiffies and ttl = ttl and first = s, OF assms(1-5)] that by auto
  have stamps: "table_inv md t' \<and> same_table t t'"
    if "write_stamps lib jiffies mem n c' e t1 = Done t'" "table_inv md t1" "same_table t t1"
      "\<forall>p. e = Some p \<longrightarrow> k_heap t1 p \<noteq> None" for c' e t1
    using write_stamps_inv [OF that(2) _ that(1)] that(3,4) by (auto dest: same_table_trans)
  from assms(6) obtain tok c1 where t1: "strsep_at mem n c = Done (tok, c1)"
    by (auto simp: restore_new_def run_bind_eq_Done)
  note run = assms(6) [unfolded restore_new_def t1, simplified]
  show ?thesis
  proof (cases "case tok of None \<Rightarrow> Some 0 | Some s \<Rightarrow> kstrtou8 lib s")
    case None
    with run assms(1) show ?thesis by simp
  next
    case (Some ttl)
    note run = run [unfolded Some, simplified]
    then obtain tok2 c2 where t2: "strsep_at mem n c1 = Done (tok2, c2)" by (auto simp: run_bind_eq_Done)
    note run = run [unfolded t2, simplified]
    show ?thesis
    proof (cases "case tok2 of None \<Rightarrow> None | Some s \<Rightarrow> kstrtoul lib s")
      case None
      note run = run [unfolded None, simplified]
      then have "write_stamps lib jiffies mem n c2 None t = Done t'" by (auto simp: run_bind_eq_Done)
      from stamps [OF this assms(1)] show ?thesis by simp
    next
      case (Some w)
      note run = run [unfolded Some, simplified]
      then obtain e t1 where "recent_entry_init md jiffies mem_res t a family ttl (Some w) = Done (e, t1)"
        "write_stamps lib jiffies mem n c2 e t1 = Done t'" by (auto simp: run_bind_eq_Done)
      with ins stamps show ?thesis by blast
    qed
  qed
qed

lemma write_entry_inv:
  assumes "table_inv md t" and "module_ok md"
    and "fresh_mem mem_res t"
    and "write_entry lib md jiffies mem_res cmd mem n c a family t = Done (r, t')"
  shows "table_inv md t' \<and> same_table t t'"
proof -
  obtain ps where ps: "table_rel md t ps" using table_inv_rel [OF assms(1)] .
  note look = lookup_plain [OF ps assms(2)]
  show ?thesis
  proof (cases "plain_lookup t ps a family 0")
    case None
    show ?thesis
    proof (cases cmd)
      case Proc_remove
      with assms(1,4) None show ?thesis by (simp add: write_entry_def look)
    next
      case Proc_add
      from inv_insert [where jiffies = jiffies and ttl = 0 and first = None, OF assms(1) ps assms(2,3) None] obtain e t1 where
        "recent_entry_init md jiffies mem_res t a family 0 None = Done (e, t1)" "table_inv md t1" "same_table t t1"
        by blast
      with Proc_add assms(4) None show ?thesis by (simp add: write_entry_def look)
    next
      case Proc_restore
      with assms(4) None have "restore_new lib md jiffies mem_res mem n c a family t = Done (r, t')"
        by (simp add: write_entry_def look)
      from restore_new_inv [OF assms(1) ps assms(2,3) None this] show ?thesis .
    qed
  next
    case (Some p)
    then obtain e where e: "k_heap t p = Some e" and p: "p \<in> set ps" using plain_lookup_Some by blast
    show ?thesis
    proof (cases cmd)
      case Proc_remove
      with assms(4) Some inv_remove [OF assms(1) ps p] show ?thesis by (auto simp: write_entry_def look)
    next
      case Proc_add
      from inv_update [OF assms(1) e, of jiffies None] obtain t1 where
        "recent_entry_update jiffies t p None = Done t1" "table_inv md t1" "same_table t t1" by blast
      with Proc_add assms(4) Some show ?thesis by (simp add: write_entry_def look)
    next
      case Proc_restore
      with assms(4) Some obtain c' where "write_stamps lib jiffies mem n c' (Some p) t = Done t'"
        by (auto simp: write_entry_def look run_bind_eq_Done)
      from write_stamps_inv [OF assms(1) _ this] e show ?thesis by simp
    qed
  qed
qed

lemma proc_write_inv:
  assumes "table_inv md t" and "module_ok md"
    and "fresh_mem mem_res t"
    and "recent_mt_proc_write lib md jiffies mem_res stack copy_ok input loff t = Done (r, t')"
  shows "table_inv md t' \<and> same_table t t'"
proof -
  have we: "table_inv md t1 \<and> same_table t t1"
    if "write_entry lib md jiffies mem_res cmd mem n c a family t = Done (r1, t1)" for cmd mem n c a family r1 t1
    using write_entry_inv [OF assms(1-3) that] .
  obtain t1 where t1: "recent_table_flush md t = Done t1" "table_inv md t1" "same_table t t1"
    using inv_flush [OF assms(1,2)] by blast
  show ?thesis
    using assms(1,4) t1
    by (auto simp: recent_mt_proc_write_def Let_def run_bind_eq_Done split: if_splits option.splits dest!: we)
qed

section \<open>The events of the module\<close>

record kernel =
  installed :: "xt_recent_mtinfo list"
  recents :: "recent_table recent_net"

definition users :: "kernel \<Rightarrow> string \<Rightarrow> nat" where
  "users s n = length (filter (\<lambda>i. i_name i = n) (installed s))"

inductive kernel_step :: "kernel_lib \<Rightarrow> recent_module \<Rightarrow> kernel \<Rightarrow> kernel \<Rightarrow> bool" for lib md where
  rule_added: "recent_mt_check md mem_ok ids_ok proc_ok info (recents s) = Done (Inr (), n) \<Longrightarrow>
    length (installed s) + 1 < 2 ^ 32 \<Longrightarrow>
    kernel_step lib md s \<lparr>installed = info # installed s, recents = n\<rparr>"
| rule_refused: "recent_mt_check md mem_ok ids_ok proc_ok info (recents s) = Done (Inl err, n) \<Longrightarrow>
    kernel_step lib md s (s\<lparr>recents := n\<rparr>)"
| rule_removed: "info \<in> set (installed s) \<Longrightarrow> recent_mt_destroy md info (recents s) = Done n \<Longrightarrow>
    kernel_step lib md s \<lparr>installed = remove1 info (installed s), recents = n\<rparr>"
| packet: "info \<in> set (installed s) \<Longrightarrow> \<forall>t \<in> set (tables (recents s)). fresh_mem mem t \<Longrightarrow>
    recent_mt md HZ jiffies mem family info skb (recents s) = Done (ret, hotdrop, n) \<Longrightarrow>
    kernel_step lib md s (s\<lparr>recents := n\<rparr>)"
| written: "t \<in> set (tables (recents s)) \<Longrightarrow> fresh_mem mem t \<Longrightarrow>
    proc_files (recents s) = Some files \<Longrightarrow> k_name t \<in> set files \<Longrightarrow>
    recent_mt_proc_write lib md jiffies mem stack copy_ok input loff t = Done (r, t') \<Longrightarrow>
    kernel_step lib md s (s\<lparr>recents := set_table t' (recents s)\<rparr>)"
| net_exit: "kernel_step lib md s (s\<lparr>recents := recent_net_exit (recents s)\<rparr>)"

inductive kernel_reachable :: "kernel_lib \<Rightarrow> recent_module \<Rightarrow> kernel \<Rightarrow> bool" for lib md where
  start: "recent_net_init True = Inr n \<Longrightarrow> kernel_reachable lib md \<lparr>installed = [], recents = n\<rparr>"
| step: "kernel_reachable lib md s \<Longrightarrow> kernel_step lib md s s' \<Longrightarrow> kernel_reachable lib md s'"

text \<open>Every table is well formed, is used by as many rules as it counts, and by at least one; every rule
  finds its table.\<close>

definition kernel_inv :: "recent_module \<Rightarrow> kernel \<Rightarrow> bool" where
  "kernel_inv md s \<longleftrightarrow> distinct (map k_name (tables (recents s))) \<and>
     (\<forall>t \<in> set (tables (recents s)). table_inv md t \<and> unat (k_refcnt t) = users s (k_name t) \<and>
        0 < users s (k_name t)) \<and>
     (\<forall>i \<in> set (installed s). \<not> check_rejects i \<and> i_name i \<in> k_name ` set (tables (recents s))) \<and>
     length (installed s) < 2 ^ 32"

lemma kernel_invD:
  assumes "kernel_inv md s"
  shows "distinct (map k_name (tables (recents s)))"
    "t \<in> set (tables (recents s)) \<Longrightarrow> table_inv md t \<and> unat (k_refcnt t) = users s (k_name t) \<and> 0 < users s (k_name t)"
    "i \<in> set (installed s) \<Longrightarrow> \<not> check_rejects i \<and> i_name i \<in> k_name ` set (tables (recents s))"
    "length (installed s) < 2 ^ 32"
  using assms by (auto simp: kernel_inv_def)

lemma table_lookup_Some:
  assumes "recent_table_lookup ts n = Some t"
  shows "t \<in> set ts" "k_name t = n"
  using assms by (auto simp: recent_table_lookup_def find_Some_iff)

lemma table_lookup_None: "recent_table_lookup ts n = None \<Longrightarrow> n \<notin> k_name ` set ts"
  by (auto simp: recent_table_lookup_def find_None_iff)

lemma same_name: "distinct (map k_name ts) \<Longrightarrow> x \<in> set ts \<Longrightarrow> y \<in> set ts \<Longrightarrow> k_name x = k_name y \<Longrightarrow> x = y"
  by (auto simp: distinct_map inj_on_def)

lemma set_table_tables:
  assumes "distinct (map k_name (tables n))" and "t \<in> set (tables n)" and "k_name t' = k_name t"
  shows "set (tables (set_table t' n)) = insert t' (set (tables n) - {t})"
    and "map k_name (tables (set_table t' n)) = map k_name (tables n)"
proof -
  have "x = t" if "x \<in> set (tables n)" "k_name x = k_name t" for x
    using assms(1,2) that by (auto simp: distinct_map dest: inj_onD)
  then show "set (tables (set_table t' n)) = insert t' (set (tables n) - {t})"
    using assms(2,3) by (auto simp: set_table_def image_iff)
  show "map k_name (tables (set_table t' n)) = map k_name (tables n)"
    using assms(3) by (auto simp: set_table_def)
qed

lemma users_bound: "users s n \<le> length (installed s)"
  by (simp add: users_def)

text \<open>An event that changes one table, and the rules that use it.\<close>

lemma inv_change:
  assumes "kernel_inv md s" and "t \<in> set (tables (recents s))" and "table_inv md t'" and "k_name t' = k_name t"
    and "recents s' = set_table t' (recents s)"
    and "unat (k_refcnt t') = users s' (k_name t)" and "0 < users s' (k_name t)"
    and "\<And>m. m \<noteq> k_name t \<Longrightarrow> users s' m = users s m"
    and "\<And>i. i \<in> set (installed s') \<Longrightarrow> i \<in> set (installed s) \<or> \<not> check_rejects i \<and> i_name i = k_name t"
    and "length (installed s') < 2 ^ 32"
  shows "kernel_inv md s'"
proof -
  note inv = kernel_invD [OF assms(1)]
  note st = set_table_tables [OF inv(1) assms(2,4)]
  have names: "k_name ` set (tables (recents s')) = k_name ` set (tables (recents s))"
    using arg_cong [OF st(2), of set] by (simp add: assms(5))
  have "table_inv md x \<and> unat (k_refcnt x) = users s' (k_name x) \<and> 0 < users s' (k_name x)"
    if x: "x \<in> set (tables (recents s'))" for x
  proof (cases "x = t'")
    case True
    with assms(3,4,6,7) show ?thesis by simp
  next
    case False
    with x have x: "x \<in> set (tables (recents s))" "x \<noteq> t" by (auto simp: assms(5) st(1))
    then have "k_name x \<noteq> k_name t" using same_name [OF inv(1) _ assms(2)] by blast
    with assms(8) inv(2) [OF x(1)] show ?thesis by simp
  qed
  moreover have "\<not> check_rejects i \<and> i_name i \<in> k_name ` set (tables (recents s'))"
    if "i \<in> set (installed s')" for i
    using assms(9) [OF that] inv(3) [of i] assms(2) unfolding names by auto
  ultimately show ?thesis
    using inv(1) assms(10) unfolding kernel_inv_def by (simp add: assms(5) st(2))
qed

lemma inv_set_table:
  assumes "kernel_inv md s" and "t \<in> set (tables (recents s))" and "table_inv md t'" and "same_table t t'"
  shows "kernel_inv md (s\<lparr>recents := set_table t' (recents s)\<rparr>)"
  using assms(4) kernel_invD(2) [OF assms(1,2)] kernel_invD(4) [OF assms(1)]
  by (intro inv_change [OF assms(1-3)]) (auto simp: same_table_def users_def)

lemma step_packet:
  assumes "kernel_inv md s" and "module_ok md" and "info \<in> set (installed s)"
    and "\<forall>t \<in> set (tables (recents s)). fresh_mem mem t"
    and "recent_mt md HZ jiffies mem family info skb (recents s) = Done (ret, hotdrop, n)"
  shows "kernel_inv md (s\<lparr>recents := n\<rparr>)"
proof -
  from assms(5) obtain t t' where t: "recent_table_lookup (tables (recents s)) (i_name info) = Some t"
    "match_table md HZ jiffies mem family info skb t = Done (ret, hotdrop, t')" "n = set_table t' (recents s)"
    by (auto simp: recent_mt_def run_bind_eq_Done split: option.splits)
  note tin = table_lookup_Some(1) [OF t(1)]
  have "table_inv md t" "\<not> check_rejects info" "fresh_mem mem t"
    using kernel_invD(2,3) [OF assms(1)] tin assms(3,4) by auto
  from match_table_inv [OF this(1) assms(2) this(2,3) t(2)] show ?thesis
    using inv_set_table [OF assms(1) tin] t(3) by blast
qed

lemma filter_remove1_if: "filter P (remove1 x xs) = (if P x then remove1 x (filter P xs) else filter P xs)"
  by (induction xs) auto

lemma step_removed:
  assumes "kernel_inv md s" and "module_ok md" and "info \<in> set (installed s)"
    and "recent_mt_destroy md info (recents s) = Done n"
  shows "kernel_inv md \<lparr>installed = remove1 info (installed s), recents = n\<rparr>"
proof -
  let ?s = "\<lambda>n. \<lparr>installed = remove1 info (installed s), recents = n\<rparr>"
  note inv = kernel_invD [OF assms(1)]
  from assms(4) obtain t where t: "recent_table_lookup (tables (recents s)) (i_name info) = Some t"
    by (auto simp: recent_mt_destroy_def split: option.splits)
  note tin = table_lookup_Some [OF t]
  have u: "users (?s n) m = (if m = i_name info then users s m - 1 else users s m)" for m n
    using assms(3) by (auto simp: users_def filter_remove1_if length_remove1)
  have pos: "0 < users s (i_name info)" using inv(2) [OF tin(1)] tin(2) by simp
  then have "k_refcnt t \<noteq> 0" using inv(2) [OF tin(1)] tin(2) by auto
  then have rc: "unat (k_refcnt t - 1) = users s (i_name info) - 1"
    using inv(2) [OF tin(1)] tin(2) by (simp add: unat_minus_one)
  have sub: "set (remove1 info (installed s)) \<subseteq> set (installed s)" by (rule set_remove1_subset)
  have len: "length (remove1 info (installed s)) < 2 ^ 32" using inv(4) by (auto simp: length_remove1 less_imp_diff_less)
  show ?thesis
  proof (cases "k_refcnt t - 1 = 0")
    case False
    let ?t = "t\<lparr>k_refcnt := k_refcnt t - 1\<rparr>"
    from False t assms(4) have n: "n = set_table ?t (recents s)" by (simp add: recent_mt_destroy_def Let_def)
    have "unat (k_refcnt t - 1) \<noteq> 0" using False by (simp add: unat_eq_0)
    then have more: "0 < users s (i_name info) - 1" using rc by simp
    have ti: "table_inv md ?t" using inv(2) [OF tin(1)] by simp
    show ?thesis
      by (rule inv_change [OF assms(1) tin(1) ti]) (use n u rc more tin(2) sub len in auto)
  next
    case True
    then have one: "users s (i_name info) = 1" using rc pos by simp
    obtain t' where "recent_table_flush md (t\<lparr>k_refcnt := k_refcnt t - 1\<rparr>) = Done t'"
      using inv_flush [of md "t\<lparr>k_refcnt := k_refcnt t - 1\<rparr>"] inv(2) [OF tin(1)] assms(2)
      by (auto simp: table_inv_refcnt)
    with True t assms(4) have n: "tables n = filter (\<lambda>x. k_name x \<noteq> k_name t) (tables (recents s))"
      by (auto simp: recent_mt_destroy_def Let_def)
    have gone: "i_name i \<noteq> i_name info" if "i \<in> set (remove1 info (installed s))" for i
    proof
      assume eq: "i_name i = i_name info"
      have "users (?s n) (i_name info) = 0" using one by (simp add: u)
      with that eq show False by (simp add: users_def filter_empty_conv)
    qed
    have "i_name i \<in> k_name ` set (tables n)" if i: "i \<in> set (remove1 info (installed s))" for i
    proof -
      obtain x where "x \<in> set (tables (recents s))" "k_name x = i_name i" using inv(3) i sub by fastforce
      with gone [OF i] tin(2) show ?thesis by (intro image_eqI [of _ _ x]) (simp_all add: n)
    qed
    moreover have "distinct (map k_name (tables n))" using inv(1) by (simp add: n distinct_map_filter)
    ultimately show ?thesis
      using inv sub len tin(2)
      unfolding kernel_inv_def by (auto simp: n u)
  qed
qed

lemma byte_mask_inv:
  assumes "loaded md" and "\<not> check_rejects info"
  obtains k where "k \<le> 8" "(word_of_nat (nstamp_mask_of md info) :: byte) = mask k"
    "(word_of_nat (nstamp_mask_of md info) :: byte) \<noteq> 255 \<Longrightarrow> k < 8"
proof -
  from nstamp_mask_form [OF assms] obtain k where k: "k \<le> 8" "nstamp_mask_of md info = 2 ^ k - 1" by blast
  have m: "(word_of_nat (nstamp_mask_of md info) :: byte) = mask k" unfolding k(2) by (rule mask_byte)
  have "(mask 8 :: byte) = 255" by (simp add: mask_eq_exp_minus_1)
  then have "(word_of_nat (nstamp_mask_of md info) :: byte) \<noteq> 255 \<Longrightarrow> k < 8"
    unfolding m using k(1) by (cases "k = 8") auto
  from that [OF k(1) m this] show ?thesis .
qed

lemma empty_table_inv:
  assumes "loaded md" and "\<not> check_rejects info" and "table_rel md t []"
    and "nstamps_max_mask t = word_of_nat (nstamp_mask_of md info)"
  shows "table_inv md t"
proof (rule table_invI)
  show ok: "table_ok md t" using assms(3) unfolding table_ok_def by blast
  assume "nstamps_max_mask t \<noteq> 255"
  moreover obtain k where "k \<le> 8" "(word_of_nat (nstamp_mask_of md info) :: byte) = mask k"
    "(word_of_nat (nstamp_mask_of md info) :: byte) \<noteq> 255 \<Longrightarrow> k < 8"
    using byte_mask_inv [OF assms(1,2)] by metis
  ultimately have "\<exists>k < 8. nstamps_max_mask t = mask k" unfolding assms(4) by blast
  with ok show "cache_ok md t" using table_rel_empty [OF assms(3)] by (simp add: cache_fits_def power_mask_def)
qed

lemma table_rel_mask:
  assumes "table_rel md t []"
  shows "table_rel md (t\<lparr>nstamps_max_mask := m\<rparr>) []"
  using assms table_rel_empty [OF assms] unfolding table_rel_def by simp

lemma new_table_inv:
  assumes "loaded md" and "\<not> check_rejects info"
  shows "table_inv md (new_recent_table md info (word_of_nat (nstamp_mask_of md info)))"
  by (rule empty_table_inv [OF assms]) (simp_all add: table_rel_def new_recent_table_def)

text \<open>An existing table is emptied when the new rule needs longer rings.\<close>

lemma check_table:
  assumes "loaded md" and "\<not> check_rejects info" and "table_inv md t"
  shows "\<exists>t'. (if unat (nstamps_max_mask t) < nstamp_mask_of md info
      then run_bind (recent_table_flush md t) (\<lambda>t. Done (t\<lparr>nstamps_max_mask := word_of_nat (nstamp_mask_of md info)\<rparr>))
      else Done t) = Done t' \<and> table_inv md t' \<and> k_name t' = k_name t \<and> k_refcnt t' = k_refcnt t"
proof (cases "unat (nstamps_max_mask t) < nstamp_mask_of md info")
  case True
  from inv_flush [OF assms(3)] assms(1) obtain t1 where
    t1: "recent_table_flush md t = Done t1" "table_rel md t1 []" "same_table t t1" by (auto simp: loaded_def)
  let ?t = "t1\<lparr>nstamps_max_mask := word_of_nat (nstamp_mask_of md info)\<rparr>"
  have "table_inv md ?t"
    by (rule empty_table_inv [OF assms(1,2) table_rel_mask [OF t1(2)]]) simp
  with True t1 show ?thesis by (simp add: same_table_def)
qed (use assms(3) in simp)

lemma step_added:
  assumes "kernel_inv md s" and "loaded md" and "length (installed s) + 1 < 2 ^ 32"
    and "recent_mt_check md mem_ok ids_ok proc_ok info (recents s) = Done (Inr (), n)"
  shows "kernel_inv md \<lparr>installed = info # installed s, recents = n\<rparr>"
proof -
  let ?s = "\<lparr>installed = info # installed s, recents = n\<rparr>"
  note inv = kernel_invD [OF assms(1)]
  have acc: "\<not> check_rejects info" using assms(4) by (auto simp: recent_mt_check_def split: if_splits)
  have u: "users ?s m = (if m = i_name info then users s m + 1 else users s m)" for m
    by (simp add: users_def)
  show ?thesis
  proof (cases "recent_table_lookup (tables (recents s)) (i_name info)")
    case (Some t)
    note tin = table_lookup_Some [OF Some]
    note ti = inv(2) [OF tin(1)]
    from check_table [OF assms(2) acc] ti obtain t1 where
      t1: "(if unat (nstamps_max_mask t) < nstamp_mask_of md info
        then run_bind (recent_table_flush md t) (\<lambda>t. Done (t\<lparr>nstamps_max_mask := word_of_nat (nstamp_mask_of md info)\<rparr>))
        else Done t) = Done t1" "table_inv md t1" "k_name t1 = k_name t" "k_refcnt t1 = k_refcnt t" by blast
    let ?t = "t1\<lparr>k_refcnt := k_refcnt t + 1\<rparr>"
    have n: "n = set_table ?t (recents s)"
      using assms(4) Some acc t1(4)
      by (simp add: recent_mt_check_def Let_def t1(1) split del: if_split)
    have ti1: "table_inv md ?t" using t1(2) by simp
    have "unat (k_refcnt t) + 1 < 2 ^ 32" using ti users_bound [of s "k_name t"] assms(3) by linarith
    then have "unat (k_refcnt t + 1) = unat (k_refcnt t) + 1" by (simp add: unat_word_ariths)
    then show ?thesis
      by (intro inv_change [OF assms(1) tin(1) ti1]) (use n u acc assms(3) tin ti t1(3) in auto)
  next
    case None
    let ?t = "new_recent_table md info (word_of_nat (nstamp_mask_of md info))"
    have n: "tables n = tables (recents s) @ [?t]"
      using assms(4) None acc by (auto simp: recent_mt_check_def Let_def split: if_splits)
    have fresh: "i_name info \<notin> k_name ` set (tables (recents s))" by (rule table_lookup_None [OF None])
    have "i_name x \<noteq> i_name info" if "x \<in> set (installed s)" for x
      using inv(3) [OF that] fresh by metis
    then have zero: "users s (i_name info) = 0" by (simp add: users_def filter_empty_conv)
    have fresh_name: "k_name t \<noteq> i_name info" if "t \<in> set (tables (recents s))" for t
      using fresh that by force
    have nt: "k_name ?t = i_name info" "k_refcnt ?t = 1" by (simp_all add: new_recent_table_def)
    have "distinct (map k_name (tables n))" using inv(1) fresh nt by (simp add: n)
    moreover have "\<forall>t \<in> set (tables n). table_inv md t \<and> unat (k_refcnt t) = users ?s (k_name t) \<and>
        0 < users ?s (k_name t)"
      using inv(2) fresh_name zero nt new_table_inv [OF assms(2) acc] by (auto simp: n u)
    moreover have "\<forall>i \<in> set (installed ?s). \<not> check_rejects i \<and> i_name i \<in> k_name ` set (tables n)"
      using inv(3) acc nt by (auto simp: n)
    ultimately show ?thesis using assms(3) by (simp add: kernel_inv_def)
  qed
qed

lemma check_refused:
  assumes "loaded md" and "kernel_inv md s"
    and "recent_mt_check md mem_ok ids_ok proc_ok info (recents s) = Done (Inl err, n)"
  shows "n = recents s"
  using assms(3)
  by (auto simp: recent_mt_check_def Let_def run_bind_eq_Done split: if_splits option.splits)

lemma kernel_step_inv:
  assumes "kernel_step lib md s s'" and "loaded md" and "kernel_inv md s"
  shows "kernel_inv md s'"
  using assms
proof (induction rule: kernel_step.induct)
  case (rule_added mem_ok ids_ok proc_ok info s n)
  then show ?case by (intro step_added)
next
  case (rule_refused mem_ok ids_ok proc_ok info s err n)
  from check_refused [OF rule_refused(2,3,1)] rule_refused(3) show ?case by simp
next
  case (rule_removed info s n)
  then show ?case by (intro step_removed) (simp_all add: loaded_def)
next
  case (packet info s mem HZ jiffies family skb ret hotdrop n)
  then show ?case by (intro step_packet) (simp_all add: loaded_def)
next
  case (written t s mem files jiffies stack copy_ok input loff r t')
  have "table_inv md t" using kernel_invD(2) [OF written(7,1)] by blast
  from proc_write_inv [OF this _ written(2,5)] written(6) show ?case
    using inv_set_table [OF written(7,1)] by (auto simp: loaded_def)
next
  case (net_exit s)
  then show ?case
    by (simp add: kernel_inv_def users_def recent_net_exit_def recent_proc_net_exit_def)
qed

lemma kernel_reachable_inv:
  assumes "kernel_reachable lib md s" and "loaded md"
  shows "kernel_inv md s"
  using assms
proof (induction rule: kernel_reachable.induct)
  case (start n)
  then have "tables n = []" by (auto simp: recent_net_init_def recent_proc_net_init_def)
  then show ?case by (simp add: kernel_inv_def)
next
  case (step s s')
  then show ?case by (blast intro: kernel_step_inv)
qed

lemma match_table_runs:
  assumes "table_inv md t" and "module_ok md" and "\<not> check_rejects info" and "fresh_mem mem t"
    and "XT_RECENT_REAP \<in> set (i_check_set info) \<longrightarrow>
      XT_RECENT_UPDATE \<notin> set (i_check_set info) \<and> nstamps_max_mask t \<noteq> 255"
  shows "\<exists>ret hot t'. match_table md HZ jiffies mem family info skb t = Done (ret, hot, t')"
proof -
  obtain ps where ps: "table_rel md t ps" using table_inv_rel [OF assms(1)] .
  have "\<exists>ret hot t'. match_table md HZ jiffies mem family info skb t = Done (ret, hot, t') \<and>
    table_ok md t' \<and> same_table t t'"
  proof (rule match_table_ok [OF ps assms(2,3,5)])
    show "p \<notin> set ps" if "mem = Some (p, old)" for p old
      using assms(4) that table_relD(5) [OF ps] by (auto dest: fresh_memD)
  qed
  then show ?thesis by blast
qed

lemma rule_table:
  assumes "kernel_inv md s" and "info \<in> set (installed s)"
  obtains t where "recent_table_lookup (tables (recents s)) (i_name info) = Some t" "t \<in> set (tables (recents s))"
    "k_name t = i_name info"
proof (cases "recent_table_lookup (tables (recents s)) (i_name info)")
  case None
  with kernel_invD(3) [OF assms] show ?thesis using table_lookup_None by blast
next
  case (Some t)
  from that [OF Some table_lookup_Some [OF Some]] show ?thesis .
qed

section \<open>Properties\<close>

lemma sample_loaded: "loaded sample_module"
  using sample_module_ok by (simp add: loaded_def sample_module_def XT_RECENT_MAX_NSTAMPS_def)

text \<open>The kernel after one rule was added.\<close>

definition sample_kernel :: kernel where
  "sample_kernel = \<lparr>installed = [sample_rule [XT_RECENT_SET] False],
     recents = \<lparr>tables = [sample_recent_table], proc_files = Some [''web'']\<rparr>\<rparr>"

lemma sample_kernel_reachable: "kernel_reachable lib sample_module sample_kernel"
proof -
  let ?r = "sample_rule [XT_RECENT_SET] False" and ?n = "\<lparr>tables = [], proc_files = Some []\<rparr>"
  have acc: "\<not> check_rejects ?r"
    by (simp add: check_rejects_def sample_rule_def XT_RECENT_MAX_NSTAMPS_def XT_RECENT_NAME_LEN_def)
  have m: "nstamp_mask_of sample_module ?r = 31"
    by (simp add: nstamp_mask_of_def sample_module_def sample_rule_def)
  have "recent_mt_check sample_module True True True ?r ?n =
      Done (Inr (), \<lparr>tables = [sample_recent_table], proc_files = Some [''web'']\<rparr>)"
    using acc m by (simp add: recent_mt_check_def Let_def recent_table_lookup_def sample_recent_table_def)
      (simp add: new_recent_table_def sample_rule_def)
  then have "kernel_step lib sample_module \<lparr>installed = [], recents = ?n\<rparr> sample_kernel"
    using rule_added [of sample_module True True True ?r "\<lparr>installed = [], recents = ?n\<rparr>"]
    by (simp add: sample_kernel_def)
  moreover have "kernel_reachable lib sample_module \<lparr>installed = [], recents = ?n\<rparr>"
    by (rule start) (simp add: recent_net_init_def recent_proc_net_init_def)
  ultimately show ?thesis by (rule step [rotated])
qed

text \<open>C5: whatever rules are added, refused and removed, whatever packets arrive and whatever is written to
  the files, in any order, every table stays well formed (its buckets and its LRU list hold exactly the
  entries in memory, at most \<open>ip_list_tot\<close> of them, and, unless its mask is 255, each with its last
  stamps in order), counts the rules that use it, and every rule finds its table.\<close>

theorem kernel_tables_stay_consistent:
  assumes "kernel_reachable lib md s" and "loaded md"
  shows "kernel_inv md s"
  using assms by (rule kernel_reachable_inv)

theorem kernel_tables_stay_consistent_witness: "kernel_inv sample_module sample_kernel"
  by (rule kernel_tables_stay_consistent [OF sample_kernel_reachable sample_loaded])

text \<open>C10: in every such state a packet that meets an installed rule is decided without a fault, as long as
  the rule does not reap while it updates and does not reap from a table with the mask 255, whose index
  wraps to 0.\<close>

theorem kernel_packets_never_fault:
  assumes "kernel_reachable lib md s" and "loaded md" and "info \<in> set (installed s)"
    and "\<forall>t \<in> set (tables (recents s)). fresh_mem mem t"
    and "XT_RECENT_REAP \<in> set (i_check_set info) \<longrightarrow> XT_RECENT_UPDATE \<notin> set (i_check_set info) \<and>
      (\<forall>t \<in> set (tables (recents s)). k_name t = i_name info \<longrightarrow> nstamps_max_mask t \<noteq> 255)"
  shows "\<exists>ret hotdrop n. recent_mt md HZ jiffies mem family info skb (recents s) = Done (ret, hotdrop, n)"
proof -
  have inv: "kernel_inv md s" using assms(1,2) by (rule kernel_reachable_inv)
  obtain t where t: "recent_table_lookup (tables (recents s)) (i_name info) = Some t" "t \<in> set (tables (recents s))"
    "k_name t = i_name info" using rule_table [OF inv assms(3)] .
  have "table_inv md t" "module_ok md" "\<not> check_rejects info" "fresh_mem mem t"
    using kernel_invD(2,3) [OF inv] t(2) assms(2-4) by (auto simp: loaded_def)
  from match_table_runs [OF this, of HZ jiffies family skb] assms(5) t(2,3) obtain ret hot t' where
    "match_table md HZ jiffies mem family info skb t = Done (ret, hot, t')" by blast
  with t(1) show ?thesis by (simp add: recent_mt_def)
qed

theorem kernel_packets_never_fault_witness:
  "\<exists>ret hotdrop n. recent_mt sample_module 250 5000 None NFPROTO_IPV4 (sample_rule [XT_RECENT_SET] False) sample_skb
     (recents sample_kernel) = Done (ret, hotdrop, n)"
  by (rule kernel_packets_never_fault [OF sample_kernel_reachable sample_loaded])
    (simp_all add: sample_kernel_def fresh_mem_def, simp_all add: sample_rule_def)

text \<open>C11: an installed rule can always be removed; its table, with the file, goes with the last rule that
  uses it and not before.\<close>

theorem rule_removal_frees_table:
  assumes "kernel_reachable lib md s" and "loaded md" and "info \<in> set (installed s)"
  shows "\<exists>n. recent_mt_destroy md info (recents s) = Done n \<and>
    (i_name info \<in> k_name ` set (tables n) \<longleftrightarrow> 1 < users s (i_name info))"
proof -
  have inv: "kernel_inv md s" using assms(1,2) by (rule kernel_reachable_inv)
  obtain t where t: "recent_table_lookup (tables (recents s)) (i_name info) = Some t" "t \<in> set (tables (recents s))"
    "k_name t = i_name info" using rule_table [OF inv assms(3)] .
  note ti = kernel_invD(2) [OF inv t(2)]
  have "k_refcnt t \<noteq> 0" using ti t(3) by auto
  then have rc: "unat (k_refcnt t - 1) = users s (i_name info) - 1" using ti t(3) by (simp add: unat_minus_one)
  let ?t = "t\<lparr>k_refcnt := k_refcnt t - 1\<rparr>"
  show ?thesis
  proof (cases "k_refcnt t - 1 = 0")
    case True
    obtain t' where t': "recent_table_flush md ?t = Done t'"
      using inv_flush [of md ?t] ti assms(2) by (auto simp: loaded_def)
    let ?n = "(recents s)\<lparr>tables := filter (\<lambda>x. k_name x \<noteq> k_name t) (tables (recents s)),
      proc_files := map_option (removeAll (k_name t)) (proc_files (recents s))\<rparr>"
    have "recent_mt_destroy md info (recents s) = Done ?n"
      using t(1) True t' by (simp add: recent_mt_destroy_def Let_def)
    moreover have "users s (i_name info) = 1" using True rc ti t(3) by simp
    moreover have "i_name info \<notin> k_name ` set (tables ?n)" using t(3) by auto
    ultimately show ?thesis by (metis less_irrefl)
  next
    case False
    have "recent_mt_destroy md info (recents s) = Done (set_table ?t (recents s))"
      using t(1) False by (simp add: recent_mt_destroy_def Let_def)
    moreover have "i_name info \<in> k_name ` set (tables (set_table ?t (recents s)))"
      using arg_cong [OF set_table_tables(2) [OF kernel_invD(1) [OF inv] t(2), of ?t], of set] t(2,3) by force
    moreover have "unat (k_refcnt t - 1) \<noteq> 0" using False by (simp add: unat_eq_0)
    then have "1 < users s (i_name info)" using rc by linarith
    ultimately show ?thesis by blast
  qed
qed

theorem rule_removal_frees_table_witness:
  "\<exists>n. recent_mt_destroy sample_module (sample_rule [XT_RECENT_SET] False) (recents sample_kernel) = Done n \<and>
    (i_name (sample_rule [XT_RECENT_SET] False) \<in> k_name ` set (tables n) \<longleftrightarrow>
     1 < users sample_kernel (i_name (sample_rule [XT_RECENT_SET] False)))"
  by (rule rule_removal_frees_table [OF sample_kernel_reachable sample_loaded]) (simp add: sample_kernel_def)

end
