(* ===== verification/Xt_Recent_316.thy ===== *)
theory Xt_Recent_316
  imports Xt_Recent_File
begin

text \<open>
  \<open>kmodule/xt_recent-3.16.43.c\<close>: the version of the kernel module for Linux 3.16. Its tables have no ring
  size of their own: every entry has \<open>ip_pkt_list_tot\<close> slots for its stamps, and the index is taken
  modulo that parameter. The functions that are the same as in 4.9.13 (lookup, removal, reaping,
  flushing, the walk of the file, \<open>recent_mt_destroy\<close>, the start and the end of a namespace) are those
  of the theories before; here are the ones that differ, for every table that has at least the fields
  of 3.2.93, whose text of them is the same.
\<close>

section \<open>Entries\<close>

definition recent_entry_init_316 ::
    "recent_module \<Rightarrow> u64 \<Rightarrow> (ptr \<times> (nat \<Rightarrow> u64)) option \<Rightarrow> 'a recent_table_32_scheme \<Rightarrow> nf_inet_addr \<Rightarrow> nfproto \<Rightarrow>
     byte \<Rightarrow> u64 option \<Rightarrow> (ptr option \<times> 'a recent_table_32_scheme) run" where
  "recent_entry_init_316 md jiffies mem t a family ttl first_nstamp =
     run_bind (if ip_list_tot md \<le> k_entries t
               then (case lru_list t of [] \<Rightarrow> Fault | p # _ \<Rightarrow> recent_entry_remove t p)
               else Done t)
       (\<lambda>t. let h = entry_bucket md a family
            in case mem of
                 None \<Rightarrow> Done (None, t)
               | Some (p, old) \<Rightarrow>
                   if ip_pkt_list_tot md = 0 \<or> length (iphash t) \<le> h then Fault
                   else (let e = \<lparr>k_addr = a, k_family = family, k_ttl = ttl, k_index = 1, k_nstamps = 1,
                                  k_stamps = (map old [0..<unat (ip_pkt_list_tot md)])
                                    [0 := (case first_nstamp of None \<Rightarrow> jiffies | Some s \<Rightarrow> s)]\<rparr>
                         in Done (Some p, t\<lparr>k_heap := (k_heap t)(p \<mapsto> e),
                              iphash := (iphash t)[h := iphash t ! h @ [p]],
                              lru_list := lru_list t @ [p], k_entries := k_entries t + 1\<rparr>)))"

text \<open>The index is a byte, the parameter an \<open>unsigned int\<close>; the remainder by 0 traps.\<close>

definition stamp_entry_316 :: "u32 \<Rightarrow> u64 \<Rightarrow> recent_entry \<Rightarrow> recent_entry run" where
  "stamp_entry_316 tot s e =
     (if tot = 0 then Fault
      else
        (let i = ucast (ucast (k_index e) mod tot) :: byte
         in if unat i < length (k_stamps e) then
              (let e = e\<lparr>k_stamps := (k_stamps e)[unat i := s], k_index := i + 1\<rparr>
               in Done (if unat (k_nstamps e) < unat (k_index e) then e\<lparr>k_nstamps := ucast (k_index e)\<rparr> else e))
            else Fault))"

definition recent_entry_update_316 ::
    "recent_module \<Rightarrow> u64 \<Rightarrow> 'a recent_table_32_scheme \<Rightarrow> ptr \<Rightarrow> u64 option \<Rightarrow> ('a recent_table_32_scheme) run" where
  "recent_entry_update_316 md jiffies t p nstamp =
     run_bind (deref t p) (\<lambda>e.
       run_bind (stamp_entry_316 (ip_pkt_list_tot md) (case nstamp of None \<Rightarrow> jiffies | Some s \<Rightarrow> s) e) (\<lambda>e.
         Done (t\<lparr>k_heap := (k_heap t)(p \<mapsto> e), lru_list := remove1 p (lru_list t) @ [p]\<rparr>)))"

section \<open>The match\<close>

definition match_found_316 ::
    "recent_module \<Rightarrow> u32 \<Rightarrow> u64 \<Rightarrow> xt_recent_mtinfo \<Rightarrow> byte \<Rightarrow> 'a recent_table_32_scheme \<Rightarrow> ptr \<Rightarrow>
     (bool \<times> 'a recent_table_32_scheme) run" where
  "match_found_316 md HZ jiffies info ttl t p =
     (let cs = set (i_check_set info); ret = i_invert info
      in run_bind
           (if XT_RECENT_SET \<in> cs then Done (\<not> ret, t)
            else if XT_RECENT_REMOVE \<in> cs then run_bind (recent_entry_remove t p) (\<lambda>t. Done (\<not> ret, t))
            else if XT_RECENT_CHECK \<in> cs \<or> XT_RECENT_UPDATE \<in> cs then
              (let time = match_time HZ jiffies info
               in run_bind (deref t p) (\<lambda>e.
                    run_bind (hit_loop info time e [0..<unat (k_nstamps e)] 0) (\<lambda>hit.
                      let ret = (if hit then \<not> ret else ret)
                      in if XT_RECENT_REAP \<in> cs
                         then run_bind (recent_entry_reap t time) (\<lambda>t. Done (ret, t))
                         else Done (ret, t))))
            else Done (ret, t))
           (\<lambda>(ret, t).
              if XT_RECENT_SET \<in> cs \<or> XT_RECENT_UPDATE \<in> cs \<and> ret then
                run_bind (recent_entry_update_316 md jiffies t p None) (\<lambda>t.
                  run_bind (deref t p) (\<lambda>e.
                    Done (ret, t\<lparr>k_heap := (k_heap t)(p \<mapsto> e\<lparr>k_ttl := ttl\<rparr>)\<rparr>)))
              else Done (ret, t)))"

text \<open>What follows the lookup, for the address \<open>a\<close> that is looked up.\<close>

definition match_addr_316 ::
    "recent_module \<Rightarrow> u32 \<Rightarrow> u64 \<Rightarrow> (ptr \<times> (nat \<Rightarrow> u64)) option \<Rightarrow> nfproto \<Rightarrow> xt_recent_mtinfo \<Rightarrow> nf_inet_addr \<Rightarrow> byte \<Rightarrow>
     'a recent_table_32_scheme \<Rightarrow> (bool \<times> bool \<times> 'a recent_table_32_scheme) run" where
  "match_addr_316 md HZ jiffies mem family info a ttl t =
     (let cs = set (i_check_set info); ret = i_invert info
      in run_bind (recent_entry_lookup md t a family (if XT_RECENT_TTL \<in> cs then ttl else 0)) (\<lambda>e.
           case e of
             None \<Rightarrow>
               if XT_RECENT_SET \<notin> cs then Done (ret, False, t)
               else run_bind (recent_entry_init_316 md jiffies mem t a family ttl None)
                      (\<lambda>(e, t). Done (\<not> ret, e = None, t))
           | Some p \<Rightarrow>
               run_bind (match_found_316 md HZ jiffies info ttl t p) (\<lambda>(ret, t). Done (ret, False, t))))"

definition recent_mt_316 ::
    "recent_module \<Rightarrow> u32 \<Rightarrow> u64 \<Rightarrow> (ptr \<times> (nat \<Rightarrow> u64)) option \<Rightarrow> nfproto \<Rightarrow> xt_recent_mtinfo \<Rightarrow> sk_buff \<Rightarrow>
     recent_table_316 recent_net \<Rightarrow> (bool \<times> bool \<times> recent_table_316 recent_net) run" where
  "recent_mt_316 md HZ jiffies mem family info skb net =
     (case recent_table_lookup (tables net) (i_name info) of
        None \<Rightarrow> Fault
      | Some t \<Rightarrow>
          (let addr_mask = nf_inet_addr_mask (packet_addr family info skb) (k_mask t)
           in run_bind (match_addr_316 md HZ jiffies mem family info addr_mask (packet_ttl skb) t)
                (\<lambda>(ret, hotdrop, t). Done (ret, hotdrop, set_table t net))))"

section \<open>Adding a rule\<close>

text \<open>The count of a rule is checked against the parameter.\<close>

definition check_rejects_316 :: "recent_module \<Rightarrow> xt_recent_mtinfo \<Rightarrow> bool" where
  "check_rejects_316 md info =
     (let cs = set (i_check_set info)
      in XT_RECENT_unknown \<in> cs \<or>
         card (cs \<inter> {XT_RECENT_SET, XT_RECENT_REMOVE, XT_RECENT_CHECK, XT_RECENT_UPDATE}) \<noteq> 1 \<or>
         (XT_RECENT_SET \<in> cs \<or> XT_RECENT_REMOVE \<in> cs) \<and>
           (i_seconds info \<noteq> 0 \<or> i_hit_count info \<noteq> 0 \<or> XT_RECENT_TTL \<in> cs \<or> XT_RECENT_REAP \<in> cs) \<or>
         XT_RECENT_REAP \<in> cs \<and> i_seconds info = 0 \<or>
         ip_pkt_list_tot md < i_hit_count info \<or>
         i_name info = [] \<or> XT_RECENT_NAME_LEN \<le> length (i_name info))"

definition new_recent_table_316 :: "recent_module \<Rightarrow> xt_recent_mtinfo \<Rightarrow> recent_table_316" where
  "new_recent_table_316 md info =
     \<lparr>k_name = i_name info, k_refcnt = 1, k_entries = 0, k_heap = Map.empty, lru_list = [],
      iphash = replicate (unat (ip_list_hash_size md)) [], k_mask = i_mask info\<rparr>"

definition recent_mt_check_316 ::
    "recent_module \<Rightarrow> bool \<Rightarrow> bool \<Rightarrow> bool \<Rightarrow> xt_recent_mtinfo \<Rightarrow> recent_table_316 recent_net \<Rightarrow>
     ((errno + unit) \<times> recent_table_316 recent_net) run" where
  "recent_mt_check_316 md mem_ok ids_ok proc_ok info net =
     (if check_rejects_316 md info then Done (Inl EINVAL, net)
      else case recent_table_lookup (tables net) (i_name info) of
             Some t \<Rightarrow> Done (Inr (), set_table (t\<lparr>k_refcnt := k_refcnt t + 1\<rparr>) net)
           | None \<Rightarrow>
               if \<not> mem_ok then Done (Inl ENOMEM, net)
               else if \<not> ids_ok then Done (Inl EINVAL, net)
               else if \<not> proc_ok then Done (Inl ENOMEM, net)
               else
                 (let t = new_recent_table_316 md info
                  in Done (Inr (), net\<lparr>tables := tables net @ [t],
                       proc_files := map_option (\<lambda>fs. fs @ [k_name t]) (proc_files net)\<rparr>)))"

definition recent_mt_check_v0_316 ::
    "recent_module \<Rightarrow> bool \<Rightarrow> bool \<Rightarrow> bool \<Rightarrow> xt_recent_mtinfo \<Rightarrow> recent_table_316 recent_net \<Rightarrow>
     ((errno + unit) \<times> recent_table_316 recent_net) run" where
  "recent_mt_check_v0_316 md mem_ok ids_ok proc_ok info net =
     recent_mt_check_316 md mem_ok ids_ok proc_ok (info\<lparr>i_mask := replicate 16 0xff\<rparr>) net"

definition recent_mt_check_v1_316 ::
    "recent_module \<Rightarrow> bool \<Rightarrow> bool \<Rightarrow> bool \<Rightarrow> xt_recent_mtinfo \<Rightarrow> recent_table_316 recent_net \<Rightarrow>
     ((errno + unit) \<times> recent_table_316 recent_net) run" where
  "recent_mt_check_v1_316 md mem_ok ids_ok proc_ok info net =
     recent_mt_check_316 md mem_ok ids_ok proc_ok info net"

section \<open>The file\<close>

definition recent_seq_show_316 :: "kernel_lib \<Rightarrow> recent_module \<Rightarrow> recent_entry \<Rightarrow> string run" where
  "recent_seq_show_316 lib md e =
     (let i = (ucast (k_index e) - 1) mod ip_pkt_list_tot md
      in if ip_pkt_list_tot md = 0 \<or> length (k_stamps e) \<le> unat i \<or> length (k_stamps e) < unat (k_nstamps e)
         then Fault
         else Done (''src='' @
           (if k_family e = NFPROTO_IPV4 then ipv4_string (take 4 (k_addr e)) else pI6 lib (k_addr e)) @
           '' ttl: '' @ to_string_u (k_ttl e) @ '' last_seen: '' @ to_string_u (k_stamps e ! unat i) @
           '' oldest_pkt: '' @ to_string_u (k_index e) @
           show_stamps (take (unat (k_nstamps e)) (k_stamps e)) 0 @ [CHR 0x0A]))"

fun show_rows_316 ::
    "kernel_lib \<Rightarrow> recent_module \<Rightarrow> 'a recent_table_32_scheme \<Rightarrow> ptr list \<Rightarrow> string list run" where
  "show_rows_316 lib md t [] = Done []"
| "show_rows_316 lib md t (p # ps) =
     run_bind (deref t p) (\<lambda>e. run_bind (recent_seq_show_316 lib md e) (\<lambda>row.
       run_bind (show_rows_316 lib md t ps) (\<lambda>rows. Done (row # rows))))"

definition read_file_316 ::
    "kernel_lib \<Rightarrow> recent_module \<Rightarrow> 'a recent_table_32_scheme \<Rightarrow> string list run" where
  "read_file_316 lib md t =
     show_rows_316 lib md t (seq_walk md t (unat (k_entries t)) (recent_seq_start md t 0))"

function write_stamps_316 ::
    "kernel_lib \<Rightarrow> recent_module \<Rightarrow> u64 \<Rightarrow> string \<Rightarrow> nat \<Rightarrow> nat option \<Rightarrow> ptr option \<Rightarrow> 'a recent_table_32_scheme \<Rightarrow>
     ('a recent_table_32_scheme) run" where
  "write_stamps_316 lib md jiffies mem n c e t =
     (case strsep_at mem n c of
        Done (Some tok, c) \<Rightarrow>
          (case kstrtoul lib tok of
             None \<Rightarrow> write_stamps_316 lib md jiffies mem n c e t
           | Some tmp \<Rightarrow>
               (case e of
                  None \<Rightarrow> Fault
                | Some p \<Rightarrow>
                    (case recent_entry_update_316 md jiffies t p (Some tmp) of
                       Done t \<Rightarrow> write_stamps_316 lib md jiffies mem n c e t
                     | r \<Rightarrow> r)))
      | Done (None, _) \<Rightarrow> Done t
      | _ \<Rightarrow> Fault)"
  by pat_completeness auto
termination
  by (relation "measure (\<lambda>(_, _, _, mem, _, c, _). case c of None \<Rightarrow> 0 | Some i \<Rightarrow> Suc (length mem - i))")
    (fastforce dest!: strsep_at_later split: option.splits)+

declare write_stamps_316.simps [simp del]

definition restore_new_316 ::
    "kernel_lib \<Rightarrow> recent_module \<Rightarrow> u64 \<Rightarrow> (ptr \<times> (nat \<Rightarrow> u64)) option \<Rightarrow> string \<Rightarrow> nat \<Rightarrow> nat option \<Rightarrow>
     nf_inet_addr \<Rightarrow> nfproto \<Rightarrow> 'a recent_table_32_scheme \<Rightarrow> ((errno + unit) \<times> 'a recent_table_32_scheme) run" where
  "restore_new_316 lib md jiffies mem_res mem n c a family t =
     run_bind (strsep_at mem n c) (\<lambda>(tok, c).
       case (case tok of None \<Rightarrow> Some 0 | Some s \<Rightarrow> kstrtou8 lib s) of
         None \<Rightarrow> Done (Inl EINVAL, t)
       | Some ttl \<Rightarrow>
           run_bind (strsep_at mem n c) (\<lambda>(tok, c).
             run_bind (case (case tok of None \<Rightarrow> None | Some s \<Rightarrow> kstrtoul lib s) of
                         None \<Rightarrow> Done (None, t)
                       | Some nstamp \<Rightarrow> recent_entry_init_316 md jiffies mem_res t a family ttl (Some nstamp))
               (\<lambda>(e, t). run_bind (write_stamps_316 lib md jiffies mem n c e t) (\<lambda>t. Done (Inr (), t)))))"

definition write_entry_316 ::
    "kernel_lib \<Rightarrow> recent_module \<Rightarrow> u64 \<Rightarrow> (ptr \<times> (nat \<Rightarrow> u64)) option \<Rightarrow> proc_cmd \<Rightarrow> string \<Rightarrow> nat \<Rightarrow> nat option \<Rightarrow>
     nf_inet_addr \<Rightarrow> nfproto \<Rightarrow> 'a recent_table_32_scheme \<Rightarrow> ((errno + unit) \<times> 'a recent_table_32_scheme) run" where
  "write_entry_316 lib md jiffies mem_res cmd mem n c a family t =
     run_bind (recent_entry_lookup md t a family 0) (\<lambda>e.
       case e of
         None \<Rightarrow>
           (case cmd of
              Proc_add \<Rightarrow>
                run_bind (recent_entry_init_316 md jiffies mem_res t a family 0 None) (\<lambda>(_, t). Done (Inr (), t))
            | Proc_restore \<Rightarrow> restore_new_316 lib md jiffies mem_res mem n c a family t
            | Proc_remove \<Rightarrow> Done (Inr (), t))
       | Some p \<Rightarrow>
           (case cmd of
              Proc_add \<Rightarrow> run_bind (recent_entry_update_316 md jiffies t p None) (\<lambda>t. Done (Inr (), t))
            | Proc_restore \<Rightarrow> run_bind (strsep_at mem n c) (\<lambda>(_, c).
                run_bind (write_stamps_316 lib md jiffies mem n c (Some p) t) (\<lambda>t. Done (Inr (), t)))
            | Proc_remove \<Rightarrow> run_bind (recent_entry_remove t p) (\<lambda>t. Done (Inr (), t))))"

definition recent_mt_proc_write_316 ::
    "kernel_lib \<Rightarrow> recent_module \<Rightarrow> u64 \<Rightarrow> (ptr \<times> (nat \<Rightarrow> u64)) option \<Rightarrow> string \<Rightarrow> bool \<Rightarrow> string \<Rightarrow> nat \<Rightarrow>
     'a recent_table_32_scheme \<Rightarrow> ((errno + nat) \<times> 'a recent_table_32_scheme) run" where
  "recent_mt_proc_write_316 lib md jiffies mem_res stack copy_ok input loff t =
     (let n = length input; mem = input @ stack
      in if MAX_WRITE < n then Done (Inl EINVAL, t)
         else if n = 0 then Done (Inr 0, t)
         else if \<not> copy_ok then Done (Inl EFAULT, t)
         else if loff \<noteq> 0 then Done (Inl ESPIPE, t)
         else if hd input = CHR ''/'' then run_bind (recent_table_flush md t) (\<lambda>t. Done (Inr n, t))
         else (case proc_cmd_of (hd input) of
           None \<Rightarrow> Done (Inl EINVAL, t)
         | Some cmd \<Rightarrow>
             run_bind (if cmd = Proc_restore
               then run_bind (strsep_at mem n (Some 1)) (\<lambda>(ipaddr, c).
                      run_bind (strnchr mem c (n - 1) (CHR '':'')) (\<lambda>v6.
                        Done (c, case ipaddr of None \<Rightarrow> None | Some s \<Rightarrow> parse_addr lib v6 s (- 1))))
               else run_bind (strnchr mem (Some 1) (n - 1) (CHR '':'')) (\<lambda>v6.
                      Done (Some 1, parse_addr lib v6 (tl input) 10)))
             (\<lambda>(c, addr). case addr of
                None \<Rightarrow> Done (Inl EINVAL, t)
              | Some (a, family) \<Rightarrow>
                  run_bind (write_entry_316 lib md jiffies mem_res cmd mem n c a family t)
                    (\<lambda>(r, t). Done (case r of Inl x \<Rightarrow> Inl x | Inr _ \<Rightarrow> Inr n, t)))))"

section \<open>The module\<close>

definition recent_mt_init_316 :: "recent_module \<Rightarrow> (errno + recent_module) run" where
  "recent_mt_init_316 md =
     (if ip_list_tot md = 0 \<or> ip_pkt_list_tot md = 0 \<or> 255 < ip_pkt_list_tot md then Done (Inl EINVAL)
      else if 32 \<le> fls (unat (ip_list_tot md)) then Fault
      else Done (Inr (md\<lparr>ip_list_hash_size := push_bit (fls (unat (ip_list_tot md))) 1\<rparr>)))"

end
