(* ===== verification/Xt_Recent_32.thy ===== *)
theory Xt_Recent_32
  imports Xt_Recent_316
begin

text \<open>
  \<open>kmodule/xt_recent-3.2.93.c\<close>: the version of the kernel module for Linux 3.2. Its rules have revision 0 only,
  so that \<open>i_mask\<close> is not read, its tables have no mask, and the owner of a file is not checked. The functions
  on the entries, the file and \<open>recent_mt_init\<close> have the text of 3.16.43.
\<close>

definition recent_mt_32 ::
    "recent_module \<Rightarrow> u32 \<Rightarrow> u64 \<Rightarrow> (ptr \<times> (nat \<Rightarrow> u64)) option \<Rightarrow> nfproto \<Rightarrow> xt_recent_mtinfo \<Rightarrow> sk_buff \<Rightarrow>
     recent_table_32 recent_net \<Rightarrow> (bool \<times> bool \<times> recent_table_32 recent_net) run" where
  "recent_mt_32 md HZ jiffies mem family info skb net =
     (case recent_table_lookup (tables net) (i_name info) of
        None \<Rightarrow> Fault
      | Some t \<Rightarrow>
          (let addr = packet_addr family info skb; ttl = packet_ttl skb; cs = set (i_check_set info);
               ret = i_invert info
           in run_bind
                (run_bind (recent_entry_lookup md t addr family (if XT_RECENT_TTL \<in> cs then ttl else 0)) (\<lambda>e.
                   case e of
                     None \<Rightarrow>
                       if XT_RECENT_SET \<notin> cs then Done (ret, False, t)
                       else run_bind (recent_entry_init_316 md jiffies mem t addr family ttl None)
                              (\<lambda>(e, t). Done (\<not> ret, e = None, t))
                   | Some p \<Rightarrow>
                       run_bind (match_found_316 md HZ jiffies info ttl t p) (\<lambda>(ret, t). Done (ret, False, t))))
                (\<lambda>(ret, hotdrop, t). Done (ret, hotdrop, set_table t net))))"

definition new_recent_table_32 :: "recent_module \<Rightarrow> xt_recent_mtinfo \<Rightarrow> recent_table_32" where
  "new_recent_table_32 md info =
     \<lparr>k_name = i_name info, k_refcnt = 1, k_entries = 0, k_heap = Map.empty, lru_list = [],
      iphash = replicate (unat (ip_list_hash_size md)) []\<rparr>"

definition recent_mt_check_32 ::
    "recent_module \<Rightarrow> bool \<Rightarrow> bool \<Rightarrow> xt_recent_mtinfo \<Rightarrow> recent_table_32 recent_net \<Rightarrow>
     ((errno + unit) \<times> recent_table_32 recent_net) run" where
  "recent_mt_check_32 md mem_ok proc_ok info net =
     (if check_rejects_316 md info then Done (Inl EINVAL, net)
      else case recent_table_lookup (tables net) (i_name info) of
             Some t \<Rightarrow> Done (Inr (), set_table (t\<lparr>k_refcnt := k_refcnt t + 1\<rparr>) net)
           | None \<Rightarrow>
               if \<not> mem_ok then Done (Inl ENOMEM, net)
               else if \<not> proc_ok then Done (Inl ENOMEM, net)
               else
                 (let t = new_recent_table_32 md info
                  in Done (Inr (), net\<lparr>tables := tables net @ [t],
                       proc_files := map_option (\<lambda>fs. fs @ [k_name t]) (proc_files net)\<rparr>)))"

text \<open>The directory is used whether it still exists or not.\<close>

definition recent_mt_destroy_32 ::
    "recent_module \<Rightarrow> xt_recent_mtinfo \<Rightarrow> recent_table_32 recent_net \<Rightarrow> recent_table_32 recent_net run" where
  "recent_mt_destroy_32 md info net =
     (case recent_table_lookup (tables net) (i_name info) of
        None \<Rightarrow> Fault
      | Some t \<Rightarrow>
          (let t = t\<lparr>k_refcnt := k_refcnt t - 1\<rparr>
           in if k_refcnt t = 0
              then (case proc_files net of
                      None \<Rightarrow> Fault
                    | Some fs \<Rightarrow> run_bind (recent_table_flush md t) (\<lambda>_.
                        Done (net\<lparr>tables := filter (\<lambda>x. k_name x \<noteq> k_name t) (tables net),
                          proc_files := Some (removeAll (k_name t) fs)\<rparr>)))
              else Done (set_table t net)))"

definition recent_proc_net_exit_32 :: "recent_table_32 recent_net \<Rightarrow> recent_table_32 recent_net" where
  "recent_proc_net_exit_32 net = net\<lparr>proc_files := None\<rparr>"

text \<open>\<open>BUG_ON\<close> stops the kernel when a table is left.\<close>

definition recent_net_exit_32 :: "recent_table_32 recent_net \<Rightarrow> recent_table_32 recent_net run" where
  "recent_net_exit_32 net = (if tables net \<noteq> [] then Fault else Done (recent_proc_net_exit_32 net))"

end
