(* ===== verification/Recent_Versions.thy ===== *)
theory Recent_Versions
  imports Recent_Net Xt_Recent_32
begin

text \<open>
  The three versions of the kernel module side by side. A table of an older version is embedded into the
  newer one's type; the operations commute with the embedding, so that the versions answer any sequence
  of events alike as long as the newer one is used the way the older one can be.
\<close>

abbreviation map_run :: "('a \<Rightarrow> 'b) \<Rightarrow> 'a run \<Rightarrow> 'b run" where
  "map_run f r \<equiv> run_bind r (\<lambda>x. Done (f x))"

abbreviation on_snd :: "('b \<Rightarrow> 'c) \<Rightarrow> 'a \<times> 'b \<Rightarrow> 'a \<times> 'c" where
  "on_snd f \<equiv> \<lambda>(a, b). (a, f b)"

definition map_net :: "('s \<Rightarrow> 't) \<Rightarrow> 's recent_net \<Rightarrow> 't recent_net" where
  "map_net f n = \<lparr>tables = map f (tables n), proc_files = proc_files n\<rparr>"

lemma map_net_fields [simp]:
  "tables (map_net f n) = map f (tables n)" "proc_files (map_net f n) = proc_files n"
  by (simp_all add: map_net_def)

lemmas bind_cases = option.case_distrib [where h = "\<lambda>r. run_bind r g" for g] if_distrib [where f = "\<lambda>r. run_bind r g" for g]
  proc_cmd.case_distrib [where h = "\<lambda>r. run_bind r g" for g] list.case_distrib [where h = "\<lambda>r. run_bind r g" for g]

section \<open>Embedding a table\<close>

text \<open>An embedding keeps the fields of 3.2.93 and commutes with their updates; then every operation that
  only works on those fields commutes with it.\<close>

locale embedding =
  fixes f :: "'a recent_table_32_scheme \<Rightarrow> 'b recent_table_32_scheme"
  assumes fields: "k_name (f t) = k_name t" "k_refcnt (f t) = k_refcnt t" "k_entries (f t) = k_entries t"
      "k_heap (f t) = k_heap t" "lru_list (f t) = lru_list t" "iphash (f t) = iphash t"
    and updates: "(f t)\<lparr>k_refcnt := r\<rparr> = f (t\<lparr>k_refcnt := r\<rparr>)" "(f t)\<lparr>k_entries := n\<rparr> = f (t\<lparr>k_entries := n\<rparr>)"
      "(f t)\<lparr>k_heap := h\<rparr> = f (t\<lparr>k_heap := h\<rparr>)" "(f t)\<lparr>lru_list := ps\<rparr> = f (t\<lparr>lru_list := ps\<rparr>)"
      "(f t)\<lparr>iphash := bs\<rparr> = f (t\<lparr>iphash := bs\<rparr>)"
begin

lemmas embed = fields updates

lemma deref: "deref (f t) p = Xt_Recent_Table.deref t p"
  by (simp add: deref_def embed)

lemma find_entry: "find_entry (f t) a family ttl ps = Xt_Recent_Table.find_entry t a family ttl ps"
  by (induction ps) (simp_all add: deref cong: if_cong)

lemma lookup: "recent_entry_lookup md (f t) a family ttl = recent_entry_lookup md t a family ttl"
  by (simp add: recent_entry_lookup_def embed find_entry cong: if_cong)

lemma remove: "recent_entry_remove (f t) p = map_run f (recent_entry_remove t p)"
  by (simp add: recent_entry_remove_def deref embed)

lemma reap: "recent_entry_reap (f t) time = map_run f (recent_entry_reap t time)"
  by (simp add: recent_entry_reap_def deref embed split: list.split)
    (auto simp: remove intro!: arg_cong [where f = "run_bind _"] ext)

lemma remove_entries: "remove_entries (f t) ps = map_run f (Xt_Recent_Table.remove_entries t ps)"
  by (induction ps arbitrary: t) (simp_all add: remove)

lemma flush_buckets: "flush_buckets (f t) is = map_run f (Xt_Recent_Table.flush_buckets t is)"
  by (induction "is" arbitrary: t) (simp_all add: remove_entries embed)

lemma flush: "recent_table_flush md (f t) = map_run f (recent_table_flush md t)"
  by (simp add: recent_table_flush_def flush_buckets)

lemma table_lookup: "recent_table_lookup (map f ts) n = map_option f (recent_table_lookup ts n)"
  by (simp add: recent_table_lookup_def find_map_eq embed)

lemma set_table: "set_table (f t) (map_net f n) = map_net f (Xt_Recent_Match.set_table t n)"
  by (simp add: set_table_def map_net_def embed)

text \<open>The operations of 3.16.43 on the fields of 3.2.93.\<close>

lemma init_316:
  "recent_entry_init_316 md jiffies mem (f t) a family ttl s =
   map_run (on_snd f) (recent_entry_init_316 md jiffies mem t a family ttl s)"
  by (cases mem; simp add: recent_entry_init_316_def embed remove Let_def case_prod_unfold bind_cases
      cong: if_cong list.case_cong)

lemma update_316: "recent_entry_update_316 md jiffies (f t) p s = map_run f (recent_entry_update_316 md jiffies t p s)"
  by (simp add: recent_entry_update_316_def deref embed)

lemma match_found_316:
  "match_found_316 md HZ jiffies info ttl (f t) p = map_run (on_snd f) (match_found_316 md HZ jiffies info ttl t p)"
  by (simp add: match_found_316_def deref embed remove reap update_316 Let_def case_prod_unfold bind_cases cong: if_cong)

lemma match_addr_316:
  "match_addr_316 md HZ jiffies mem family info a ttl (f t) =
   map_run (\<lambda>(ret, hot, t). (ret, hot, f t)) (match_addr_316 md HZ jiffies mem family info a ttl t)"
  by (simp add: match_addr_316_def lookup init_316 match_found_316 Let_def case_prod_unfold bind_cases
      cong: if_cong option.case_cong)

lemma write_stamps_316:
  "write_stamps_316 lib md jiffies mem n c e (f t) = map_run f (write_stamps_316 lib md jiffies mem n c e t)"
proof (induction lib md jiffies mem n c e t rule: write_stamps_316.induct)
  case (1 lib md jiffies mem n c e t)
  show ?case
    using 1 by (subst (1 2) write_stamps_316.simps) (cases e; auto simp: update_316 split: run.split option.split)
qed

lemma write_entry_316:
  "write_entry_316 lib md jiffies res cmd mem n c a family (f t) =
   map_run (on_snd f) (write_entry_316 lib md jiffies res cmd mem n c a family t)"
  by (simp add: write_entry_316_def restore_new_316_def lookup init_316 update_316 write_stamps_316 remove
      case_prod_unfold bind_cases cong: option.case_cong proc_cmd.case_cong)

lemma proc_write_316:
  "recent_mt_proc_write_316 lib md jiffies res stack ok input loff (f t) =
   map_run (on_snd f) (recent_mt_proc_write_316 lib md jiffies res stack ok input loff t)"
  by (simp add: recent_mt_proc_write_316_def Let_def flush write_entry_316 case_prod_unfold bind_cases
      cong: if_cong option.case_cong)

lemma destroy: "recent_mt_destroy md info (map_net f n) = map_run (map_net f) (recent_mt_destroy md info n)"
  by (simp add: recent_mt_destroy_def table_lookup Let_def embed flush set_table split: option.split)
    (simp add: map_net_def filter_map comp_def embed)

lemma net_exit: "recent_net_exit (map_net f n) = map_net f (recent_net_exit n)"
  by (simp add: recent_net_exit_def recent_proc_net_exit_def map_net_def)

lemma seq_start: "recent_seq_start md (f t) pos = recent_seq_start md t pos"
  by (simp add: recent_seq_start_def embed)

lemma seq_next: "recent_seq_next md (f t) = recent_seq_next md t"
  by (simp add: recent_seq_next_def embed cong: list.case_cong)

lemma read_file_316: "read_file_316 lib md (f t) = read_file_316 lib md t"
proof -
  have "seq_walk md (f t) n b = seq_walk md t n b" for n b
    by (induction n b rule: seq_walk.induct) (simp_all add: seq_next)
  moreover have "show_rows_316 lib md (f t) ps = show_rows_316 lib md t ps" for ps
    by (induction ps) (simp_all add: deref)
  ultimately show ?thesis by (simp add: read_file_316_def embed seq_start)
qed

end

text \<open>A table of 3.16.43 with rings of \<open>m + 1\<close> slots, and one of 3.2.93 with the mask \<open>a\<close>.\<close>

definition with_rings :: "byte \<Rightarrow> recent_table_316 \<Rightarrow> recent_table" where
  "with_rings m t = \<lparr>k_name = k_name t, k_refcnt = k_refcnt t, k_entries = k_entries t, k_heap = k_heap t,
     lru_list = lru_list t, iphash = iphash t, k_mask = k_mask t, nstamps_max_mask = m\<rparr>"

definition with_mask :: "nf_inet_addr \<Rightarrow> recent_table_32 \<Rightarrow> recent_table_316" where
  "with_mask a t = \<lparr>k_name = k_name t, k_refcnt = k_refcnt t, k_entries = k_entries t, k_heap = k_heap t,
     lru_list = lru_list t, iphash = iphash t, k_mask = a\<rparr>"

interpretation rings: embedding "with_rings m" for m
  by unfold_locales (simp_all add: with_rings_def)

interpretation masks: embedding "with_mask a" for a
  by unfold_locales (simp_all add: with_mask_def)

lemma with_rings_fields [simp]: "k_mask (with_rings m t) = k_mask t" "nstamps_max_mask (with_rings m t) = m"
  by (simp_all add: with_rings_def)

lemma with_mask_fields [simp]: "k_mask (with_mask a t) = a"
  by (simp add: with_mask_def)

section \<open>Rings of a power of two\<close>

text \<open>Where \<open>ip_pkt_list_tot\<close> is a power of two, the remainder is the bitwise and, and the operations of
  3.16.43 are those of 4.9.13 on tables with that many slots.\<close>

definition ring_size :: "recent_module \<Rightarrow> nat \<Rightarrow> bool" where
  "ring_size md k \<longleftrightarrow> k < 8 \<and> ip_pkt_list_tot md = 2 ^ k"

lemma ring_sizeD:
  assumes "ring_size md k"
  shows "unat (ip_pkt_list_tot md) = 2 ^ k" "ip_pkt_list_tot md \<noteq> 0" "unat (mask k :: byte) + 1 = 2 ^ k"
    "(2::nat) ^ k \<le> 128"
proof -
  have k: "k < 8" and t: "ip_pkt_list_tot md = 2 ^ k" using assms by (simp_all add: ring_size_def)
  note m = mask_facts [OF k]
  show "unat (mask k :: byte) + 1 = 2 ^ k" "(2::nat) ^ k \<le> 128" by (rule m)+
  have "(2 ^ k :: u32) = word_of_nat (2 ^ k)" by simp
  then have "unat (2 ^ k :: u32) = take_bit 32 (2 ^ k)" by (simp only: unsigned_of_nat) simp
  then show u: "unat (ip_pkt_list_tot md) = 2 ^ k" using k m(3) t by (simp add: take_bit_nat_eq_self)
  then show "ip_pkt_list_tot md \<noteq> 0" by auto
qed

lemma ring_slot:
  assumes "ring_size md k"
  shows "ucast (ucast (i :: byte) mod ip_pkt_list_tot md) = i AND mask k"
proof -
  note d = ring_sizeD [OF assms]
  have b: "unat (ucast i :: u32) = unat i"
    using unat_byte_less [of i] by (simp add: unsigned_ucast_eq take_bit_nat_eq_self del: unat_byte_less)
  have "unat (ucast i mod ip_pkt_list_tot md :: u32) = unat i mod 2 ^ k"
    by (simp add: unat_mod b d(1))
  moreover have "unat i mod 2 ^ k < 2 ^ k" by simp
  then have "unat i mod 2 ^ k < 256" using d(4) by linarith
  ultimately have "unat (ucast (ucast i mod ip_pkt_list_tot md :: u32) :: byte) = unat i mod 2 ^ k"
    by (simp add: unsigned_ucast_eq take_bit_nat_eq_self)
  also have "\<dots> = unat (i AND mask k)" using mask_facts(2) assms by (simp add: ring_size_def)
  finally show ?thesis by (simp only: word_unat_eq_iff)
qed

lemma stamp_316:
  assumes "ring_size md k"
  shows "stamp_entry_316 (ip_pkt_list_tot md) s e = stamp_entry (mask k) s e"
  by (simp add: stamp_entry_316_def stamp_entry_def ring_sizeD(2) [OF assms] ring_slot [OF assms])

lemma update_rings:
  assumes "ring_size md k"
  shows "recent_entry_update jiffies (with_rings (mask k) t) p s =
    map_run (with_rings (mask k)) (recent_entry_update_316 md jiffies t p s)"
  by (simp add: recent_entry_update_def recent_entry_update_316_def stamp_316 [OF assms] rings.deref rings.embed)

lemma init_rings:
  assumes "ring_size md k"
  shows "recent_entry_init md jiffies mem (with_rings (mask k) t) a family ttl s =
    map_run (on_snd (with_rings (mask k))) (recent_entry_init_316 md jiffies mem t a family ttl s)"
  by (cases mem; simp add: recent_entry_init_316_def recent_entry_init_def rings.embed rings.remove Let_def
      case_prod_unfold bind_cases ring_sizeD(1,2) [OF assms] ring_sizeD(3) [OF assms, simplified]
      del: upt_Suc cong: if_cong list.case_cong)

lemma match_found_rings:
  assumes "ring_size md k"
  shows "match_found HZ jiffies info ttl (with_rings (mask k) t) p =
    map_run (on_snd (with_rings (mask k))) (match_found_316 md HZ jiffies info ttl t p)"
  by (simp add: match_found_def match_found_316_def rings.deref rings.embed rings.remove rings.reap
      update_rings [OF assms] Let_def case_prod_unfold bind_cases cong: if_cong)

lemma match_rings:
  assumes "ring_size md k"
  shows "match_table md HZ jiffies mem family info skb (with_rings (mask k) t) =
    map_run (\<lambda>(ret, hot, t). (ret, hot, with_rings (mask k) t))
      (match_addr_316 md HZ jiffies mem family info (nf_inet_addr_mask (packet_addr family info skb) (k_mask t))
        (packet_ttl skb) t)"
  by (simp add: match_table_def match_addr_316_def rings.lookup init_rings [OF assms] match_found_rings [OF assms]
      Let_def case_prod_unfold bind_cases cong: if_cong option.case_cong)

lemma mt_rings:
  assumes "ring_size md k"
  shows "recent_mt md HZ jiffies mem family info skb (map_net (with_rings (mask k)) n) =
    map_run (\<lambda>(ret, hot, n). (ret, hot, map_net (with_rings (mask k)) n))
      (recent_mt_316 md HZ jiffies mem family info skb n)"
  by (simp add: recent_mt_def recent_mt_316_def rings.table_lookup rings.set_table match_rings [OF assms]
      Let_def case_prod_unfold split: option.split)

lemma write_stamps_rings:
  assumes "ring_size md k"
  shows "write_stamps lib jiffies mem n c e (with_rings (mask k) t) =
    map_run (with_rings (mask k)) (write_stamps_316 lib md jiffies mem n c e t)"
  using assms
proof (induction lib md jiffies mem n c e t rule: write_stamps_316.induct)
  case (1 lib md jiffies mem n c e t)
  note up = update_rings [OF 1(3)]
  show ?case
    using 1 by (subst write_stamps.simps, subst write_stamps_316.simps)
      (cases e; auto simp: up split: run.split option.split)
qed

lemma proc_write_rings:
  assumes "ring_size md k"
  shows "recent_mt_proc_write lib md jiffies res stack ok input loff (with_rings (mask k) t) =
    map_run (on_snd (with_rings (mask k))) (recent_mt_proc_write_316 lib md jiffies res stack ok input loff t)"
proof -
  have "write_entry lib md jiffies res cmd mem n c a family (with_rings (mask k) t) =
      map_run (on_snd (with_rings (mask k))) (write_entry_316 lib md jiffies res cmd mem n c a family t)"
    for cmd mem n c a family
    by (simp add: write_entry_def write_entry_316_def restore_new_def restore_new_316_def rings.lookup
        init_rings [OF assms] update_rings [OF assms] write_stamps_rings [OF assms] rings.remove
        case_prod_unfold bind_cases cong: option.case_cong proc_cmd.case_cong)
  then show ?thesis
    by (simp add: recent_mt_proc_write_def recent_mt_proc_write_316_def Let_def rings.flush case_prod_unfold
        bind_cases cong: if_cong option.case_cong)
qed

text \<open>The rows are the same when no index is 0, which it never is in 3.16.43; a byte less 1 and masked is
  the remainder in any case.\<close>

lemma last_slot:
  assumes "ring_size md k"
  shows "unat ((ucast (i :: byte) - 1) mod ip_pkt_list_tot md) = unat ((i - 1) AND mask k)"
proof -
  have k: "k < 8" using assms by (simp add: ring_size_def)
  have d: "(2::int) ^ k dvd 4294967296" "(2::int) ^ k dvd 256"
    using le_imp_power_dvd [of k 32 "2::int"] le_imp_power_dvd [of k 8 "2::int"] k by simp_all
  have i: "uint (ucast i :: u32) = uint i" using uint_bounded [of i] by (simp add: unsigned_ucast_eq take_bit_int_eq_self_iff)
  have "uint (take_bit k (ucast i - 1 :: u32)) = take_bit k (uint i - 1)"
    by (simp add: unsigned_take_bit_eq uint_word_ariths i) (simp add: take_bit_eq_mod mod_mod_cancel d)
  moreover have "uint (take_bit k (i - 1)) = take_bit k (uint i - 1)"
    by (simp add: unsigned_take_bit_eq uint_word_ariths) (simp add: take_bit_eq_mod mod_mod_cancel d)
  ultimately have "uint (take_bit k (ucast i - 1 :: u32)) = uint (take_bit k (i - 1))" by simp
  then have "unat (take_bit k (ucast i - 1 :: u32)) = unat (take_bit k (i - 1))" by (simp flip: nat_uint_eq)
  then show ?thesis using assms by (simp add: ring_size_def take_bit_eq_mask flip: take_bit_eq_mod)
qed

lemma show_rings:
  assumes "ring_size md k"
  shows "recent_seq_show lib (with_rings (mask k) t) e = recent_seq_show_316 lib md e"
  by (simp add: recent_seq_show_def recent_seq_show_316_def last_slot [OF assms] ring_sizeD(2) [OF assms] Let_def)

lemma read_rings:
  assumes "ring_size md k"
  shows "read_file lib md (with_rings (mask k) t) = read_file_316 lib md t"
proof -
  have "show_rows lib (with_rings (mask k) t) ps = show_rows_316 lib md (with_rings (mask k) t) ps" for ps
    by (induction ps) (simp_all add: show_rings [OF assms])
  then show ?thesis unfolding rings.read_file_316 [of lib md "mask k", symmetric]
    by (simp add: read_file_def read_file_316_def)
qed

lemma roundup_power: "roundup_pow_of_two (2 ^ k) = 2 ^ k"
proof (induction k)
  case (Suc k)
  have "\<not> (2::nat) ^ Suc k \<le> 1" using one_less_power [of "2::nat" "Suc k"] by (simp add: not_le)
  moreover have "(2 ^ Suc k + 1) div 2 = (2::nat) ^ k" by simp
  ultimately show ?case using Suc.IH by (subst roundup_pow_of_two.simps) simp
qed (simp add: roundup_pow_of_two.simps)

lemma check_rings:
  assumes "ring_size md k" and "i_hit_count info \<le> ip_pkt_list_tot md"
  shows "recent_mt_check md mem_ok ids_ok proc_ok info (map_net (with_rings (mask k)) n) =
    map_run (on_snd (map_net (with_rings (mask k)))) (recent_mt_check_316 md mem_ok ids_ok proc_ok info n)"
proof -
  note d = ring_sizeD [OF assms(1)]
  have "unat (i_hit_count info) \<le> 128" using assms(2) d(1,4) by (simp add: word_le_nat_alt)
  then have hit: "\<not> XT_RECENT_MAX_NSTAMPS \<le> i_hit_count info" "\<not> ip_pkt_list_tot md < i_hit_count info"
    using assms(2) by (simp_all add: XT_RECENT_MAX_NSTAMPS_def word_le_nat_alt word_less_nat_alt)
  then have rej: "check_rejects info = check_rejects_316 md info"
    by (simp add: check_rejects_def check_rejects_316_def Let_def)
  have "i_hit_count info = ip_pkt_list_tot md" if "\<not> i_hit_count info < ip_pkt_list_tot md"
    using that assms(2) by simp
  then have "nstamp_mask_of md info = 2 ^ k - 1"
    using d by (auto simp: nstamp_mask_of_def roundup_power)
  then have size: "nstamp_mask_of md info = unat (mask k :: byte)" using d(3) by simp
  have "new_recent_table md info (mask k) = with_rings (mask k) (new_recent_table_316 md info)"
    by (simp add: new_recent_table_def new_recent_table_316_def with_rings_def)
  note eq = this and defs = recent_mt_check_def recent_mt_check_316_def
  show ?thesis
  proof (cases "recent_table_lookup (tables n) (i_name info)")
    case None
    with eq show ?thesis by (simp add: defs rej size rings.table_lookup rings.embed Let_def)
  next
    case (Some t)
    then show ?thesis by (simp add: defs rej size rings.table_lookup rings.embed rings.set_table Let_def)
  qed
qed

section \<open>Sequences of events\<close>

datatype kernel_event =
    Add_rule xt_recent_mtinfo bool bool bool
  | Remove_rule xt_recent_mtinfo
  | Packet_in xt_recent_mtinfo nfproto sk_buff u32 u64 "(ptr \<times> (nat \<Rightarrow> u64)) option"
  | Write_file string u64 "(ptr \<times> (nat \<Rightarrow> u64)) option" string bool string nat
  | Read_file string
  | End_net

datatype kernel_answer = Checked "errno + unit" | Rule_gone | Verdict bool bool | Written "errno + nat"
  | File_rows "string list" | No_file | Net_gone

definition file_table :: "string \<Rightarrow> ('a recent_table_32_scheme) recent_net \<Rightarrow> ('a recent_table_32_scheme) option" where
  "file_table name n =
     (case proc_files n of
        None \<Rightarrow> None
      | Some fs \<Rightarrow> if name \<in> set fs then recent_table_lookup (tables n) name else None)"

fun exec_49 ::
    "kernel_lib \<Rightarrow> recent_module \<Rightarrow> kernel_event \<Rightarrow> recent_table recent_net \<Rightarrow>
     (kernel_answer \<times> recent_table recent_net) run" where
  "exec_49 lib md (Add_rule info mem_ok ids_ok proc_ok) n =
     run_bind (recent_mt_check_v1 md mem_ok ids_ok proc_ok info n) (\<lambda>(r, n). Done (Checked r, n))"
| "exec_49 lib md (Remove_rule info) n = run_bind (recent_mt_destroy md info n) (\<lambda>n. Done (Rule_gone, n))"
| "exec_49 lib md (Packet_in info family skb HZ jiffies mem) n =
     run_bind (recent_mt md HZ jiffies mem family info skb n) (\<lambda>(ret, hot, n). Done (Verdict ret hot, n))"
| "exec_49 lib md (Write_file name jiffies mem stack copy_ok input loff) n =
     (case file_table name n of
        None \<Rightarrow> Done (No_file, n)
      | Some t \<Rightarrow> run_bind (recent_mt_proc_write lib md jiffies mem stack copy_ok input loff t)
          (\<lambda>(r, t). Done (Written r, set_table t n)))"
| "exec_49 lib md (Read_file name) n =
     (case file_table name n of
        None \<Rightarrow> Done (No_file, n)
      | Some t \<Rightarrow> run_bind (read_file lib md t) (\<lambda>rows. Done (File_rows rows, n)))"
| "exec_49 lib md End_net n = Done (Net_gone, recent_net_exit n)"

fun exec_316 ::
    "kernel_lib \<Rightarrow> recent_module \<Rightarrow> kernel_event \<Rightarrow> recent_table_316 recent_net \<Rightarrow>
     (kernel_answer \<times> recent_table_316 recent_net) run" where
  "exec_316 lib md (Add_rule info mem_ok ids_ok proc_ok) n =
     run_bind (recent_mt_check_v1_316 md mem_ok ids_ok proc_ok info n) (\<lambda>(r, n). Done (Checked r, n))"
| "exec_316 lib md (Remove_rule info) n = run_bind (recent_mt_destroy md info n) (\<lambda>n. Done (Rule_gone, n))"
| "exec_316 lib md (Packet_in info family skb HZ jiffies mem) n =
     run_bind (recent_mt_316 md HZ jiffies mem family info skb n) (\<lambda>(ret, hot, n). Done (Verdict ret hot, n))"
| "exec_316 lib md (Write_file name jiffies mem stack copy_ok input loff) n =
     (case file_table name n of
        None \<Rightarrow> Done (No_file, n)
      | Some t \<Rightarrow> run_bind (recent_mt_proc_write_316 lib md jiffies mem stack copy_ok input loff t)
          (\<lambda>(r, t). Done (Written r, set_table t n)))"
| "exec_316 lib md (Read_file name) n =
     (case file_table name n of
        None \<Rightarrow> Done (No_file, n)
      | Some t \<Rightarrow> run_bind (read_file_316 lib md t) (\<lambda>rows. Done (File_rows rows, n)))"
| "exec_316 lib md End_net n = Done (Net_gone, recent_net_exit n)"

fun exec_32 ::
    "kernel_lib \<Rightarrow> recent_module \<Rightarrow> kernel_event \<Rightarrow> recent_table_32 recent_net \<Rightarrow>
     (kernel_answer \<times> recent_table_32 recent_net) run" where
  "exec_32 lib md (Add_rule info mem_ok ids_ok proc_ok) n =
     run_bind (recent_mt_check_32 md mem_ok proc_ok info n) (\<lambda>(r, n). Done (Checked r, n))"
| "exec_32 lib md (Remove_rule info) n = run_bind (recent_mt_destroy_32 md info n) (\<lambda>n. Done (Rule_gone, n))"
| "exec_32 lib md (Packet_in info family skb HZ jiffies mem) n =
     run_bind (recent_mt_32 md HZ jiffies mem family info skb n) (\<lambda>(ret, hot, n). Done (Verdict ret hot, n))"
| "exec_32 lib md (Write_file name jiffies mem stack copy_ok input loff) n =
     (case file_table name n of
        None \<Rightarrow> Done (No_file, n)
      | Some t \<Rightarrow> run_bind (recent_mt_proc_write_316 lib md jiffies mem stack copy_ok input loff t)
          (\<lambda>(r, t). Done (Written r, set_table t n)))"
| "exec_32 lib md (Read_file name) n =
     (case file_table name n of
        None \<Rightarrow> Done (No_file, n)
      | Some t \<Rightarrow> run_bind (read_file_316 lib md t) (\<lambda>rows. Done (File_rows rows, n)))"
| "exec_32 lib md End_net n = run_bind (recent_net_exit_32 n) (\<lambda>n. Done (Net_gone, n))"

fun run_events :: "('e \<Rightarrow> 's \<Rightarrow> ('a \<times> 's) run) \<Rightarrow> 'e list \<Rightarrow> 's \<Rightarrow> ('a list \<times> 's) run" where
  "run_events step [] s = Done ([], s)"
| "run_events step (e # es) s =
     run_bind (step e s) (\<lambda>(a, s). run_bind (run_events step es s) (\<lambda>(as, s). Done (a # as, s)))"

lemma run_events_append:
  "run_events step (es @ es') s =
   run_bind (run_events step es s) (\<lambda>(as, s). run_bind (run_events step es' s) (\<lambda>(as', s). Done (as @ as', s)))"
proof (induction es arbitrary: s)
  case Nil
  show ?case by (cases "run_events step es' s") simp_all
qed (simp add: case_prod_unfold)

text \<open>Two versions in lockstep: the older one's step gives the newer one's, on the embedded state.\<close>

locale lockstep =
  fixes older :: "'e \<Rightarrow> 's \<Rightarrow> ('a \<times> 's) run" and newer :: "'e \<Rightarrow> 't \<Rightarrow> ('a \<times> 't) run"
    and embed :: "'s \<Rightarrow> 't" and ok :: "'s \<Rightarrow> bool" and fits :: "'e \<Rightarrow> bool"
  assumes step: "ok s \<Longrightarrow> fits e \<Longrightarrow> newer e (embed s) = map_run (on_snd embed) (older e s)"
    and keeps: "ok s \<Longrightarrow> fits e \<Longrightarrow> older e s = Done (a, s') \<Longrightarrow> ok s'"
begin

lemma same_answers:
  "ok s \<Longrightarrow> list_all fits es \<Longrightarrow>
   run_events newer es (embed s) = map_run (on_snd embed) (run_events older es s)"
proof (induction es arbitrary: s)
  case (Cons e es)
  show ?case
  proof (cases "older e s")
    case (Done x)
    obtain a s' where x: "x = (a, s')" by force
    then have "ok s'" using keeps [OF Cons.prems(1), of e a s'] Cons.prems(2) Done by simp
    with Cons.IH [of s'] Cons.prems Done x show ?thesis by (simp add: step case_prod_unfold)
  qed (use Cons.prems in \<open>simp_all add: step\<close>)
qed simp

end

definition fits_316 :: "recent_module \<Rightarrow> kernel_event \<Rightarrow> bool" where
  "fits_316 md e = (case e of Add_rule info _ _ _ \<Rightarrow> i_hit_count info \<le> ip_pkt_list_tot md | _ \<Rightarrow> True)"

lemma file_rings: "file_table name (map_net (with_rings m) n) = map_option (with_rings m) (file_table name n)"
  by (simp add: file_table_def rings.table_lookup split: option.split)

lemma step_rings:
  assumes "ring_size md k" and "fits_316 md e"
  shows "exec_49 lib md e (map_net (with_rings (mask k)) n) =
    map_run (on_snd (map_net (with_rings (mask k)))) (exec_316 lib md e n)"
proof (cases e)
  case (Add_rule info a b c)
  with assms(2) have "i_hit_count info \<le> ip_pkt_list_tot md" by (simp add: fits_316_def)
  note check_rings [OF assms(1) this]
  with Add_rule show ?thesis
    by (simp add: recent_mt_check_v1_def recent_mt_check_v1_316_def case_prod_unfold)
next
  case (Write_file name jiffies mem stack ok input loff)
  then show ?thesis
    by (simp add: file_rings proc_write_rings [OF assms(1)] rings.set_table case_prod_unfold split: option.split)
next
  case (Read_file name)
  then show ?thesis by (simp add: file_rings read_rings [OF assms(1)] split: option.split)
qed (simp_all add: rings.destroy rings.net_exit mt_rings [OF assms(1)] case_prod_unfold)

interpretation v316: lockstep "exec_316 lib md" "exec_49 lib md" "map_net (with_rings (mask k))"
    "\<lambda>_. ring_size md k" "fits_316 md" for lib md k
  by unfold_locales (auto intro: step_rings)

section \<open>Rules without a mask\<close>

definition all_bits :: nf_inet_addr where
  "all_bits = replicate 16 0xFF"

definition fits_32 :: "kernel_event \<Rightarrow> bool" where
  "fits_32 e = (case e of
     Add_rule info _ ids_ok _ \<Rightarrow> i_mask info = all_bits \<and> ids_ok
   | Packet_in info family skb _ _ _ \<Rightarrow> length (packet_addr family info skb) = 16
   | End_net \<Rightarrow> False
   | _ \<Rightarrow> True)"

definition has_directory :: "'t recent_net \<Rightarrow> bool" where
  "has_directory n \<longleftrightarrow> proc_files n \<noteq> None"

lemma and_255: "x AND 255 = (x :: byte)"
proof -
  have "(255 :: byte) = - 1" by simp
  then show ?thesis by (metis and.right_neutral)
qed

lemma masked_all: "length a = 16 \<Longrightarrow> nf_inet_addr_mask a all_bits = a"
  by (rule nth_equalityI) (simp_all add: nf_inet_addr_mask_def all_bits_def and_255)

lemma mt_masks:
  assumes "length (packet_addr family info skb) = 16"
  shows "recent_mt_316 md HZ jiffies mem family info skb (map_net (with_mask all_bits) n) =
    map_run (\<lambda>(ret, hot, n). (ret, hot, map_net (with_mask all_bits) n)) (recent_mt_32 md HZ jiffies mem family info skb n)"
proof -
  have "recent_mt_32 md HZ jiffies mem family info skb n =
    (case recent_table_lookup (tables n) (i_name info) of
       None \<Rightarrow> Fault
     | Some t \<Rightarrow> run_bind (match_addr_316 md HZ jiffies mem family info (packet_addr family info skb) (packet_ttl skb) t)
         (\<lambda>(ret, hot, t). Done (ret, hot, set_table t n)))"
    by (simp add: recent_mt_32_def match_addr_316_def Let_def split: option.split)
  then show ?thesis
    by (simp add: recent_mt_316_def masks.table_lookup masks.set_table masks.match_addr_316
        masked_all [OF assms] Let_def case_prod_unfold split: option.split)
qed

lemma check_masks:
  assumes "i_mask info = all_bits"
  shows "recent_mt_check_316 md mem_ok True proc_ok info (map_net (with_mask all_bits) n) =
    map_run (on_snd (map_net (with_mask all_bits))) (recent_mt_check_32 md mem_ok proc_ok info n)"
proof -
  have eq: "new_recent_table_316 md info = with_mask all_bits (new_recent_table_32 md info)"
    using assms by (simp add: new_recent_table_316_def new_recent_table_32_def with_mask_def)
  note defs = recent_mt_check_32_def recent_mt_check_316_def
  show ?thesis
  proof (cases "recent_table_lookup (tables n) (i_name info)")
    case None
    with eq show ?thesis by (simp add: defs masks.table_lookup masks.embed Let_def)
  next
    case (Some t)
    then show ?thesis by (simp add: defs masks.table_lookup masks.embed masks.set_table Let_def)
  qed
qed

lemma destroy_32: "has_directory n \<Longrightarrow> recent_mt_destroy_32 md info n = recent_mt_destroy md info n"
  by (auto simp: has_directory_def recent_mt_destroy_32_def recent_mt_destroy_def Let_def split: option.split)

lemma file_masks: "file_table name (map_net (with_mask a) n) = map_option (with_mask a) (file_table name n)"
  by (simp add: file_table_def masks.table_lookup split: option.split)

lemma step_masks:
  assumes "has_directory n" and "fits_32 e"
  shows "exec_316 lib md e (map_net (with_mask all_bits) n) =
    map_run (on_snd (map_net (with_mask all_bits))) (exec_32 lib md e n)"
proof (cases e)
  case (Add_rule info a b c)
  with assms(2) have "i_mask info = all_bits" "b" by (simp_all add: fits_32_def)
  note check_masks [OF this(1)] this
  with Add_rule show ?thesis by (simp add: recent_mt_check_v1_316_def case_prod_unfold)
next
  case (Packet_in info family skb HZ jiffies mem)
  with assms(2) have "length (packet_addr family info skb) = 16" by (simp add: fits_32_def)
  from mt_masks [OF this] Packet_in show ?thesis by (simp add: case_prod_unfold)
next
  case (Write_file name jiffies mem stack ok input loff)
  then show ?thesis
    by (simp add: file_masks masks.proc_write_316 masks.set_table case_prod_unfold split: option.split)
next
  case (Read_file name)
  then show ?thesis by (simp add: file_masks masks.read_file_316 split: option.split)
next
  case End_net
  with assms(2) show ?thesis by (simp add: fits_32_def)
qed (simp add: destroy_32 [OF assms(1)] masks.destroy)

lemma set_table_directory [simp]: "has_directory (set_table t n) = has_directory n"
  by (simp add: has_directory_def set_table_def)

lemma keeps_directory:
  assumes "has_directory n" and "fits_32 e" and "exec_32 lib md e n = Done (a, n')"
  shows "has_directory n'"
proof (cases e)
  case (Remove_rule info)
  with assms show ?thesis
    by (auto simp: run_bind_Done destroy_32 recent_mt_destroy_def Let_def split: option.splits if_splits)
      (auto simp: has_directory_def)
next
  case (Add_rule info a b c)
  with assms show ?thesis
    by (auto simp: run_bind_Done recent_mt_check_32_def Let_def split: option.splits if_splits)
      (auto simp: has_directory_def)
qed (use assms in \<open>auto simp: run_bind_Done recent_mt_32_def recent_net_exit_32_def recent_proc_net_exit_32_def
      fits_32_def Let_def split: option.splits if_splits\<close>)

interpretation v32: lockstep "exec_32 lib md" "exec_316 lib md" "map_net (with_mask all_bits)" has_directory fits_32
  for lib md
  by unfold_locales (auto intro: step_masks keeps_directory)

section \<open>Rings of any size\<close>

text \<open>Any number of slots up to 255, 20 where nothing is configured.\<close>

fun update_all_316 ::
    "recent_module \<Rightarrow> (u64 \<times> u64 option) list \<Rightarrow> 'a recent_table_32_scheme \<Rightarrow> ptr \<Rightarrow> ('a recent_table_32_scheme) run" where
  "update_all_316 md [] t p = Done t"
| "update_all_316 md ((jiffies, s) # us) t p =
     run_bind (recent_entry_update_316 md jiffies t p s) (\<lambda>t. update_all_316 md us t p)"

definition stamp_of :: "u64 \<times> u64 option \<Rightarrow> u64" where
  "stamp_of = (\<lambda>(jiffies, s). case s of None \<Rightarrow> jiffies | Some s \<Rightarrow> s)"

lemma stamp_316_ring:
  assumes "ring_n (unat tot) e" and "0 < tot" and "tot \<le> 255"
  shows "\<exists>e'. stamp_entry_316 tot s e = Done e' \<and> ring_n (unat tot) e' \<and>
    recent_stamps e' = last_n (unat tot) (recent_stamps e @ [s])"
proof -
  let ?i = "ucast (ucast (k_index e) mod tot) :: byte"
  have tot: "0 < unat tot" "unat tot \<le> 255" using assms(2,3) by (simp_all add: word_less_nat_alt word_le_nat_alt)
  have b: "unat (ucast (k_index e) :: u32) = unat (k_index e)"
    using unat_byte_less [of "k_index e"] by (simp add: unsigned_ucast_eq take_bit_nat_eq_self del: unat_byte_less)
  have m: "unat (ucast (k_index e) mod tot :: u32) = unat (k_index e) mod unat tot" by (simp add: unat_mod b)
  have "unat (k_index e) mod unat tot < 256" using tot mod_less_divisor [OF tot(1), of "unat (k_index e)"] by linarith
  then have i: "unat ?i = unat (k_index e) mod unat tot" by (simp add: unsigned_ucast_eq take_bit_nat_eq_self m)
  then have "unat ?i < length (k_stamps e)" using assms(1) tot by (simp add: ring_n_def)
  then have "stamp_entry_316 tot s e = Done (stamped_at ?i s e)"
    using assms(2) by (simp add: stamp_entry_316_def stamped_at_def Let_def)
  with stamped_at_ring [OF assms(1) tot(2) i, of s] show ?thesis by simp
qed

lemma last_n_step: "last_n n (last_n n xs @ ys) = last_n n (xs @ ys)"
  by (rule last_n_last_n)

lemma update_all_316_ring:
  assumes "0 < ip_pkt_list_tot md" and "ip_pkt_list_tot md \<le> 255"
    and "k_heap t p = Some e" and "ring_n (unat (ip_pkt_list_tot md)) e"
    and "recent_stamps e = last_n (unat (ip_pkt_list_tot md)) ss"
  shows "\<exists>t' e'. update_all_316 md us t p = Done t' \<and> k_heap t' p = Some e' \<and>
    ring_n (unat (ip_pkt_list_tot md)) e' \<and>
    recent_stamps e' = last_n (unat (ip_pkt_list_tot md)) (ss @ map stamp_of us)"
  using assms(3-5)
proof (induction us arbitrary: t e ss)
  case (Cons u us)
  obtain j s where u: "u = (j, s)" by force
  from stamp_316_ring [OF Cons.prems(2) assms(1,2), of "stamp_of u"] obtain e1 where
    e1: "stamp_entry_316 (ip_pkt_list_tot md) (stamp_of u) e = Done e1" "ring_n (unat (ip_pkt_list_tot md)) e1"
      "recent_stamps e1 = last_n (unat (ip_pkt_list_tot md)) (ss @ [stamp_of u])"
    by (auto simp: Cons.prems(3) last_n_step)
  let ?t = "t\<lparr>k_heap := (k_heap t)(p \<mapsto> e1), lru_list := remove1 p (lru_list t) @ [p]\<rparr>"
  have "recent_entry_update_316 md j t p s = Done ?t"
    using e1(1) by (simp add: recent_entry_update_316_def deref_Some [OF Cons.prems(1)] stamp_of_def u)
  moreover have "k_heap ?t p = Some e1" by simp
  ultimately show ?case using Cons.IH [OF _ e1(2,3), of ?t] by (simp add: u)
qed simp

lemma init_316_entry:
  assumes "recent_entry_init_316 md jiffies (Some (p, old)) t a family ttl s = Done (Some p, t')"
  shows "k_heap t' p = Some \<lparr>k_addr = a, k_family = family, k_ttl = ttl, k_index = 1, k_nstamps = 1,
    k_stamps = (map old [0..<unat (ip_pkt_list_tot md)])[0 := stamp_of (jiffies, s)]\<rparr>"
  using assms by (auto simp: recent_entry_init_316_def Let_def run_bind_Done stamp_of_def split: if_splits)

section \<open>Properties\<close>

definition sample_316_module :: recent_module where
  "sample_316_module = sample_module\<lparr>ip_pkt_list_tot := 32\<rparr>"

definition sample_events :: "kernel_event list" where
  "sample_events =
     [Add_rule (sample_rule [XT_RECENT_SET] False) True True True,
      Packet_in (sample_rule [XT_RECENT_SET] False) NFPROTO_IPV4 sample_skb 250 5000 (Some (3, \<lambda>_. 0))]"

lemma sample_accepted_316: "\<not> check_rejects_316 sample_316_module (sample_rule [XT_RECENT_SET] False)"
  by (simp add: check_rejects_316_def sample_rule_def sample_316_module_def XT_RECENT_NAME_LEN_def)

lemma sample_run_32:
  "\<exists>n. run_events (exec_32 lib sample_316_module) sample_events \<lparr>tables = [], proc_files = Some []\<rparr> =
     Done ([Checked (Inr ()), Verdict True False], n) \<and> tables n \<noteq> []"
proof -
  let ?r = "sample_rule [XT_RECENT_SET] False" and ?t = "new_recent_table_32 sample_316_module (sample_rule [XT_RECENT_SET] False)"
  let ?n = "\<lparr>tables = [?t], proc_files = Some [''web'']\<rparr>"
  have name: "k_name ?t = ''web''" "i_name ?r = ''web''" by (simp_all add: new_recent_table_32_def sample_rule_def)
  have check: "recent_mt_check_32 sample_316_module True True ?r \<lparr>tables = [], proc_files = Some []\<rparr> = Done (Inr (), ?n)"
    using sample_accepted_316 name by (simp add: recent_mt_check_32_def recent_table_lookup_def Let_def)
  have t: "iphash ?t = replicate 128 []" "k_entries ?t = 0" "lru_list ?t = []"
    by (simp_all add: new_recent_table_32_def sample_316_module_def sample_module_def)
  have bucket: "entry_bucket sample_316_module (packet_addr NFPROTO_IPV4 ?r sample_skb) NFPROTO_IPV4 = 10"
    by (simp add: entry_bucket_def recent_entry_hash4_def sample_316_module_def sample_module_def packet_addr_def
        sample_rule_def sample_skb_def ipv4_addr_def)
  have flags: "i_check_set ?r = [XT_RECENT_SET]" "\<not> i_invert ?r" by (simp_all add: sample_rule_def)
  have "ip_list_tot sample_316_module = 100" "ip_pkt_list_tot sample_316_module = 32"
    by (simp_all add: sample_316_module_def sample_module_def)
  with t bucket flags name
  have "\<exists>n. recent_mt_32 sample_316_module 250 5000 (Some (3, \<lambda>_. 0)) NFPROTO_IPV4 ?r sample_skb ?n =
      Done (True, False, n) \<and> tables n \<noteq> []"
    by (simp add: recent_mt_32_def recent_table_lookup_def recent_entry_lookup_def recent_entry_init_316_def
        set_table_def Let_def)
  with check show ?thesis by (auto simp: sample_events_def)
qed

lemma sample_fits: "list_all fits_32 sample_events" "list_all (fits_316 sample_316_module) sample_events"
    "ring_size sample_316_module 5"
  by (simp_all add: sample_events_def fits_32_def fits_316_def sample_rule_def all_bits_def packet_addr_def
      ipv4_addr_def sample_skb_def ring_size_def sample_316_module_def)

lemma empty_net: "map_net f \<lparr>tables = [], proc_files = Some []\<rparr> = \<lparr>tables = [], proc_files = Some []\<rparr>"
  by (simp add: map_net_def)

lemma sample_run_316:
  "\<exists>n. run_events (exec_316 lib sample_316_module) sample_events \<lparr>tables = [], proc_files = Some []\<rparr> =
     Done ([Checked (Inr ()), Verdict True False], n)"
proof -
  have "has_directory \<lparr>tables = [], proc_files = Some []\<rparr>" by (simp add: has_directory_def)
  from v32.same_answers [OF this sample_fits(1), of lib sample_316_module] sample_run_32 [of lib] show ?thesis
    by (auto simp: empty_net)
qed

text \<open>C13: where \<open>ip_pkt_list_tot\<close> is a power of two, the modules of 3.16.43 and 4.9.13 give the same
  answers to any sequence of rules, packets, reads, writes and ends of the namespace, as long as no rule
  counts more hits than the parameter says: neither a verdict nor a row of a file nor a fault tells them
  apart.\<close>

theorem kernel_versions_agree:
  assumes "ring_size md k" and "list_all (fits_316 md) es"
  shows "run_events (exec_49 lib md) es (map_net (with_rings (mask k)) n) =
    map_run (on_snd (map_net (with_rings (mask k)))) (run_events (exec_316 lib md) es n)"
  using assms by (rule v316.same_answers)

text \<open>A rule is added and its first packet arrives.\<close>

theorem kernel_versions_agree_witness:
  "\<exists>n. run_events (exec_49 sample_lib sample_316_module) sample_events \<lparr>tables = [], proc_files = Some []\<rparr> =
     Done ([Checked (Inr ()), Verdict True False], n)"
  using kernel_versions_agree [OF sample_fits(3,2), of sample_lib "\<lparr>tables = [], proc_files = Some []\<rparr>"]
    sample_run_316 [of sample_lib] by (auto simp: empty_net)

text \<open>C14: the modules of 3.2.93 and 3.16.43 give the same answers to any sequence of rules, packets,
  reads and writes of a namespace when the rules of the newer one compare all bits of an address, its
  files get a valid owner, and the packets have whole addresses (\<open>fits_32\<close>). When the namespace then
  ends, they still agree if no table is left; with a table left the older one stops at its \<open>BUG_ON\<close>
  where the newer one goes on.\<close>

theorem masks_of_all_bits_agree:
  assumes "proc_files n \<noteq> None" and "list_all fits_32 es"
  shows "run_events (exec_316 lib md) es (map_net (with_mask all_bits) n) =
      map_run (on_snd (map_net (with_mask all_bits))) (run_events (exec_32 lib md) es n) \<and>
    (\<forall>as n'. run_events (exec_32 lib md) es n = Done (as, n') \<longrightarrow>
      run_events (exec_316 lib md) (es @ [End_net]) (map_net (with_mask all_bits) n) =
        Done (as @ [Net_gone], map_net (with_mask all_bits) (recent_net_exit n')) \<and>
      run_events (exec_32 lib md) (es @ [End_net]) n =
        (if tables n' = [] then Done (as @ [Net_gone], recent_net_exit n') else Fault))"
proof -
  have "has_directory n" using assms(1) by (simp add: has_directory_def)
  note v32.same_answers [OF this assms(2), of lib md]
  then show ?thesis
    by (simp add: run_events_append masks.net_exit recent_net_exit_32_def recent_net_exit_def
        recent_proc_net_exit_def recent_proc_net_exit_32_def)
qed

text \<open>A rule is added and its first packet arrives; the end of the namespace stops the older kernel.\<close>

theorem masks_of_all_bits_agree_witness:
  "\<exists>n n'. run_events (exec_316 sample_lib sample_316_module) sample_events \<lparr>tables = [], proc_files = Some []\<rparr> =
       Done ([Checked (Inr ()), Verdict True False], n) \<and>
     run_events (exec_316 sample_lib sample_316_module) (sample_events @ [End_net]) \<lparr>tables = [], proc_files = Some []\<rparr> =
       Done ([Checked (Inr ()), Verdict True False, Net_gone], n') \<and>
     run_events (exec_32 sample_lib sample_316_module) (sample_events @ [End_net]) \<lparr>tables = [], proc_files = Some []\<rparr> =
       Fault"
proof -
  obtain n where n: "run_events (exec_32 sample_lib sample_316_module) sample_events \<lparr>tables = [], proc_files = Some []\<rparr> =
      Done ([Checked (Inr ()), Verdict True False], n)" and "tables n \<noteq> []"
    using sample_run_32 by blast
  with masks_of_all_bits_agree [OF _ sample_fits(1), of "\<lparr>tables = [], proc_files = Some []\<rparr>" sample_lib sample_316_module]
  show ?thesis by (auto simp: empty_net)
qed

text \<open>In 3.16.43 and 3.2.93, for every \<open>ip_pkt_list_tot\<close> that the module accepts, an entry holds the
  last \<open>ip_pkt_list_tot\<close> of its stamps in order after any number of updates, and no update leaves the
  memory of the entry.\<close>

theorem old_ring_keeps_last_stamps:
  assumes "recent_mt_init_316 md0 = Done (Inr md)"
    and "recent_entry_init_316 md jiffies (Some (p, old)) t a family ttl s = Done (Some p, t1)"
  shows "\<exists>t2 e. update_all_316 md us t1 p = Done t2 \<and> k_heap t2 p = Some e \<and>
    recent_stamps e = last_n (unat (ip_pkt_list_tot md)) (map stamp_of ((jiffies, s) # us))"
proof -
  have tot: "0 < ip_pkt_list_tot md" "ip_pkt_list_tot md \<le> 255"
    using assms(1) by (auto simp: recent_mt_init_316_def word_gt_0 split: if_splits)
  then have "0 < unat (ip_pkt_list_tot md)" by (simp add: word_less_nat_alt)
  note e = init_316_entry [OF assms(2)]
  let ?ss = "map old [0..<unat (ip_pkt_list_tot md)]"
  have "take 1 (?ss[0 := stamp_of (jiffies, s)]) = [stamp_of (jiffies, s)]"
    using \<open>0 < unat _\<close> by (simp add: upt_rec [of 0] take_Cons')
  with update_all_316_ring [OF tot e, of "[stamp_of (jiffies, s)]" us] \<open>0 < unat _\<close> show ?thesis
    by (auto simp: ring_n_def recent_stamps_def last_n_def Suc_le_eq)
qed

text \<open>Three slots and five stamps.\<close>

theorem old_ring_keeps_last_stamps_witness:
  "\<exists>t1 t2 e. recent_entry_init_316 (sample_module\<lparr>ip_pkt_list_tot := 3\<rparr>) 1 (Some (7, \<lambda>_. 0))
       (new_recent_table_32 sample_module (sample_rule [XT_RECENT_SET] False)) (ipv4_addr [10, 0, 0, 1]) NFPROTO_IPV4 64 None
       = Done (Some 7, t1) \<and>
     update_all_316 (sample_module\<lparr>ip_pkt_list_tot := 3\<rparr>) [(2, None), (3, None), (4, None), (5, None)] t1 7 = Done t2 \<and>
     k_heap t2 7 = Some e \<and> recent_stamps e = [3, 4, 5]"
proof -
  let ?md = "sample_module\<lparr>ip_pkt_list_tot := 3\<rparr>" and ?t = "new_recent_table_32 sample_module (sample_rule [XT_RECENT_SET] False)"
  have "fls 100 = 7" by (simp add: fls.simps)
  then have md: "recent_mt_init_316 ?md = Done (Inr ?md)"
    by (simp add: recent_mt_init_316_def sample_module_def push_bit_eq_mult)
  have bucket: "entry_bucket ?md (ipv4_addr [10, 0, 0, 1]) NFPROTO_IPV4 = 10"
    by (simp add: entry_bucket_def recent_entry_hash4_def sample_module_def ipv4_addr_def)
  have "\<exists>t1. recent_entry_init_316 ?md 1 (Some (7, \<lambda>_. 0)) ?t (ipv4_addr [10, 0, 0, 1]) NFPROTO_IPV4 64 None
      = Done (Some 7, t1)"
    by (simp add: recent_entry_init_316_def Let_def bucket new_recent_table_32_def) (simp add: sample_module_def)
  then obtain t1 where t1: "recent_entry_init_316 ?md 1 (Some (7, \<lambda>_. 0)) ?t (ipv4_addr [10, 0, 0, 1]) NFPROTO_IPV4 64 None
      = Done (Some 7, t1)" by blast
  from old_ring_keeps_last_stamps [OF md t1, of "[(2, None), (3, None), (4, None), (5, None)]"] t1 show ?thesis
    by (auto simp: stamp_of_def last_n_def)
qed



end
