(* ===== verification/Recent_Old_Cache.thy ===== *)
theory Recent_Old_Cache
  imports Recent_Versions
begin

text \<open>
  The modules of 3.16.43 and 3.2.93 against the same specification as 4.9.13, for every ring size that they
  accept (20 where nothing is configured): a table is a cache of addresses with their last
  \<open>ip_pkt_list_tot\<close> stamps. The table of an older module is seen as one of 4.9.13 with that many slots, which
  need not be a power of two, and its stamping function is one more instance of the contract \<open>stamper\<close>.
\<close>

section \<open>An older table\<close>

definition tot_mask :: "recent_module \<Rightarrow> byte \<Rightarrow> bool" where
  "tot_mask md m \<longleftrightarrow> unat (ip_pkt_list_tot md) = unat m + 1 \<and> ip_pkt_list_tot md \<le> 255"

definition old_view :: "recent_module \<Rightarrow> 'a recent_table_32_scheme \<Rightarrow> recent_table" where
  "old_view md t = \<lparr>k_name = k_name t, k_refcnt = k_refcnt t, k_entries = k_entries t, k_heap = k_heap t,
     lru_list = lru_list t, iphash = iphash t, k_mask = all_bits,
     nstamps_max_mask = ucast (ip_pkt_list_tot md - 1)\<rparr>"

interpretation old: embedding "old_view md" for md
  by unfold_locales (simp_all add: old_view_def)

lemma old_view_mask [simp]: "nstamps_max_mask (old_view md t) = ucast (ip_pkt_list_tot md - 1)"
  by (simp add: old_view_def)

lemma tot_mask_old:
  assumes "0 < ip_pkt_list_tot md" and "ip_pkt_list_tot md \<le> 255"
  shows "tot_mask md (ucast (ip_pkt_list_tot md - 1))"
proof -
  have t: "0 < unat (ip_pkt_list_tot md)" "unat (ip_pkt_list_tot md) \<le> 255"
    using assms by (simp_all add: word_less_nat_alt word_le_nat_alt)
  then have "unat (ip_pkt_list_tot md - 1) = unat (ip_pkt_list_tot md) - 1"
    using assms(1) by (simp add: unat_minus_one word_gt_0)
  with t assms(2) show ?thesis by (simp add: tot_mask_def unsigned_ucast_eq take_bit_nat_eq_self)
qed

definition old_cache :: "'a recent_table_32_scheme \<Rightarrow> cached list" where
  "old_cache t = map (\<lambda>p. cached_of (the (k_heap t p))) (lru_list t)"

definition old_cache_ok :: "recent_module \<Rightarrow> 'a recent_table_32_scheme \<Rightarrow> bool" where
  "old_cache_ok md t \<longleftrightarrow> cache_fits (tot_mask md) md (old_view md t)"

lemma old_cache_view: "cache (old_view md t) = old_cache t"
  by (simp add: cache_def at_def old_cache_def old.embed)

section \<open>Stamping\<close>

interpretation kernel_316: stamper "tot_mask md" "recent_entry_update_316 md" for md
proof unfold_locales
  fix t :: recent_table and p e and jiffies :: u64 and ns :: "u64 option"
  assume m: "tot_mask md (nstamps_max_mask t)" and e: "k_heap t p = Some e"
    and ring: "ring_n (unat (nstamps_max_mask t) + 1) e"
  let ?s = "case ns of None \<Rightarrow> jiffies | Some s \<Rightarrow> s"
  have tot: "unat (nstamps_max_mask t) + 1 = unat (ip_pkt_list_tot md)" "0 < ip_pkt_list_tot md"
    "ip_pkt_list_tot md \<le> 255"
    using m by (auto simp: tot_mask_def word_less_nat_alt)
  from stamp_316_ring [OF ring [unfolded tot(1)] tot(2,3), of ?s] obtain e' where
    e': "stamp_entry_316 (ip_pkt_list_tot md) ?s e = Done e'" "ring_n (unat (ip_pkt_list_tot md)) e'"
    "recent_stamps e' = last_n (unat (ip_pkt_list_tot md)) (recent_stamps e @ [?s])" by blast
  have "k_addr e' = k_addr e" "k_family e' = k_family e" "k_ttl e' = k_ttl e"
    using e'(1) by (auto simp: stamp_entry_316_def Let_def split: if_splits)
  with e' show "\<exists>e'. recent_entry_update_316 md jiffies t p ns = Done (touched t p e') \<and>
      ring_n (unat (nstamps_max_mask t) + 1) e' \<and>
      cached_of e' = c_stamp (unat (nstamps_max_mask t) + 1) ?s (cached_of e)"
    unfolding tot(1)
    by (intro exI [of _ e'])
      (simp add: recent_entry_update_316_def deref_Some [OF e] touched_def cached_of_def c_stamp_def)
qed (simp add: recent_entry_update_316_def deref_def)

section \<open>The match\<close>

lemma init_old_view:
  assumes "tot_mask md (ucast (ip_pkt_list_tot md - 1))"
  shows "recent_entry_init md jiffies mem (old_view md t) a family ttl s =
    map_run (on_snd (old_view md)) (recent_entry_init_316 md jiffies mem t a family ttl s)"
proof -
  have u: "unat (ip_pkt_list_tot md) = unat (ucast (ip_pkt_list_tot md - 1) :: byte) + 1"
    "ip_pkt_list_tot md \<noteq> 0" using assms by (auto simp: tot_mask_def)
  show ?thesis
    by (cases mem; simp add: recent_entry_init_316_def recent_entry_init_def old.embed old.remove Let_def
        case_prod_unfold bind_cases u(2) u(1) [symmetric, simplified] del: upt_Suc cong: if_cong list.case_cong)
qed

lemma found_by_316: "match_found_by (recent_entry_update_316 md) = match_found_316 md"
  by (intro ext) (simp only: match_found_by_def match_found_316_def)

lemma match_old_view:
  assumes "tot_mask md (ucast (ip_pkt_list_tot md - 1))"
  shows "match_addr_by (recent_entry_update_316 md) md HZ jiffies mem family info a ttl (old_view md t) =
    map_run (\<lambda>(ret, hot, t). (ret, hot, old_view md t)) (match_addr_316 md HZ jiffies mem family info a ttl t)"
  by (simp add: match_addr_by_def match_addr_316_def found_by_316 old.lookup init_old_view [OF assms]
      old.match_found_316 Let_def case_prod_unfold bind_cases cong: if_cong option.case_cong)

lemma check_rejects_316_flags: "\<not> check_rejects_316 md info \<Longrightarrow> rule_flags info"
  by (auto simp: check_rejects_316_def rule_flags_def Let_def)

lemma old_cache_okD: "old_cache_ok md t \<Longrightarrow> tot_mask md (ucast (ip_pkt_list_tot md - 1))"
  by (simp add: old_cache_ok_def cache_fits_def)

lemma map_run_Done_iff: "map_run f r = Done y \<longleftrightarrow> (\<exists>x. r = Done x \<and> y = f x)"
  by (cases r) auto

lemma map_run_Fault_iff: "map_run f r = Fault \<longleftrightarrow> r = Fault"
  by (cases r) auto

lemma old_match_refines:
  assumes "old_cache_ok md t" and "module_ok md" and "rule_flags info" and "k_heap t p = None"
  shows "case c_rule (unat (ip_list_tot md)) (unat (ip_pkt_list_tot md)) jiffies (match_time HZ jiffies info)
      info a family ttl (old_cache t) of
    None \<Rightarrow> match_addr_316 md HZ jiffies (Some (p, old)) family info a ttl t = Fault
  | Some (ret, cs) \<Rightarrow>
      \<exists>t'. match_addr_316 md HZ jiffies (Some (p, old)) family info a ttl t = Done (ret, False, t') \<and>
        old_cache t' = cs \<and> old_cache_ok md t'"
proof -
  note m = old_cache_okD [OF assms(1)]
  have n: "unat (nstamps_max_mask (old_view md t)) + 1 = unat (ip_pkt_list_tot md)"
    using m by (simp add: tot_mask_def)
  have "k_heap (old_view md t) p = None" using assms(4) by (simp add: old.embed)
  note r = kernel_316.match_addr_refines [OF assms(1) [unfolded old_cache_ok_def] assms(2,3) this,
      where jiffies = jiffies and HZ = HZ and a = a and family = family and ttl = ttl and old = old, unfolded n old_cache_view match_old_view [OF m]]
  show ?thesis
  proof (cases "c_rule (unat (ip_list_tot md)) (unat (ip_pkt_list_tot md)) jiffies (match_time HZ jiffies info)
      info a family ttl (old_cache t)")
    case None
    with r show ?thesis by (simp add: map_run_Fault_iff)
  next
    case (Some rc)
    obtain ret cs where "rc = (ret, cs)" by force
    with r Some obtain t' where
      "match_addr_316 md HZ jiffies (Some (p, old)) family info a ttl t = Done (ret, False, t')"
      "cache (old_view md t') = cs" "cache_fits (tot_mask md) md (old_view md t')"
      by (auto simp: map_run_Done_iff)
    with Some \<open>rc = _\<close> show ?thesis by (simp add: old_cache_view old_cache_ok_def)
  qed
qed

text \<open>What the start of the module leaves, and the tables it makes.\<close>

lemma loaded_316:
  assumes "recent_mt_init_316 md0 = Done (Inr md)"
  shows "module_ok md" and "0 < ip_pkt_list_tot md" and "ip_pkt_list_tot md \<le> 255"
proof -
  let ?k = "fls (unat (ip_list_tot md0))"
  from assms have md: "md = md0\<lparr>ip_list_hash_size := push_bit ?k 1\<rparr>" "?k < 32" "ip_list_tot md0 \<noteq> 0"
    "ip_pkt_list_tot md0 \<noteq> 0" "ip_pkt_list_tot md0 \<le> 255"
    by (auto simp: recent_mt_init_316_def split: if_splits)
  have "push_bit ?k 1 = (2 ^ ?k :: u32)" by (simp add: push_bit_eq_mult)
  with md show "module_ok md" by (auto simp: module_ok_def word_gt_0)
  show "0 < ip_pkt_list_tot md" "ip_pkt_list_tot md \<le> 255" using md by (simp_all add: word_gt_0)
qed

lemma new_old_table:
  assumes "recent_mt_init_316 md0 = Done (Inr md)"
  shows "old_cache_ok md (new_recent_table_316 md info)" and "old_cache (new_recent_table_316 md info) = []"
    and "old_cache_ok md (new_recent_table_32 md info)" and "old_cache (new_recent_table_32 md info) = []"
proof -
  have "table_rel md (old_view md (new_recent_table_316 md info)) []"
    "table_rel md (old_view md (new_recent_table_32 md info)) []"
    by (simp_all add: table_rel_def old_view_def new_recent_table_316_def new_recent_table_32_def)
  then show "old_cache_ok md (new_recent_table_316 md info)" "old_cache_ok md (new_recent_table_32 md info)"
    using tot_mask_old [OF loaded_316(2,3) [OF assms]]
    by (auto simp: old_cache_ok_def cache_fits_def table_ok_def old_view_def new_recent_table_316_def
        new_recent_table_32_def)
qed (simp_all add: old_cache_def new_recent_table_316_def new_recent_table_32_def)

section \<open>The file\<close>

lemma init_tot_mask:
  assumes "tot_mask md (nstamps_max_mask t)"
  shows "recent_entry_init_316 md jiffies mem t a family ttl s = recent_entry_init md jiffies mem t a family ttl s"
proof -
  have "unat (ip_pkt_list_tot md) = unat (nstamps_max_mask t) + 1" "ip_pkt_list_tot md \<noteq> 0"
    using assms by (auto simp: tot_mask_def)
  note u = this
  let ?evict = "if ip_list_tot md \<le> k_entries t
    then (case lru_list t of [] \<Rightarrow> Fault | p # _ \<Rightarrow> recent_entry_remove t p) else Done t"
  have m: "nstamps_max_mask t' = nstamps_max_mask t" if "?evict = Done t'" for t'
    using that by (auto simp: recent_entry_remove_def run_bind_Done split: if_splits list.splits)
  show ?thesis
    unfolding recent_entry_init_316_def recent_entry_init_def u(1)
    by (rule run_bind_cong [OF refl]) (simp add: m u(2) Let_def del: upt_Suc cong: option.case_cong if_cong)
qed

lemma write_stamps_316_token:
  assumes "strsep_at mem n (Some i) = Done (Some tok, c)"
  shows "write_stamps_316 lib md jiffies mem n (Some i) e t =
    (case kstrtoul lib tok of
       None \<Rightarrow> write_stamps_316 lib md jiffies mem n c e t
     | Some tmp \<Rightarrow> (case e of None \<Rightarrow> Fault
         | Some p \<Rightarrow> run_bind (recent_entry_update_316 md jiffies t p (Some tmp)) (write_stamps_316 lib md jiffies mem n c e)))"
  by (subst write_stamps_316.simps) (simp add: assms split: option.split run.split)

lemma proc_write_restore_316:
  assumes "Suc (length line) \<le> MAX_WRITE"
  shows "recent_mt_proc_write_316 lib md jiffies res stack True (CHR ''*'' # line) 0 t =
      run_bind (strsep_at (CHR ''*'' # line @ stack) (Suc (length line)) (Some 1)) (\<lambda>(ipaddr, c).
        run_bind (strnchr (CHR ''*'' # line @ stack) c (length line) (CHR '':'')) (\<lambda>v6.
          case (case ipaddr of None \<Rightarrow> None | Some s \<Rightarrow> parse_addr lib v6 s (- 1)) of
            None \<Rightarrow> Done (Inl EINVAL, t)
          | Some (a, family) \<Rightarrow>
              run_bind (write_entry_316 lib md jiffies res Proc_restore (CHR ''*'' # line @ stack) (Suc (length line)) c a family t)
                (\<lambda>(r, t). Done (case r of Inl x \<Rightarrow> Inl x | Inr _ \<Rightarrow> Inr (Suc (length line)), t))))"
  using assms
  by (simp add: recent_mt_proc_write_316_def Let_def proc_cmd_of_def not_less case_prod_unfold cong: option.case_cong)

interpretation file_316: line_writer "tot_mask md" "recent_entry_update_316 md" md "\<lambda>lib. write_stamps_316 lib md"
  "\<lambda>lib jiffies res. write_entry_316 lib md jiffies res Proc_restore" "\<lambda>lib. recent_mt_proc_write_316 lib md" for md
proof unfold_locales
  show "write_stamps_316 lib md jiffies mem n None e t = Done t" for lib jiffies mem n e and t :: recent_table
    by (simp add: write_stamps_316.simps)
next
  show "recent_mt_proc_write_316 lib md jiffies res stack True ''/'' 0 t =
      run_bind (recent_table_flush md t) (\<lambda>t. Done (Inr 1, t))" for lib jiffies res stack and t :: recent_table
    by (simp add: recent_mt_proc_write_316_def MAX_WRITE_def)
qed (simp_all only: write_stamps_316_token proc_write_restore_316 write_entry_316_def restore_new_316_def proc_cmd.case init_tot_mask)

section \<open>Properties\<close>

text \<open>C4: in 3.16.43, for every \<open>ip_pkt_list_tot\<close> that the module accepts, a packet that meets a rule does
  to the rule's table what the rule does to a least-recently-used cache of addresses with their last
  \<open>ip_pkt_list_tot\<close> stamps, and uses freed memory exactly when the rule stamps the entry it has just reaped.\<close>

theorem old_kernel_match_refines_cache:
  assumes "recent_mt_init_316 md0 = Done (Inr md)" and "\<not> check_rejects_316 md info"
    and "recent_table_lookup (tables net) (i_name info) = Some t" and "old_cache_ok md t" and "k_heap t p = None"
  shows "case c_rule (unat (ip_list_tot md)) (unat (ip_pkt_list_tot md)) jiffies (match_time HZ jiffies info)
      info (nf_inet_addr_mask (packet_addr family info skb) (k_mask t)) family (packet_ttl skb) (old_cache t) of
    None \<Rightarrow> recent_mt_316 md HZ jiffies (Some (p, old)) family info skb net = Fault
  | Some (ret, cs) \<Rightarrow>
      \<exists>t'. recent_mt_316 md HZ jiffies (Some (p, old)) family info skb net = Done (ret, False, set_table t' net) \<and>
        old_cache t' = cs \<and> old_cache_ok md t'"
  using old_match_refines [OF assms(4) loaded_316(1) [OF assms(1)] check_rejects_316_flags [OF assms(2)] assms(5),
      where jiffies = jiffies and HZ = HZ and family = family and old = old and ttl = "packet_ttl skb"
        and a = "nf_inet_addr_mask (packet_addr family info skb) (k_mask t)"]
  by (auto simp: recent_mt_316_def assms(3) Let_def split: option.splits)

text \<open>The first packet of a rule that sets, where entries have three slots.\<close>

theorem old_kernel_match_refines_cache_witness:
  "\<exists>md t t'. recent_mt_init_316 (sample_module\<lparr>ip_pkt_list_tot := 3\<rparr>) = Done (Inr md) \<and>
     t = new_recent_table_316 md (sample_rule [XT_RECENT_SET] False) \<and>
     recent_mt_316 md 250 5000 (Some (3, \<lambda>_. 0)) NFPROTO_IPV4 (sample_rule [XT_RECENT_SET] False) sample_skb
       \<lparr>tables = [t], proc_files = Some []\<rparr> = Done (True, False, set_table t' \<lparr>tables = [t], proc_files = Some []\<rparr>) \<and>
     old_cache t' = [\<lparr>c_addr = ipv4_addr [10, 0, 0, 1], c_family = NFPROTO_IPV4, c_ttl = 64, c_stamps = [5000]\<rparr>] \<and>
     old_cache_ok md t'"
proof -
  let ?md = "sample_module\<lparr>ip_pkt_list_tot := 3\<rparr>" and ?r = "sample_rule [XT_RECENT_SET] False"
  let ?t = "new_recent_table_316 ?md ?r"
  have "fls 100 = 7" by (simp add: fls.simps)
  then have md: "recent_mt_init_316 ?md = Done (Inr ?md)"
    by (simp add: recent_mt_init_316_def sample_module_def push_bit_eq_mult)
  have acc: "\<not> check_rejects_316 ?md ?r"
    by (simp add: check_rejects_316_def sample_rule_def XT_RECENT_NAME_LEN_def)
  have lk: "recent_table_lookup (tables \<lparr>tables = [?t], proc_files = Some []\<rparr>) (i_name ?r) = Some ?t"
    by (simp add: recent_table_lookup_def new_recent_table_316_def)
  have free: "k_heap ?t 3 = None" by (simp add: new_recent_table_316_def)
  have key: "nf_inet_addr_mask (packet_addr NFPROTO_IPV4 ?r sample_skb) (k_mask ?t) = ipv4_addr [10, 0, 0, 1]"
    by (simp add: packet_addr_def sample_rule_def sample_skb_def new_recent_table_316_def nf_inet_addr_mask_def
        ipv4_addr_def numeral_eq_Suc)
  have r: "c_rule 100 n 5000 time ?r (ipv4_addr [10, 0, 0, 1]) NFPROTO_IPV4 64 [] =
      Some (True, [\<lparr>c_addr = ipv4_addr [10, 0, 0, 1], c_family = NFPROTO_IPV4, c_ttl = 64, c_stamps = [5000]\<rparr>])"
    for n time
    by (simp add: c_rule_def c_lookup_def c_insert_def c_evict_def sample_rule_def)
  have f: "unat (ip_list_tot ?md) = 100" "packet_ttl sample_skb = 64"
    by (simp_all add: sample_module_def packet_ttl_def sample_skb_def)
  show ?thesis
    using md old_kernel_match_refines_cache [OF md acc lk new_old_table(1) [OF md] free,
        where jiffies = 5000 and HZ = 250 and family = NFPROTO_IPV4 and skb = sample_skb and old = "\<lambda>_. 0",
        unfolded key new_old_table(2) [OF md] f r] by auto
qed

end
