(* ===== verification/Kernel_Files.thy ===== *)
theory Kernel_Files
  imports Counter_File Recent_Old_Cache
begin

text \<open>
  The three versions of the kernel module provide the contract \<open>counter_file\<close>: reading the file walks the
  buckets and prints one row per entry, writing it flushes and restores. \<open>kernel_table\<close> is a table of any
  version.
\<close>

section \<open>Reading the file visits every entry once\<close>

lemma nth_in_bucket_0: "nth_in_bucket es 0 = (case es of [] \<Rightarrow> (None, 0) | e # _ \<Rightarrow> (Some e, 0))"
  by (cases es) auto

lemma seq_start_first: "seq_start_from bs b 0 = first_of bs b"
  by (induction bs arbitrary: b) (auto simp: nth_in_bucket_0 split: list.splits)

lemma following_first: "p \<notin> set xs \<Longrightarrow> following p (xs @ p # ys) = ys"
  by (induction xs) auto

lemma first_of_None: "first_of bs b = None \<Longrightarrow> concat bs = []"
  by (induction bs arbitrary: b) (auto split: list.splits)

lemma first_of_Some:
  "first_of bs b = Some (e, c) \<Longrightarrow>
   \<exists>j es. c = b + j \<and> j < length bs \<and> bs ! j = e # es \<and> concat bs = e # es @ concat (drop (Suc j) bs)"
proof (induction bs arbitrary: b)
  case (Cons xs bs)
  show ?case
  proof (cases xs)
    case Nil
    with Cons.prems have "first_of bs (Suc b) = Some (e, c)" by simp
    from Cons.IH [OF this] obtain j es where "c = Suc b + j" "j < length bs" "bs ! j = e # es"
      "concat bs = e # es @ concat (drop (Suc j) bs)" by blast
    then show ?thesis using Nil by (intro exI [of _ "Suc j"]) auto
  next
    case (Cons x xs')
    with Cons.prems show ?thesis by (intro exI [of _ 0]) auto
  qed
qed simp

lemma seq_walk_from:
  assumes "length (iphash t) = unat (ip_list_hash_size md)" and "distinct (concat (iphash t))"
    and "b < length (iphash t)" and "iphash t ! b = xs @ p # ys"
  shows "seq_walk md t n (Some (p, b)) = take n (p # ys @ concat (drop (Suc b) (iphash t)))"
  using assms(3,4)
proof (induction n arbitrary: b xs p ys)
  case (Suc n)
  let ?bs = "iphash t"
  have tk: "take (unat (ip_list_hash_size md)) ?bs = ?bs" using assms(1) by simp
  have "distinct (?bs ! b)" using assms(2) Suc.prems(1) by (metis distinct_concat_iff nth_mem)
  then have fol: "following p (?bs ! b) = ys" using Suc.prems(2) by (simp add: following_first)
  show ?case
  proof (cases ys)
    case (Cons y ys')
    have "?bs ! b = (xs @ [p]) @ y # ys'" using Suc.prems(2) Cons by simp
    from Suc.IH [OF Suc.prems(1) this] show ?thesis by (simp add: recent_seq_next_def fol Cons)
  next
    case Nil
    show ?thesis
    proof (cases "first_of (drop (Suc b) ?bs) (Suc b)")
      case None
      with first_of_None [OF None] show ?thesis by (cases n) (simp_all add: recent_seq_next_def fol Nil tk)
    next
      case (Some ec)
      obtain e c where ec: "ec = (e, c)" by force
      from first_of_Some [OF Some [unfolded ec]] obtain j es where
        j: "c = Suc b + j" "j < length (drop (Suc b) ?bs)" "drop (Suc b) ?bs ! j = e # es"
          "concat (drop (Suc b) ?bs) = e # es @ concat (drop (Suc j) (drop (Suc b) ?bs))" by blast
      have c: "c < length ?bs" "?bs ! c = [] @ e # es" using j(1-3) by auto
      have "concat (drop (Suc j) (drop (Suc b) ?bs)) = concat (drop (Suc c) ?bs)"
        using j(1) by (simp add: add.commute)
      with Suc.IH [OF c] j(4) show ?thesis by (simp add: recent_seq_next_def fol Nil tk Some ec)
    qed
  qed
qed (cases "p # ys", auto)

lemma seq_walk_all:
  assumes "length (iphash t) = unat (ip_list_hash_size md)" and "distinct (concat (iphash t))"
  shows "seq_walk md t n (recent_seq_start md t 0) = take n (concat (iphash t))"
proof (cases "first_of (iphash t) 0")
  case None
  with first_of_None [OF None] assms(1) show ?thesis by (cases n) (simp_all add: recent_seq_start_def seq_start_first)
next
  case (Some ec)
  obtain e c where ec: "ec = (e, c)" by force
  from first_of_Some [OF Some [unfolded ec]] obtain es where
    c: "c < length (iphash t)" "iphash t ! c = [] @ e # es" "concat (iphash t) = e # es @ concat (drop (Suc c) (iphash t))"
    by auto
  with seq_walk_from [OF assms c(1,2)] assms(1) Some ec show ?thesis
    by (simp add: recent_seq_start_def seq_start_first)
qed

text \<open>The buckets of a well-formed table hold every entry once.\<close>

lemma buckets_entries:
  assumes "table_rel md t ps" and "module_ok md"
  shows "distinct (concat (iphash t))" and "set (concat (iphash t)) = set ps"
proof -
  note r = table_relD [OF assms(1)]
  have i: "iphash t = map (\<lambda>h. filter (\<lambda>p. bucket_at md t p = h) ps) [0..<length (iphash t)]"
    by (rule nth_equalityI) (use r(6) in auto)
  have "bucket_at md t p < length (iphash t)" if "p \<in> set ps" for p
    using that r(1,5) bucket_in_range [OF assms(2)] by (auto simp: bucket_at_def split: option.splits)
  then show "set (concat (iphash t)) = set ps" by (subst i) auto
  have d: "distinct (concat (map (\<lambda>h. filter (\<lambda>p. f p = h) ps) hs))" if "distinct hs" for f :: "nat \<Rightarrow> nat" and hs
    using that by (induction hs) (auto simp: r(2))
  show "distinct (concat (iphash t))" by (subst i) (rule d, simp)
qed

lemma read_order:
  assumes "table_rel md t ps" and "module_ok md"
  shows "seq_walk md t (unat (k_entries t)) (recent_seq_start md t 0) = concat (iphash t)"
proof -
  note r = table_relD [OF assms(1)] and b = buckets_entries [OF assms]
  have "length (concat (iphash t)) = length ps"
    using b r(2) by (metis distinct_card)
  with seq_walk_all [OF r(1) b(1)] r(8) show ?thesis by simp
qed

section \<open>The rows\<close>

definition row_of :: "recent_entry \<Rightarrow> row" where
  "row_of e = (let ss = take (unat (k_nstamps e)) (k_stamps e)
     in (take 4 (k_addr e), k_ttl e, k_stamps e ! (unat (k_index e) - 1), k_index e, hd ss, tl ss))"

definition rows_of :: "recent_table \<Rightarrow> row list" where
  "rows_of t = map (\<lambda>p. row_of (the (k_heap t p))) (concat (iphash t))"

lemma show_stamps_tail: "0 < i \<Longrightarrow> show_stamps ss i = stamps_tail ss"
  by (induction ss arbitrary: i) auto

text \<open>The slot of the last stamp, by the mask of 4.9.13 and by the remainder of the older modules.\<close>

lemma last_slot_49:
  assumes "power_mask m" and "ring_n (unat m + 1) e"
  shows "unat ((k_index e - 1) AND m) = unat (k_index e) - 1"
proof -
  from assms(2) have i: "1 \<le> unat (k_index e)" "unat (k_index e) \<le> unat m + 1" by (auto simp: ring_n_def)
  then have u: "unat (k_index e - 1) = unat (k_index e) - 1" by (intro unat_minus_one) auto
  from assms(1) obtain k where k: "k < 8" "m = mask k" by (auto simp: power_mask_def)
  have "unat ((k_index e - 1) AND m) = unat (k_index e - 1) mod (unat m + 1)"
    unfolding k(2) mask_facts(1) [OF k(1)] by (rule mask_facts(2) [OF k(1)])
  also have "\<dots> = unat (k_index e - 1)" using i u by simp
  finally show ?thesis using u by simp
qed

lemma last_slot_316:
  assumes "tot_mask md m" and "ring_n (unat m + 1) e"
  shows "unat ((ucast (k_index e) - 1) mod ip_pkt_list_tot md) = unat (k_index e) - 1"
proof -
  from assms(2) have i: "1 \<le> unat (k_index e)" "unat (k_index e) \<le> unat m + 1" by (auto simp: ring_n_def)
  have b: "unat (ucast (k_index e) :: u32) = unat (k_index e)"
    using unat_byte_less [of "k_index e"] by (simp add: unsigned_ucast_eq take_bit_nat_eq_self del: unat_byte_less)
  then have "(ucast (k_index e) :: u32) \<noteq> 0" using i(1) by auto
  then have "unat (ucast (k_index e) - 1 :: u32) = unat (k_index e) - 1" using unat_minus_one [of "ucast (k_index e) :: u32"] b by simp
  moreover have "unat (k_index e) - 1 < unat (ip_pkt_list_tot md)" using assms(1) i by (simp add: tot_mask_def)
  ultimately show ?thesis by (simp add: unat_mod)
qed

lemma shown_stamps:
  assumes "ring_n n e"
  shows "\<not> length (k_stamps e) < unat (k_nstamps e)" "\<not> length (k_stamps e) \<le> unat (k_index e) - 1"
    "show_stamps (take (unat (k_nstamps e)) (k_stamps e)) 0 =
     '' '' @ to_string_u (hd (take (unat (k_nstamps e)) (k_stamps e))) @ stamps_tail (tl (take (unat (k_nstamps e)) (k_stamps e)))"
proof -
  let ?ss = "take (unat (k_nstamps e)) (k_stamps e)"
  have r: "length (k_stamps e) = n" "unat (k_nstamps e) \<le> n" "1 \<le> unat (k_index e)" "unat (k_index e) \<le> unat (k_nstamps e)"
    using assms by (auto simp: ring_n_def)
  then show "\<not> length (k_stamps e) < unat (k_nstamps e)" "\<not> length (k_stamps e) \<le> unat (k_index e) - 1" by linarith+
  have "length ?ss = unat (k_nstamps e)" using r by simp
  then have "?ss \<noteq> []" using r by auto
  then show "show_stamps ?ss 0 = '' '' @ to_string_u (hd ?ss) @ stamps_tail (tl ?ss)"
    by (cases ?ss) (auto simp: show_stamps_tail)
qed

lemma show_row_49:
  assumes "power_mask (nstamps_max_mask t)" and "ring_n (unat (nstamps_max_mask t) + 1) e" and "k_family e = NFPROTO_IPV4"
  shows "recent_seq_show lib t e = Done (row_text (row_of e) @ [CHR 0x0A])"
  using assms(3) shown_stamps [OF assms(2)]
  by (simp add: recent_seq_show_def Let_def last_slot_49 [OF assms(1,2)] row_of_def proc_row_def)

lemma show_row_316:
  assumes "tot_mask md (nstamps_max_mask t)" and "ring_n (unat (nstamps_max_mask t) + 1) e" and "k_family e = NFPROTO_IPV4"
  shows "recent_seq_show_316 lib md e = Done (row_text (row_of e) @ [CHR 0x0A])"
proof -
  have "ip_pkt_list_tot md \<noteq> 0" using assms(1) by (auto simp: tot_mask_def)
  then show ?thesis
    using assms(3) shown_stamps [OF assms(2)]
    by (simp add: recent_seq_show_316_def Let_def last_slot_316 [OF assms(1,2)] row_of_def proc_row_def)
qed

text \<open>The entries in the order of the walk.\<close>

lemma walked_entries:
  assumes "cache_fits F md t" and "module_ok md" and "ipv4_only (cache t)" and "p \<in> set (concat (iphash t))"
  shows "\<exists>e. k_heap t p = Some e \<and> ring_n (unat (nstamps_max_mask t) + 1) e \<and> k_family e = NFPROTO_IPV4 \<and>
    length (take 4 (k_addr e)) = 4"
proof -
  obtain ps where ps: "table_rel md t ps" using cache_okD [OF assms(1)] .
  have p: "p \<in> set ps" using buckets_entries(2) [OF ps assms(2)] assms(4) by (simp only:)
  then obtain e where e: "k_heap t p = Some e" using table_relD(5) [OF ps] by auto
  have "cached_of e \<in> set (cache t)" using at_in_cache [OF ps p] by (simp add: at_Some [OF e])
  from bspec [OF assms(3) [unfolded ipv4_only_def] this]
  have "k_family e = NFPROTO_IPV4" "\<exists>ip. length ip = 4 \<and> k_addr e = ipv4_addr ip" by simp_all
  then have "k_family e = NFPROTO_IPV4" "length (take 4 (k_addr e)) = 4" by (auto simp del: length_take)
  with e cache_ok_ring [OF assms(1) e] show ?thesis by auto
qed

lemma walk_order:
  assumes "cache_fits F md t" and "module_ok md"
  shows "seq_walk md t (unat (k_entries t)) (recent_seq_start md t 0) = concat (iphash t)"
    and "mset (concat (iphash t)) = mset (lru_list t)"
proof -
  obtain ps where ps: "table_rel md t ps" using cache_okD [OF assms(1)] .
  note r = table_relD [OF ps] and b = buckets_entries [OF ps assms(2)]
  show "seq_walk md t (unat (k_entries t)) (recent_seq_start md t 0) = concat (iphash t)"
    by (rule read_order [OF ps assms(2)])
  have "set (concat (iphash t)) = set (lru_list t)" using b(2) r(4) by (simp only:)
  then show "mset (concat (iphash t)) = mset (lru_list t)"
    using set_eq_iff_mset_eq_distinct [OF b(1) r(3)] by blast
qed

lemma read_rows_49:
  assumes "cache_ok md t" and "module_ok md" and "ipv4_only (cache t)"
  shows "read_file lib md t = Done (map (\<lambda>r. row_text r @ [CHR 0x0A]) (rows_of t))"
proof -
  have pm: "power_mask (nstamps_max_mask t)" using assms(1) by (simp add: cache_fits_def)
  have "show_rows lib t ps = Done (map (\<lambda>p. row_text (row_of (the (k_heap t p))) @ [CHR 0x0A]) ps)"
    if "set ps \<subseteq> set (concat (iphash t))" for ps
    using that
  proof (induction ps)
    case (Cons p ps)
    have "p \<in> set (concat (iphash t))" using Cons.prems by (meson list.set_intros(1) subsetD)
    from walked_entries [OF assms this] obtain e where
      e: "k_heap t p = Some e" "ring_n (unat (nstamps_max_mask t) + 1) e" "k_family e = NFPROTO_IPV4" by blast
    with Cons show_row_49 [OF pm e(2,3)] show ?case by (simp add: deref_def)
  qed simp
  from this [OF subset_refl] show ?thesis
    by (simp add: read_file_def walk_order(1) [OF assms(1,2)] rows_of_def comp_def)
qed

lemma read_rows_316:
  assumes "cache_fits (tot_mask md) md t" and "module_ok md" and "ipv4_only (cache t)"
  shows "read_file_316 lib md t = Done (map (\<lambda>r. row_text r @ [CHR 0x0A]) (rows_of t))"
proof -
  have tm: "tot_mask md (nstamps_max_mask t)" using assms(1) by (simp add: cache_fits_def)
  have "show_rows_316 lib md t ps = Done (map (\<lambda>p. row_text (row_of (the (k_heap t p))) @ [CHR 0x0A]) ps)"
    if "set ps \<subseteq> set (concat (iphash t))" for ps
    using that
  proof (induction ps)
    case (Cons p ps)
    have "p \<in> set (concat (iphash t))" using Cons.prems by (meson list.set_intros(1) subsetD)
    from walked_entries [OF assms this] obtain e where
      e: "k_heap t p = Some e" "ring_n (unat (nstamps_max_mask t) + 1) e" "k_family e = NFPROTO_IPV4" by blast
    with Cons show_row_316 [OF tm e(2,3)] show ?case by (simp add: deref_def)
  qed simp
  from this [OF subset_refl] show ?thesis
    by (simp add: read_file_316_def walk_order(1) [OF assms(1,2)] rows_of_def comp_def)
qed

lemma mset_recent_stamps: "mset (recent_stamps e) = mset (take (unat (k_nstamps e)) (k_stamps e))"
proof -
  have "mset (drop i ss @ take i ss) = mset ss" for i and ss :: "u64 list"
    using arg_cong [OF append_take_drop_id [of i ss], of mset] by (simp add: add.commute del: append_take_drop_id)
  then show ?thesis unfolding recent_stamps_def Let_def .
qed

lemma row_view:
  assumes "ring_n n e"
  shows "entry_view (row_value u (row_of e)) = cached_view (cached_of e)" and "row_ip (row_of e) = cached_ip (cached_of e)"
proof -
  let ?ss = "take (unat (k_nstamps e)) (k_stamps e)"
  have "length ?ss = unat (k_nstamps e)" "0 < unat (k_nstamps e)" using assms by (auto simp: ring_n_def)
  then have "?ss \<noteq> []" by auto
  then have "hd ?ss # tl ?ss = ?ss" by (rule list.collapse)
  moreover have "sort (filter (\<lambda>s. s \<noteq> 0) ?ss) = sort (filter (\<lambda>s. s \<noteq> 0) (recent_stamps e))"
    by (rule properties_for_sort) (simp_all add: mset_recent_stamps)
  ultimately show "entry_view (row_value u (row_of e)) = cached_view (cached_of e)"
    by (simp add: entry_view_def cached_view_def row_of_def Let_def row_entry_def get_ttl_def del: filter.simps)
  show "row_ip (row_of e) = cached_ip (cached_of e)"
    by (simp add: row_of_def Let_def cached_ip_def)
qed

lemma rows_of_table:
  assumes "cache_fits F md t" and "module_ok md" and "ipv4_only (cache t)"
  shows "rows_ok (rows_of t)"
    and "mset (map (\<lambda>r. (row_ip r, entry_view (row_value u r))) (rows_of t)) =
      mset (map (\<lambda>c. (cached_ip c, cached_view c)) (cache t))"
proof -
  note w = walked_entries [OF assms]
  have "length (fst (row_of (the (k_heap t p)))) = 4" if "p \<in> set (concat (iphash t))" for p
    using w [OF that] by (auto simp: row_of_def Let_def)
  then show "rows_ok (rows_of t)" unfolding rows_ok_def rows_of_def by (simp del: set_concat)
  have "map (\<lambda>r. (row_ip r, entry_view (row_value u r))) (rows_of t) =
      map (\<lambda>p. (cached_ip (at t p), cached_view (at t p))) (concat (iphash t))"
    unfolding rows_of_def map_map comp_def
  proof (rule map_cong [OF refl])
    fix p assume "p \<in> set (concat (iphash t))"
    from w [OF this] obtain e where e: "k_heap t p = Some e" "ring_n (unat (nstamps_max_mask t) + 1) e" by blast
    with row_view [OF e(2)] show "(row_ip (row_of (the (k_heap t p))), entry_view (row_value u (row_of (the (k_heap t p))))) =
        (cached_ip (at t p), cached_view (at t p))" by (simp add: at_Some)
  qed
  then have "mset (map (\<lambda>r. (row_ip r, entry_view (row_value u r))) (rows_of t)) =
      image_mset (\<lambda>p. (cached_ip (at t p), cached_view (at t p))) (mset (concat (iphash t)))"
    unfolding mset_map [symmetric] by (rule arg_cong)
  then show "mset (map (\<lambda>r. (row_ip r, entry_view (row_value u r))) (rows_of t)) =
      mset (map (\<lambda>c. (cached_ip c, cached_view c)) (cache t))"
    unfolding walk_order(2) [OF assms(1,2)] by (simp add: cache_def comp_def image_mset.compositionality)
qed

section \<open>The versions of the module\<close>

context line_writer
begin

lemma flush_slots:
  assumes "cache_fits F md t" and "module_ok md"
  shows "\<exists>t'. pw lib jiffies res stack True ''/'' 0 t = Done (Inr 1, t') \<and> cache_fits F md t' \<and>
    nstamps_max_mask t' = nstamps_max_mask t \<and> cache t' = []"
  using flush_file [OF assms] by (fastforce simp: same_table_def)

lemma restore_slots:
  assumes "cache_fits F md t" and "module_ok md" and "lib_reads lib" and "k_heap t p = None" and "length ip = 4"
    and "length (restore_line ip b ss) \<le> MAX_WRITE"
  shows "\<exists>t'. pw lib jiffies (Some (p, old)) (CHR 0x00 # rest) True (restore_line ip b ss) 0 t =
      Done (Inr (length (restore_line ip b ss)), t') \<and> cache_fits F md t' \<and>
    nstamps_max_mask t' = nstamps_max_mask t \<and>
    cache t' = c_restore (unat (ip_list_tot md)) (unat (nstamps_max_mask t) + 1) ip b ss (cache t)"
proof -
  have "token_ok []" "CHR '':'' \<notin> set []" by (simp_all add: token_ok_def)
  from restore_file [OF assms(3) this assms(1,2,4-6), of jiffies old rest] assms(3) show ?thesis
    by (fastforce simp: same_table_def)
qed

end

interpretation counter_49: counter_file md "\<lambda>t. cache_ok md t \<and> module_ok md" cache
  "\<lambda>t. unat (nstamps_max_mask t) + 1" "\<lambda>t p. k_heap t p = None" "\<lambda>lib. recent_mt_proc_write lib md" "\<lambda>lib. read_file lib md" for md
proof unfold_locales
  fix t :: recent_table and lib and u :: xt_recent_entry
  assume t: "cache_ok md t \<and> module_ok md"
  then show "distinct (map c_key (cache t))" by (blast intro: cache_keys_distinct)
  assume v4: "ipv4_only (cache t)"
  show "\<exists>rs. read_file lib md t = Done (map (\<lambda>r. row_text r @ [CHR 0x0A]) rs) \<and> rows_ok rs \<and>
      mset (map (\<lambda>r. (row_ip r, entry_view (row_value u r))) rs) = mset (map (\<lambda>c. (cached_ip c, cached_view c)) (cache t))"
    using t v4 read_rows_49 rows_of_table by blast
next
  fix t :: recent_table and lib jiffies res stack
  assume "cache_ok md t \<and> module_ok md"
  with file_49.flush_slots [of md t lib jiffies res stack]
  show "\<exists>t'. recent_mt_proc_write lib md jiffies res stack True ''/'' 0 t = Done (Inr 1, t') \<and> (cache_ok md t' \<and> module_ok md) \<and>
      unat (nstamps_max_mask t') + 1 = unat (nstamps_max_mask t) + 1 \<and> cache t' = []" by auto
next
  fix t :: recent_table and lib p and ip :: "byte list" and b ss jiffies old rest
  assume "cache_ok md t \<and> module_ok md" "lib_reads lib" "k_heap t p = None" "length ip = 4"
    "length (restore_line ip b ss) \<le> MAX_WRITE"
  with file_49.restore_slots [of md t lib p ip b ss jiffies old rest]
  show "\<exists>t'. recent_mt_proc_write lib md jiffies (Some (p, old)) (CHR 0x00 # rest) True (restore_line ip b ss) 0 t =
      Done (Inr (length (restore_line ip b ss)), t') \<and> (cache_ok md t' \<and> module_ok md) \<and>
      unat (nstamps_max_mask t') + 1 = unat (nstamps_max_mask t) + 1 \<and>
      cache t' = c_restore (unat (ip_list_tot md)) (unat (nstamps_max_mask t) + 1) ip b ss (cache t)" by auto
qed

text \<open>An older table does what its view does.\<close>

lemma old_slots: "old_cache_ok md t \<Longrightarrow> unat (nstamps_max_mask (old_view md t)) + 1 = unat (ip_pkt_list_tot md)"
  using old_cache_okD [of md t] by (simp add: tot_mask_def)

lemma old_proc_write:
  assumes "recent_mt_proc_write_316 lib md jiffies res stack ok input loff (old_view md t) = Done (r, v)"
  obtains t' where "recent_mt_proc_write_316 lib md jiffies res stack ok input loff t = Done (r, t')" "v = old_view md t'"
  using assms by (auto simp: old.proc_write_316 map_run_Done_iff)

interpretation counter_316: counter_file md "\<lambda>t. old_cache_ok md t \<and> module_ok md" old_cache
  "\<lambda>_. unat (ip_pkt_list_tot md)" "\<lambda>t p. k_heap t p = None" "\<lambda>lib. recent_mt_proc_write_316 lib md"
  "\<lambda>lib. read_file_316 lib md" for md
proof unfold_locales
  fix t :: "'a recent_table_32_scheme" and lib and u :: xt_recent_entry
  assume t: "old_cache_ok md t \<and> module_ok md"
  then show "distinct (map c_key (old_cache t))"
    unfolding old_cache_ok_def old_cache_view [of md, symmetric] by (blast intro: cache_keys_distinct)
  assume "ipv4_only (old_cache t)"
  with t have v: "cache_fits (tot_mask md) md (old_view md t)" "module_ok md" "ipv4_only (cache (old_view md t))"
    by (simp_all add: old_cache_ok_def old_cache_view)
  show "\<exists>rs. read_file_316 lib md t = Done (map (\<lambda>r. row_text r @ [CHR 0x0A]) rs) \<and> rows_ok rs \<and>
      mset (map (\<lambda>r. (row_ip r, entry_view (row_value u r))) rs) = mset (map (\<lambda>c. (cached_ip c, cached_view c)) (old_cache t))"
    using read_rows_316 [OF v, of lib] rows_of_table(1) [OF v] rows_of_table(2) [OF v, of u]
    unfolding old.read_file_316 old_cache_view by blast
next
  fix t :: "'a recent_table_32_scheme" and lib jiffies res stack
  assume t: "old_cache_ok md t \<and> module_ok md"
  with file_316.flush_slots [of md "old_view md t" lib jiffies res stack] obtain v where
    v: "recent_mt_proc_write_316 lib md jiffies res stack True ''/'' 0 (old_view md t) = Done (Inr 1, v)"
    "cache_fits (tot_mask md) md v" "cache v = []" by (auto simp: old_cache_ok_def)
  from v(1) obtain t' where "recent_mt_proc_write_316 lib md jiffies res stack True ''/'' 0 t = Done (Inr 1, t')"
    "v = old_view md t'" by (rule old_proc_write)
  with v t show "\<exists>t'. recent_mt_proc_write_316 lib md jiffies res stack True ''/'' 0 t = Done (Inr 1, t') \<and>
      (old_cache_ok md t' \<and> module_ok md) \<and> unat (ip_pkt_list_tot md) = unat (ip_pkt_list_tot md) \<and> old_cache t' = []"
    by (auto simp: old_cache_ok_def old_cache_view)
next
  fix t :: "'a recent_table_32_scheme" and lib p and ip :: "byte list" and b ss jiffies old rest
  let ?l = "restore_line ip b ss"
  assume t: "old_cache_ok md t \<and> module_ok md" and a: "lib_reads lib" "k_heap t p = None" "length ip = 4" "length ?l \<le> MAX_WRITE"
  then have "cache_fits (tot_mask md) md (old_view md t)" "module_ok md" "k_heap (old_view md t) p = None"
    by (simp_all add: old_cache_ok_def old.embed)
  from file_316.restore_slots [OF this(1,2) a(1) this(3) a(3,4), of jiffies old rest] obtain v where
    v: "recent_mt_proc_write_316 lib md jiffies (Some (p, old)) (CHR 0x00 # rest) True ?l 0 (old_view md t) = Done (Inr (length ?l), v)"
    "cache_fits (tot_mask md) md v"
    "cache v = c_restore (unat (ip_list_tot md)) (unat (nstamps_max_mask (old_view md t)) + 1) ip b ss (cache (old_view md t))"
    by blast
  from v(1) obtain t' where
    "recent_mt_proc_write_316 lib md jiffies (Some (p, old)) (CHR 0x00 # rest) True ?l 0 t = Done (Inr (length ?l), t')"
    "v = old_view md t'" by (rule old_proc_write)
  with v t old_slots [of md t] show "\<exists>t'. recent_mt_proc_write_316 lib md jiffies (Some (p, old)) (CHR 0x00 # rest) True ?l 0 t =
      Done (Inr (length ?l), t') \<and> (old_cache_ok md t' \<and> module_ok md) \<and> unat (ip_pkt_list_tot md) = unat (ip_pkt_list_tot md) \<and>
      old_cache t' = c_restore (unat (ip_list_tot md)) (unat (ip_pkt_list_tot md)) ip b ss (old_cache t)"
    by (auto simp: old_cache_ok_def old_cache_view)
qed

section \<open>A table of any version\<close>

datatype kernel_table = Table_49 recent_table | Table_316 recent_table_316 | Table_32 recent_table_32

fun file_write ::
    "kernel_lib \<Rightarrow> recent_module \<Rightarrow> u64 \<Rightarrow> (ptr \<times> (nat \<Rightarrow> u64)) option \<Rightarrow> string \<Rightarrow> bool \<Rightarrow> string \<Rightarrow> nat \<Rightarrow>
     kernel_table \<Rightarrow> ((errno + nat) \<times> kernel_table) run" where
  "file_write lib md jiffies res stack ok input loff (Table_49 t) =
     map_run (on_snd Table_49) (recent_mt_proc_write lib md jiffies res stack ok input loff t)"
| "file_write lib md jiffies res stack ok input loff (Table_316 t) =
     map_run (on_snd Table_316) (recent_mt_proc_write_316 lib md jiffies res stack ok input loff t)"
| "file_write lib md jiffies res stack ok input loff (Table_32 t) =
     map_run (on_snd Table_32) (recent_mt_proc_write_316 lib md jiffies res stack ok input loff t)"

fun file_read :: "kernel_lib \<Rightarrow> recent_module \<Rightarrow> kernel_table \<Rightarrow> string list run" where
  "file_read lib md (Table_49 t) = read_file lib md t"
| "file_read lib md (Table_316 t) = read_file_316 lib md t"
| "file_read lib md (Table_32 t) = read_file_316 lib md t"

fun table_cache :: "kernel_table \<Rightarrow> cached list" where
  "table_cache (Table_49 t) = cache t"
| "table_cache (Table_316 t) = old_cache t"
| "table_cache (Table_32 t) = old_cache t"

fun table_fits :: "recent_module \<Rightarrow> kernel_table \<Rightarrow> bool" where
  "table_fits md (Table_49 t) = (cache_ok md t \<and> module_ok md)"
| "table_fits md (Table_316 t) = (old_cache_ok md t \<and> module_ok md)"
| "table_fits md (Table_32 t) = (old_cache_ok md t \<and> module_ok md)"

text \<open>How many stamps an entry keeps, and whether an address is unused.\<close>

fun table_slots :: "recent_module \<Rightarrow> kernel_table \<Rightarrow> nat" where
  "table_slots md (Table_49 t) = unat (nstamps_max_mask t) + 1"
| "table_slots md (Table_316 t) = unat (ip_pkt_list_tot md)"
| "table_slots md (Table_32 t) = unat (ip_pkt_list_tot md)"

fun unused :: "kernel_table \<Rightarrow> ptr \<Rightarrow> bool" where
  "unused (Table_49 t) p = (k_heap t p = None)"
| "unused (Table_316 t) p = (k_heap t p = None)"
| "unused (Table_32 t) p = (k_heap t p = None)"

interpretation counters: counter_file md "table_fits md" table_cache "table_slots md" unused
  "\<lambda>lib. file_write lib md" "\<lambda>lib. file_read lib md" for md
proof unfold_locales
  fix t and lib and u :: xt_recent_entry
  assume t: "table_fits md t"
  then show "distinct (map c_key (table_cache t))"
    by (cases t) (simp_all add: counter_49.keys counter_316.keys)
  assume "ipv4_only (table_cache t)"
  with t show "\<exists>rs. file_read lib md t = Done (map (\<lambda>r. row_text r @ [CHR 0x0A]) rs) \<and> rows_ok rs \<and>
      mset (map (\<lambda>r. (row_ip r, entry_view (row_value u r))) rs) =
      mset (map (\<lambda>c. (cached_ip c, cached_view c)) (table_cache t))"
    by (cases t) (simp_all only: table_fits.simps table_cache.simps file_read.simps counter_49.rows counter_316.rows)
next
  fix t lib jiffies res stack
  assume t: "table_fits md t"
  show "\<exists>t'. file_write lib md jiffies res stack True ''/'' 0 t = Done (Inr 1, t') \<and> table_fits md t' \<and>
      table_slots md t' = table_slots md t \<and> table_cache t' = []"
  proof (cases t)
    case (Table_49 t1)
    with t counter_49.flush [of md t1 lib jiffies res stack] show ?thesis by force
  next
    case (Table_316 t1)
    with t counter_316.flush [of md t1 lib jiffies res stack] show ?thesis by force
  next
    case (Table_32 t1)
    with t counter_316.flush [of md t1 lib jiffies res stack] show ?thesis by force
  qed
next
  fix t lib p and ip :: "byte list" and b ss jiffies old rest
  let ?l = "restore_line ip b ss"
  assume t: "table_fits md t" and a: "lib_reads lib" "unused t p" "length ip = 4" "length ?l \<le> MAX_WRITE"
  show "\<exists>t'. file_write lib md jiffies (Some (p, old)) (CHR 0x00 # rest) True ?l 0 t = Done (Inr (length ?l), t') \<and>
      table_fits md t' \<and> table_slots md t' = table_slots md t \<and>
      table_cache t' = c_restore (unat (ip_list_tot md)) (table_slots md t) ip b ss (table_cache t)"
  proof (cases t)
    case (Table_49 t1)
    with t a counter_49.restore [of md t1 lib p ip b ss jiffies old rest] show ?thesis by force
  next
    case (Table_316 t1)
    with t a counter_316.restore [of md t1 lib p ip b ss jiffies old rest] show ?thesis by force
  next
    case (Table_32 t1)
    with t a counter_316.restore [of md t1 lib p ip b ss jiffies old rest] show ?thesis by force
  qed
qed

end
