(* ===== verification/Failover.thy ===== *)
theory Failover
  imports Kernel_Files
begin

text \<open>
  The daemon and the kernel module together, for every version of the module: what
  \<open>base_sync::write_recent_all\<close> writes for a table, taken by \<open>recent_mt_proc_write\<close>, and shown again by
  \<open>recent_seq_show\<close> to \<open>xt_recent_proc::get_table\<close>. It rests on the contract \<open>counter_file\<close>.
\<close>

text \<open>A sequence of writes to the table's file. \<open>kmalloc\<close> gives the memory of a new entry.\<close>

definition write_file ::
    "kernel_lib \<Rightarrow> recent_module \<Rightarrow> (kernel_table \<Rightarrow> ptr \<times> (nat \<Rightarrow> u64)) \<Rightarrow> u64 \<Rightarrow> string \<Rightarrow> kernel_table \<Rightarrow>
     string list \<Rightarrow> kernel_table run" where
  "write_file lib md kmalloc jiffies stack =
     write_lines (\<lambda>t line. file_write lib md jiffies (Some (kmalloc t)) stack True line 0 t)"

definition fresh_memory :: "recent_module \<Rightarrow> (kernel_table \<Rightarrow> ptr \<times> (nat \<Rightarrow> u64)) \<Rightarrow> bool" where
  "fresh_memory md kmalloc \<longleftrightarrow> (\<forall>t. table_fits md t \<longrightarrow> unused t (fst (kmalloc t)))"

section \<open>Properties\<close>

text \<open>C3: what the daemon writes to the kernel on a failover, the flush and one line per address, the
  kernel shows again, whichever of the three versions of the module it runs: after the writes, reading the
  table's file gives the daemon the table it had, address by address with the TTL and the stamps, provided that
  the table fits the kernel's (number of addresses, of stamps, length of a line), that the addresses are IPv4
  with a TTL of a byte and at least one stamp, and that the kernel's stack is clean behind the line.\<close>

theorem failover_restores_table:
  assumes "lib_reads lib" and "fresh_memory md kmalloc" and "table_fits md t"
    and "entries table \<noteq> []" and "omap_ok (entries table)"
    and "\<forall>ke \<in> set (entries table). restorable (table_slots md t) ke"
    and "length (entries table) \<le> unat (ip_list_tot md)" and "re2_reads_rows pm"
  shows "\<exists>t' rows. write_file lib md kmalloc jiffies (CHR 0x00 # rest) t (map snd (table_writes (n, table))) = Done t' \<and>
    file_read lib md t' = Done (map (\<lambda>l. l @ [CHR 0x0A]) rows) \<and>
    (\<forall>files. files (xt_recent_dir @ n) = rows \<longrightarrow>
      (\<exists>table'. get_table pm u files n = Inr table' \<and>
        mmap entry_view (entries table') = mmap entry_view (entries table)))"
  unfolding write_file_def
  by (rule counters.failover [OF assms(1) assms(2) [unfolded fresh_memory_def] assms(3-8)])

text \<open>One address with two stamps, in a kernel of 3.16.43 with the 20 stamps that nothing else configures.\<close>

fun sample_kmalloc :: "kernel_table \<Rightarrow> ptr \<times> (nat \<Rightarrow> u64)" where
  "sample_kmalloc (Table_49 t) = (Suc (sum_list (lru_list t)), \<lambda>_. 0)"
| "sample_kmalloc (Table_316 t) = (Suc (sum_list (lru_list t)), \<lambda>_. 0)"
| "sample_kmalloc (Table_32 t) = (Suc (sum_list (lru_list t)), \<lambda>_. 0)"

lemma unlisted_free:
  assumes "cache_fits F md t"
  shows "k_heap t (Suc (sum_list (lru_list t))) = None"
proof -
  obtain ps where ps: "table_rel md t ps" using cache_okD [OF assms] .
  have "Suc (sum_list (lru_list t)) \<notin> set (lru_list t)" by (auto dest: member_le_sum_list)
  then show ?thesis using table_relD(4,5) [OF ps] by auto
qed

lemma unlisted_free_old: "old_cache_ok md t \<Longrightarrow> k_heap t (Suc (sum_list (lru_list t))) = None"
  using unlisted_free [of "tot_mask md" md "old_view md t"] by (simp add: old_cache_ok_def old.embed)

lemma sample_kmalloc_fresh: "fresh_memory md sample_kmalloc"
proof -
  have "unused t (fst (sample_kmalloc t))" if "table_fits md t" for t
    using that by (cases t) (auto dest: unlisted_free unlisted_free_old)
  then show ?thesis by (simp add: fresh_memory_def)
qed

definition sample_saved_table :: xt_recent_table where
  "sample_saved_table = new_xt_recent_table\<lparr>table_name := ''web'',
     entries := [(ipv4_string [10, 0, 0, 1], sample_entry\<lparr>ttl := 64, timestamps := [7, 5]\<rparr>)]\<rparr>"

definition sample_20_module :: recent_module where
  "sample_20_module = sample_module\<lparr>ip_pkt_list_tot := 20\<rparr>"

definition sample_316_table :: recent_table_316 where
  "sample_316_table = new_recent_table_316 sample_20_module (sample_rule [XT_RECENT_SET] False)"

lemma sample_316_fits: "table_fits sample_20_module (Table_316 sample_316_table)"
  "table_cache (Table_316 sample_316_table) = []"
proof -
  have "fls 100 = 7" by (simp add: fls.simps)
  then have md: "recent_mt_init_316 sample_20_module = Done (Inr sample_20_module)"
    by (simp add: sample_20_module_def recent_mt_init_316_def sample_module_def push_bit_eq_mult)
  show "table_fits sample_20_module (Table_316 sample_316_table)" "table_cache (Table_316 sample_316_table) = []"
    using loaded_316(1) [OF md] new_old_table(1,2) [OF md] by (simp_all add: sample_316_table_def)
qed

theorem failover_restores_table_witness:
  "\<exists>t' rows. write_file sample_lib sample_20_module sample_kmalloc 5000 (CHR 0x00 # []) (Table_316 sample_316_table)
      (map snd (table_writes (''web'', sample_saved_table))) = Done t' \<and>
    file_read sample_lib sample_20_module t' = Done (map (\<lambda>l. l @ [CHR 0x0A]) rows) \<and>
    (\<forall>files. files (xt_recent_dir @ ''web'') = rows \<longrightarrow>
      (\<exists>table'. get_table scan_row sample_entry files ''web'' = Inr table' \<and>
        mmap entry_view (entries table') = mmap entry_view (entries sample_saved_table)))"
proof (rule failover_restores_table [OF sample_lib_reads sample_kmalloc_fresh sample_316_fits(1) _ _ _ _ scan_row_reads])
  show "\<forall>ke \<in> set (entries sample_saved_table). restorable (table_slots sample_20_module (Table_316 sample_316_table)) ke"
    using is_ipv4_string [of "[10, 0, 0, 1]"]
    by (simp add: sample_saved_table_def restorable_def get_ttl_def entry_update_def MAX_WRITE_def ipv4_string_four
        to_string_u_def to_string_s_def dec_of_nat.simps sample_20_module_def)
qed (simp_all add: sample_saved_table_def sample_20_module_def sample_module_def)

text \<open>C15: reading the file ends: from the start, \<open>recent_seq_next\<close> reaches the end after as many steps
  as the table has entries, however many more are asked for, and has shown each entry once, bucket by
  bucket.\<close>

theorem file_walk_ends:
  assumes "table_rel md t ps" and "module_ok md" and "unat (k_entries t) \<le> n"
  shows "seq_walk md t n (recent_seq_start md t 0) = concat (iphash t) \<and>
    distinct (concat (iphash t)) \<and> set (concat (iphash t)) = set ps"
proof -
  note r = table_relD [OF assms(1)] and b = buckets_entries [OF assms(1,2)]
  have "length (concat (iphash t)) = length ps" using b r(2) by (metis distinct_card)
  with seq_walk_all [OF r(1) b(1)] r(8) assms(3)
  have "seq_walk md t n (recent_seq_start md t 0) = concat (iphash t)" by simp
  with b show ?thesis by blast
qed

theorem file_walk_ends_witness:
  "seq_walk sample_module sample_old_table 1000 (recent_seq_start sample_module sample_old_table 0) = [3]"
proof -
  have n: "unat (k_entries sample_old_table) \<le> 1000"
    using table_relD(8) [OF sample_old_table_rel] by simp
  note w = file_walk_ends [OF sample_old_table_rel sample_module_ok n]
  from w have "distinct (concat (iphash sample_old_table))" "set (concat (iphash sample_old_table)) = {3}" by auto
  then have "concat (iphash sample_old_table) = [3]" by (rule distinct_set_one)
  with w show ?thesis by simp
qed

end
