(* ===== verification/Takeover.thy ===== *)
theory Takeover
  imports Replication Failover
begin

text \<open>
  The whole way of the counters: the kernel's tables on the master are read by the polling thread, its
  actions go through the master's passes and over the link to the backup, and on a takeover the backup
  writes its tables to its own kernel.
\<close>

section \<open>The first poll of every table\<close>

definition same_view :: "recent_store \<Rightarrow> recent_store \<Rightarrow> bool" where
  "same_view d d' \<longleftrightarrow> (\<forall>n k. recent_view d n k = recent_view d' n k)"

definition regular_names :: "directory \<Rightarrow> string list" where
  "regular_names ds = map fst (filter snd ds)"

lemma table_actions_new: "table_actions n [] es = map (\<lambda>(k, e). get_entry_as_action n e False) es"
  by (simp add: table_actions_def changed_def mget_def)

lemma replay_new_table:
  assumes "same_view d known" and "mget known n = None" and "entries_ok (entries t)"
  shows "same_view (apply_recent_actions (table_actions n [] (entries t)) d) (mput n t known)"
  using assms(1,2) replay_table [of "[]" "entries t" n d] assms(3)
  by (auto simp: same_view_def recent_view_def store_simps changed_def mhas_def split: option.splits)

lemma scan_new_tables:
  assumes "scan_tables pm u files ds s = Inr s'" and "distinct (regular_names ds)"
    and "\<forall>n \<in> set (regular_names ds). mget (recent_known s) n = None"
    and "recent_ok (recent_known s)" and "same_view d (recent_known s)"
  shows "\<exists>as. recent_input s' = recent_input s @ as \<and> recent_ok (recent_known s') \<and>
    same_view (apply_recent_actions as d) (recent_known s') \<and>
    (\<forall>a \<in> set as. \<exists>n \<in> set (regular_names ds). \<exists>t e. get_table pm u files n = Inr t \<and>
       e \<in> snd ` set (entries t) \<and> a = get_entry_as_action n e False) \<and>
    (\<forall>n. mget (recent_known s') n = (if n \<in> set (regular_names ds)
       then (case get_table pm u files n of Inr t \<Rightarrow> Some t | Inl _ \<Rightarrow> None) else mget (recent_known s) n)) \<and>
    (\<forall>n \<in> set (regular_names ds). \<exists>t. get_table pm u files n = Inr t)"
  using assms
proof (induction pm u files ds s arbitrary: d rule: scan_tables.induct)
  case (1 pm u files s)
  then show ?case by (auto simp: regular_names_def intro: exI [of _ "[]"])
next
  case (2 pm u files name regular ds s)
  show ?case
  proof (cases regular)
    case False
    with 2 show ?thesis by (simp add: regular_names_def)
  next
    case True
    then have ns: "regular_names ((name, regular) # ds) = name # regular_names ds" by (simp add: regular_names_def)
    from 2(3) True obtain t where t: "get_table pm u files name = Inr t"
      by (auto simp: get_table_updates_def split: sum.splits)
    have new: "mget (recent_known s) name = None" "name \<notin> set (regular_names ds)" using 2(4,5) by (auto simp: ns)
    then have old: "known_entries (recent_known s) name = []" by (simp add: known_entries_def mref_def)
    let ?as = "table_actions name [] (entries t)"
    let ?s = "s\<lparr>recent_known := mtouch new_xt_recent_table (recent_known s) name,
      recent_input := recent_input s @ ?as\<rparr>"
    have upd: "get_table_updates pm u files name s = Inr (t, ?s)"
      using get_table_updates_eq [OF t, of s] by (simp add: old)
    let ?s' = "?s\<lparr>recent_known := mput name t (recent_known ?s)\<rparr>"
    have k: "recent_known ?s' = mput name t (recent_known s)"
      using 2(6) by (simp add: recent_ok_def mput_mtouch)
    have scan: "scan_tables pm u files ds ?s' = Inr s'" using 2(3) True upd by simp
    have ok: "recent_ok (recent_known ?s')" unfolding k
      using 2(6) get_table_ok(1) [OF t] by (rule recent_ok_mput)
    have v: "same_view (apply_recent_actions ?as d) (recent_known ?s')" unfolding k
      by (rule replay_new_table [OF 2(7) new(1) get_table_ok(1) [OF t]])
    have rest: "\<forall>n \<in> set (regular_names ds). mget (recent_known ?s') n = None"
      unfolding k using 2(5) new(2) by (auto simp: ns store_simps)
    have d: "distinct (regular_names ds)" using 2(4) by (simp add: ns)
    from 2(1) [OF True upd refl scan d rest ok v] obtain bs where bs: "recent_input s' = recent_input ?s' @ bs"
      "recent_ok (recent_known s')" "same_view (apply_recent_actions bs (apply_recent_actions ?as d)) (recent_known s')"
      "\<forall>a \<in> set bs. \<exists>n \<in> set (regular_names ds). \<exists>t e. get_table pm u files n = Inr t \<and>
         e \<in> snd ` set (entries t) \<and> a = get_entry_as_action n e False"
      "\<forall>n. mget (recent_known s') n = (if n \<in> set (regular_names ds)
         then (case get_table pm u files n of Inr t \<Rightarrow> Some t | Inl _ \<Rightarrow> None) else mget (recent_known ?s') n)"
      "\<forall>n \<in> set (regular_names ds). \<exists>t. get_table pm u files n = Inr t"
      by blast
    have as: "\<forall>a \<in> set ?as. \<exists>e. e \<in> snd ` set (entries t) \<and> a = get_entry_as_action name e False"
      by (force simp: table_actions_new)
    show ?thesis
      unfolding ns
    proof (intro exI [of _ "?as @ bs"] conjI)
      show "\<forall>n. mget (recent_known s') n = (if n \<in> set (name # regular_names ds)
         then (case get_table pm u files n of Inr t \<Rightarrow> Some t | Inl _ \<Rightarrow> None) else mget (recent_known s) n)"
        using bs(5) t new(2) unfolding k by (auto simp: store_simps)
      show "\<forall>a \<in> set (?as @ bs). \<exists>n \<in> set (name # regular_names ds). \<exists>t e. get_table pm u files n = Inr t \<and>
         e \<in> snd ` set (entries t) \<and> a = get_entry_as_action n e False"
        using as bs(4) t by (auto 0 3)
    qed (use bs t in auto)
  qed
qed

text \<open>The daemon reads every entry as an IPv4 one.\<close>

lemma parse_file_row_family: "parse_file_row pm u l = Inr e \<Longrightarrow> ip_fam e = IPV4"
  by (auto simp: parse_file_row_def Let_def split: sum.splits)

lemma table_rows_family:
  "table_rows pm u ls t = Inr t' \<Longrightarrow> \<forall>k e. mget (entries t) k = Some e \<longrightarrow> ip_fam e = IPV4 \<Longrightarrow>
   omap_ok (entries t) \<Longrightarrow> \<forall>k e. mget (entries t') k = Some e \<longrightarrow> ip_fam e = IPV4"
proof (induction pm u ls t rule: table_rows.induct)
  case (2 pm u line rest table)
  from 2(2) obtain e where e: "parse_file_row pm u line = Inr e" by (auto split: sum.splits)
  show ?case
    by (rule 2(1) [OF e]) (use 2(2-4) e parse_file_row_family [OF e] in \<open>auto simp: store_simps\<close>)
qed simp

lemma get_table_family:
  assumes "get_table pm u files n = Inr t" and "(k, e) \<in> set (entries t)"
  shows "ip_fam e = IPV4" and "src_ip e = k"
proof -
  from get_table_ok(1) [OF assms(1)] have ok: "omap_ok (entries t)" "\<forall>(k, e) \<in> set (entries t). src_ip e = k"
    by (simp_all add: entries_ok_def)
  with assms(2) show "src_ip e = k" by blast
  have "mget (entries t) k = Some e" using omap_in_set [OF ok(1)] assms(2) by blast
  moreover have "\<forall>k e. mget (entries t) k = Some e \<longrightarrow> ip_fam e = IPV4"
    using assms(1) by (intro table_rows_family [OF assms(1) [unfolded get_table_def]]) (simp_all add: mget_def)
  ultimately show "ip_fam e = IPV4" by blast
qed

section \<open>Entries that travel\<close>

text \<open>
  What an entry of the master's kernel needs to reach the backup's kernel whole: a stamp that is not 0, no
  more stamps than the wire's byte and the other kernel's ring hold, and a line that the kernel takes.
\<close>

definition travels :: "nat \<Rightarrow> cached \<Rightarrow> bool" where
  "travels n c \<longleftrightarrow>
     (let ss = filter (\<lambda>s. s \<noteq> 0) (c_stamps c)
      in ss \<noteq> [] \<and> length ss \<le> 255 \<and> length ss \<le> n \<and>
         length (restore_line (take 4 (c_addr c)) (c_ttl c) (sort ss)) \<le> MAX_WRITE)"

lemma byte_as_ttl:
  fixes b :: byte
  shows "0 \<le> sint (ucast b :: s32)" "sint (ucast b :: s32) < 256" "to_string_s (ucast b :: s32) = to_string_u b"
proof -
  have u: "0 \<le> uint b" "uint b < 256" using uint_lt2p [of b] by simp_all
  then have "sint (ucast b :: s32) = signed_take_bit 31 (uint b)"
    by (simp add: sint_uint unsigned_ucast_eq take_bit_int_eq_self)
  also have "\<dots> = uint b"
    by (rule signed_take_bit_int_eq_self) (rule order_trans [OF _ u(1)], use u(2) in simp_all)
  finally have "sint (ucast b :: s32) = uint b" .
  then show *: "0 \<le> sint (ucast b :: s32)" "sint (ucast b :: s32) < 256"
    using uint_lt2p [of b] by simp_all
  show "to_string_s (ucast b :: s32) = to_string_u b" using byte_ttl(1) [OF *] by simp
qed

lemma travelling_entry:
  assumes "travels n c" and "c_addr c = ipv4_addr ip" and "length ip = 4"
    and "entry_view e = cached_view c" and "k = cached_ip c" and "src_ip e = k" and "ip_fam e = IPV4"
  shows "restorable n (k, wire_entry e)" "entry_view (wire_entry e) = entry_view e" "length (timestamps e) \<le> 255"
    "is_ipv4 (src_ip e)"
proof -
  let ?ss = "filter (\<lambda>s. s \<noteq> 0) (c_stamps c)"
  have t: "ttl e = ucast (c_ttl c)" "sort (timestamps e) = sort ?ss"
    using assms(4) by (simp_all add: entry_view_def cached_view_def get_ttl_def)
  have w: "wire_entry e = e\<lparr>last_seen := None, last_seen_index := ucast (ucast (last_seen_index e) :: byte)\<rparr>"
    by (simp add: wire_entry_def entry_decoded_def t(1))
  show v: "entry_view (wire_entry e) = entry_view e" by (simp add: w entry_view_def get_ttl_def)
  have k: "k = ipv4_string ip" using assms(2,3,5) by (simp add: cached_ip_def)
  then have k4: "is_ipv4 k" using is_ipv4_string assms(3) by simp
  with assms(6) show "is_ipv4 (src_ip e)" by simp
  have m: "mset (timestamps e) = mset ?ss" using arg_cong [OF t(2), of mset] by simp
  then have len: "length (timestamps e) = length ?ss" by (metis size_mset)
  have "set (timestamps e) = set ?ss" using m by (metis set_mset_mset)
  then have z: "0 \<notin> set (timestamps e)" by simp
  show "length (timestamps e) \<le> 255" using assms(1) len by (simp add: travels_def Let_def)
  have "timestamps e \<noteq> []" using assms(1) len by (auto simp: travels_def Let_def)
  moreover have "entry_update k (wire_entry e) = restore_line ip (c_ttl c) (sort ?ss)"
    by (simp add: entry_update_def restore_line_def stamps_text_def w get_ttl_def t byte_as_ttl k)
  ultimately show "restorable n (k, wire_entry e)"
    using assms(1-3) k4 z len byte_as_ttl(1,2) [of "c_ttl c"]
    by (simp add: restorable_def w get_ttl_def t(1) travels_def Let_def)
qed

lemma travelling_action:
  assumes "is_ipv4 (src_ip e)" and "ip_fam e = IPV4" and "length (timestamps e) \<le> 255"
    and "length n \<le> 253" and "CHR 0x00 \<notin> set n"
  shows "link_good (Recent_pkt (get_entry_as_action n e False))"
  using assms by (simp add: link_good_def get_packet_parser_def recent_good_def ip_family_of_byte_def action_type_of_byte_def)

section \<open>The master's passes\<close>

text \<open>Passes over the recent actions, each over ten of them at most.\<close>

fun recent_passes :: "world \<Rightarrow> nat \<Rightarrow> sync_master \<Rightarrow> sync_master run" where
  "recent_passes w 0 m = Done m"
| "recent_passes w (Suc k) m = run_bind (recent_pass w 10 m) (recent_passes w k)"

lemma recent_passes_deliver:
  assumes "serving w d m" and "length (recent_input (recent_listener m)) \<le> 10 * k"
    and "\<forall>a \<in> set (recent_input (recent_listener m)). link_good (Recent_pkt a) \<and> pkt_fd a = - 1"
  shows "\<exists>m' out. recent_passes w k m = Done m' \<and> link_log (trace m') = link_log (trace m) @ out \<and>
    bytes_to d out = concat (map (\<lambda>a. link_wire (Recent_pkt a)) (recent_input (recent_listener m)))"
  using assms
proof (induction k arbitrary: m)
  case 0
  then show ?case by (simp add: bytes_to_def)
next
  case (Suc k)
  let ?in = "recent_input (recent_listener m)"
  let ?ps = "map Recent_pkt (take 10 ?in)"
  have good: "\<forall>a \<in> set ?in. link_good (Recent_pkt a)" using Suc.prems(3) by blast
  obtain m1 where m1: "recent_pass w 10 m = Done m1"
    "link_log (trace m1) = link_log (trace m) @ broadcast (conn m) ?ps"
    using recent_pass_delivers [of w m 10] serving_up [OF Suc.prems(1)] good by blast
  note f = recent_pass_Done [OF m1(1)]
  have "serving w d m1" using Suc.prems(1) f by (simp add: serving_def)
  moreover have "length (recent_input (recent_listener m1)) \<le> 10 * k" using Suc.prems(2) f by simp
  moreover have "\<forall>a \<in> set (recent_input (recent_listener m1)). link_good (Recent_pkt a) \<and> pkt_fd a = - 1"
    using Suc.prems(3) f by (auto dest: in_set_dropD)
  ultimately obtain m' out where m': "recent_passes w k m1 = Done m'" "link_log (trace m') = link_log (trace m1) @ out"
    "bytes_to d out = concat (map (\<lambda>a. link_wire (Recent_pkt a)) (drop 10 ?in))"
    using Suc.IH [of m1] f by auto
  have "\<forall>p \<in> set ?ps. pkt_fd (base_of p) = - 1" using Suc.prems(3) by (auto dest: in_set_takeD)
  from serving_bytes [OF Suc.prems(1) this]
  have b: "bytes_to d (broadcast (conn m) ?ps) = concat (map (\<lambda>a. link_wire (Recent_pkt a)) (take 10 ?in))"
    by (simp add: comp_def)
  have "bytes_to d (broadcast (conn m) ?ps @ out) =
      concat (map (\<lambda>a. link_wire (Recent_pkt a)) (take 10 ?in @ drop 10 ?in))"
    by (simp only: bytes_to_append b m'(3) map_append concat_append)
  then have "bytes_to d (broadcast (conn m) ?ps @ out) = concat (map (\<lambda>a. link_wire (Recent_pkt a)) ?in)"
    by (simp only: append_take_drop_id)
  with m1 m' show ?case by (intro exI [of _ m'] exI [of _ "broadcast (conn m) ?ps @ out"]) simp
qed

section \<open>The backup's writes\<close>

text \<open>What the log of \<open>write_recent_all\<close> has for one file.\<close>

definition writes_to :: "string \<Rightarrow> (string \<times> string) list \<Rightarrow> string list" where
  "writes_to n log = map snd (filter (\<lambda>(path, _). path = proc_path n) log)"

lemma writes_to_append [simp]: "writes_to n (xs @ ys) = writes_to n xs @ writes_to n ys"
  by (simp add: writes_to_def)

lemma proc_path_eq: "CHR 0x00 \<notin> set n \<Longrightarrow> proc_path n = ''/proc/net/xt_recent/'' @ n"
  unfolding proc_path_def c_str_def by (rule takeWhile_eq_all_conv [THEN iffD2]) auto

lemma writes_to_tables:
  assumes "CHR 0x00 \<notin> set n" and "\<forall>(m, t) \<in> set d. entries t \<noteq> [] \<longrightarrow> CHR 0x00 \<notin> set m" and "omap_ok d"
  shows "writes_to n (concat (map table_writes d)) =
    (case mget d n of None \<Rightarrow> [] | Some t \<Rightarrow> map snd (table_writes (n, t)))"
proof -
  have own: "writes_to n (table_writes (m, t)) = (if m = n then map snd (table_writes (n, t)) else [])"
    if "entries t \<noteq> [] \<longrightarrow> CHR 0x00 \<notin> set m" for m t
    using that by (auto simp: table_writes_def writes_to_def proc_path_eq [OF assms(1)] proc_path_eq case_prod_beta
        comp_def filter_map filter_empty_conv)
  show ?thesis
    using assms(2) omap_distinct [OF assms(3)]
  proof (induction d)
    case (Cons x d)
    obtain m t where x: "x = (m, t)" by force
    have tail: "writes_to n (concat (map table_writes d)) =
        (case map_of d n of None \<Rightarrow> [] | Some t \<Rightarrow> map snd (table_writes (n, t)))"
      using Cons by (auto simp: mget_def)
    show ?case
    proof (cases "m = n")
      case True
      then have "map_of d n = None" using Cons.prems(2) by (simp add: x map_of_eq_None_iff)
      with True tail own [of t m] Cons.prems(1) show ?thesis by (auto simp: x mget_def)
    next
      case False
      with tail own [of t m] Cons.prems(1) show ?thesis by (auto simp: x mget_def)
    qed
  qed (simp add: mget_def writes_to_def)
qed

section \<open>From kernel to kernel\<close>

text \<open>What a kernel table holds: per address the TTL and the stamps.\<close>

definition kernel_view :: "kernel_table \<Rightarrow> string \<Rightarrow> (s32 \<times> u64 list) option" where
  "kernel_view t = map_of (map (\<lambda>c. (cached_ip c, cached_view c)) (table_cache t))"

text \<open>The master's kernel shows the tables \<open>km\<close> in the files that are polled.\<close>

definition kernel_read ::
    "re2 \<Rightarrow> kernel_lib \<Rightarrow> recent_module \<Rightarrow> (string \<Rightarrow> kernel_table) \<Rightarrow> files \<Rightarrow> string list \<Rightarrow> bool" where
  "kernel_read pm lib md km files ns \<longleftrightarrow> re2_reads_rows pm \<and>
     (\<forall>n \<in> set ns. length n \<le> 253 \<and> CHR 0x00 \<notin> set n \<and> table_fits md (km n) \<and> ipv4_only (table_cache (km n)) \<and>
        file_read lib md (km n) = Done (map (\<lambda>l. l @ [CHR 0x0A]) (files (xt_recent_dir @ n))))"

text \<open>The backup's kernel has tables \<open>kb\<close> of the same names, large enough for what \<open>km\<close> hold.\<close>

definition kernel_takes ::
    "kernel_lib \<Rightarrow> recent_module \<Rightarrow> (kernel_table \<Rightarrow> ptr \<times> (nat \<Rightarrow> u64)) \<Rightarrow> (string \<Rightarrow> kernel_table) \<Rightarrow>
     (string \<Rightarrow> kernel_table) \<Rightarrow> string list \<Rightarrow> bool" where
  "kernel_takes lib md kmalloc kb km ns \<longleftrightarrow> lib_reads lib \<and> fresh_memory md kmalloc \<and>
     (\<forall>n \<in> set ns. table_fits md (kb n) \<and> length (table_cache (km n)) \<le> unat (ip_list_tot md) \<and>
        (\<forall>c \<in> set (table_cache (km n)). travels (table_slots md (kb n)) c))"

lemma kernel_table:
  assumes "kernel_read pm lib md km files ns" and "n \<in> set ns"
    and "\<forall>c \<in> set (table_cache (km n)). travels m c"
  shows "\<exists>t. get_table pm u files n = Inr t \<and> entries_ok (entries t) \<and>
    (\<forall>k. mget (mmap entry_view (entries t)) k = kernel_view (km n) k) \<and>
    (\<forall>(k, e) \<in> set (entries t). restorable m (k, wire_entry e) \<and> entry_view (wire_entry e) = entry_view e \<and>
       link_good (Recent_pkt (get_entry_as_action n e False)))"
proof -
  from assms(1,2) have kr: "re2_reads_rows pm" "length n \<le> 253" "CHR 0x00 \<notin> set n" "table_fits md (km n)"
    "ipv4_only (table_cache (km n))" "file_read lib md (km n) = Done (map (\<lambda>l. l @ [CHR 0x0A]) (files (xt_recent_dir @ n)))"
    by (simp_all add: kernel_read_def)
  from counters.daemon_reads [OF kr(4,5,1), where files = files and n = n and u = u, OF kr(6)] obtain t where t: "get_table pm u files n = Inr t"
    "entries_ok (entries t)" "\<And>k. mget (mmap entry_view (entries t)) k = kernel_view (km n) k"
    by (auto simp: kernel_view_def)
  have "restorable m (k, wire_entry e) \<and> entry_view (wire_entry e) = entry_view e \<and>
      link_good (Recent_pkt (get_entry_as_action n e False))" if ke: "(k, e) \<in> set (entries t)" for k e
  proof -
    have "omap_ok (entries t)" using t(2) by (simp add: entries_ok_def)
    with ke have "mget (entries t) k = Some e" by (simp add: omap_in_set)
    then have "kernel_view (km n) k = Some (entry_view e)" using t(3) [of k] by (simp add: store_simps)
    then obtain c where c: "c \<in> set (table_cache (km n))" "k = cached_ip c" "entry_view e = cached_view c"
      unfolding kernel_view_def by (auto dest!: map_of_SomeD)
    obtain ip where ip: "length ip = 4" "c_addr c = ipv4_addr ip" using kr(5) c(1) by (auto simp: ipv4_only_def)
    note fam = get_table_family [OF t(1) ke]
    have "travels m c" using assms(3) c(1) by blast
    from travelling_entry [OF this ip(2,1) c(3,2) fam(2,1)] travelling_action [OF _ fam(1) _ kr(2,3)]
    show ?thesis by blast
  qed
  with t show ?thesis by blast
qed

lemma scan_tables_total:
  assumes "\<forall>n \<in> set (regular_names ds). \<exists>t. get_table pm u files n = Inr t"
  shows "\<exists>s'. scan_tables pm u files ds s = Inr s'"
  using assms
proof (induction ds arbitrary: s)
  case (Cons x ds)
  obtain n regular where x: "x = (n, regular)" by force
  show ?case
  proof (cases regular)
    case True
    with Cons.prems x obtain t where t: "get_table pm u files n = Inr t" by (auto simp: regular_names_def)
    have "\<forall>n \<in> set (regular_names ds). \<exists>t. get_table pm u files n = Inr t"
      using Cons.prems x by (auto simp: regular_names_def)
    from Cons.IH [OF this] show ?thesis by (simp add: x True get_table_updates_eq [OF t])
  next
    case False
    with Cons show ?thesis by (auto simp: x regular_names_def)
  qed
qed simp

text \<open>The backup's store, given what its views are, and what it writes for one table.\<close>

lemma backup_table:
  assumes "recent_ok d'" and "\<And>k. recent_view d' n k = map_option wire_entry (mget (entries t) k)"
    and "entries_ok (entries t)" and "entries t \<noteq> []"
  shows "\<exists>tb. mget d' n = Some tb \<and> entries tb = mmap wire_entry (entries t)"
proof -
  have ok: "omap_ok (entries t)" using assms(3) by (simp add: entries_ok_def)
  from assms(4) obtain k e es where "entries t = (k, e) # es" by (cases "entries t") auto
  then have "mget (entries t) k = Some e" by (simp add: mget_def)
  then have "recent_view d' n k \<noteq> None" using assms(2) by simp
  then obtain tb where tb: "mget d' n = Some tb" by (auto simp: recent_view_def split: option.splits)
  have "entries tb = mmap wire_entry (entries t)"
  proof (rule omap_ext)
    show "omap_ok (entries tb)" using assms(1) tb by (auto simp: recent_ok_iff entries_ok_def)
    show "mget (entries tb) k = mget (mmap wire_entry (entries t)) k" for k
      using assms(2) [of k] by (simp add: recent_view_def tb store_simps)
  qed (simp add: ok)
  with tb show ?thesis by blast
qed

lemma backup_writes:
  assumes "kernel_takes lib mdb kmalloc kb km ns" and "n \<in> set ns" and "table_cache (km n) \<noteq> []"
    and "entries_ok (entries t)" and "\<And>k. mget (mmap entry_view (entries t)) k = kernel_view (km n) k"
    and "\<forall>(k, e) \<in> set (entries t). restorable (table_slots mdb (kb n)) (k, wire_entry e) \<and>
      entry_view (wire_entry e) = entry_view e"
    and "entries tb = mmap wire_entry (entries t)" and "distinct (map cached_ip (table_cache (km n)))"
  shows "\<exists>t'. write_file lib mdb kmalloc jiffies (CHR 0x00 # rest) (kb n) (map snd (table_writes (n, tb))) = Done t' \<and>
    table_fits mdb t' \<and> kernel_view t' = kernel_view (km n)"
proof -
  from assms(1,2) have kt: "lib_reads lib" "\<forall>t. table_fits mdb t \<longrightarrow> unused t (fst (kmalloc t))" "table_fits mdb (kb n)"
    "length (table_cache (km n)) \<le> unat (ip_list_tot mdb)"
    by (simp_all add: kernel_takes_def fresh_memory_def)
  have ok: "omap_ok (entries t)" using assms(4) by (simp add: entries_ok_def)
  have ks: "set (map fst (entries t)) = set (map cached_ip (table_cache (km n)))"
  proof -
    have "k \<in> set (map fst (entries t)) \<longleftrightarrow> k \<in> set (map cached_ip (table_cache (km n)))" for k
    proof -
      have "k \<in> set (map fst (entries t)) \<longleftrightarrow> mget (mmap entry_view (entries t)) k \<noteq> None"
        by (simp add: store_simps mget_None_iff)
      also have "\<dots> \<longleftrightarrow> k \<in> set (map cached_ip (table_cache (km n)))"
        unfolding assms(5) kernel_view_def by (simp add: map_of_eq_None_iff comp_def image_image)
      finally show ?thesis .
    qed
    then show ?thesis by blast
  qed
  then have len: "length (entries t) = length (table_cache (km n))"
    using distinct_card [OF omap_distinct [OF ok]] distinct_card [OF assms(8)] by simp
  have r: "\<forall>ke \<in> set (entries tb). restorable (table_slots mdb (kb n)) ke"
    using assms(6) by (auto simp: assms(7) mmap_def)
  have "entries t \<noteq> []" using len assms(3) by auto
  then have ne: "entries tb \<noteq> []" by (simp add: assms(7) mmap_def)
  have "omap_ok (entries tb)" "length (entries tb) \<le> unat (ip_list_tot mdb)"
    using ok len kt(4) by (simp_all add: assms(7), simp add: mmap_def)
  from counters.write_table [OF kt(1-3) ne this(1) r this(2)] obtain t' where
    t': "write_file lib mdb kmalloc jiffies (CHR 0x00 # rest) (kb n) (map snd (table_writes (n, tb))) = Done t'"
      "table_fits mdb t'" "table_cache t' = map restored (entries tb)"
    unfolding write_file_def by blast
  have "mmap entry_view (entries tb) = mmap entry_view (entries t)"
    using assms(6) by (auto simp: assms(7) mmap_def)
  then have "kernel_view t' = kernel_view (km n)"
    unfolding kernel_view_def [of t'] t'(3) restored_views [OF r]
    by (intro ext) (simp add: assms(5) [symmetric] mget_def)
  with t' show ?thesis by blast
qed

lemma kernel_ips_distinct:
  assumes "kernel_read pm lib md km files ns" and "n \<in> set ns"
  shows "distinct (map cached_ip (table_cache (km n)))"
proof -
  from assms have "table_fits md (km n)" "ipv4_only (table_cache (km n))" by (auto simp: kernel_read_def)
  then show ?thesis using cached_ips_distinct counters.keys by blast
qed

lemma nonempty_table:
  assumes "\<And>k. mget (mmap entry_view (entries t)) k = kernel_view (km n) k" and "table_cache (km n) \<noteq> []"
  shows "entries t \<noteq> []"
proof
  assume "entries t = []"
  moreover obtain c cs where "table_cache (km n) = c # cs" using assms(2) by (cases "table_cache (km n)") auto
  ultimately show False using assms(1) [of "cached_ip c"] by (simp add: mget_def mmap_def kernel_view_def)
qed

lemma written_names:
  assumes "recent_ok d" and "(n, t) \<in> set d" and "entries t \<noteq> []"
  shows "\<exists>k. recent_view d n k \<noteq> None"
proof -
  from assms(3) obtain k e es where "entries t = (k, e) # es" by (cases "entries t") auto
  moreover have "mget d n = Some t" using assms(1,2) by (simp add: omap_in_set recent_ok_def)
  ultimately show ?thesis by (auto simp: recent_view_def mget_def intro!: exI [of _ k])
qed

lemma takeover_log:
  fixes b :: base_sync
  assumes "\<forall>i. proc_io w i = (True, True)"
  obtains b' where "write_recent_all w b = (True, b')"
    "proc_log (trace b') = proc_log (trace b) @ concat (map table_writes (recent_data b))"
proof -
  obtain ok t where r: "write_tables w (recent_data b) (trace b) = (ok, t)" by force
  moreover have "ok" using write_tables_ok [of w "recent_data b" "trace b"] assms r by simp
  ultimately show ?thesis
    using that [of "b\<lparr>trace := t\<rparr>"] write_tables_True [of w "recent_data b" "trace b" t]
    by (simp add: write_recent_all_def)
qed

section \<open>Properties\<close>

text \<open>C2: from kernel to kernel, each running any of the three versions of the module: a first poll of the master's tables queues actions that the master's passes
  send to a connected backup; however TCP cuts them, the backup, starting empty, applies them all, and when it
  takes over its writes go through and leave in its kernel, for each table, the addresses with the TTLs and the
  stamps that the master's kernel had.\<close>

theorem takeover_restores_kernel:
  assumes "kernel_read pm lib mdm km files (regular_names ds)" and "distinct (regular_names ds)"
    and "kernel_takes libb mdb kmalloc kb km (regular_names ds)"
    and "serving w d m" and "recent_known (recent_listener m) = []" and "recent_input (recent_listener m) = []"
    and "idle_link (conn b) sfd c" and "recent_data b = []" and "\<forall>i. proc_io w'' i = (True, True)"
  shows "\<exists>polled. scan_tables pm u files ds (recent_listener m) = Inr polled \<and>
    (\<forall>k. length (recent_input polled) \<le> 10 * k \<longrightarrow>
      (\<exists>m'. recent_passes w k (m\<lparr>recent_listener := polled\<rparr>) = Done m' \<and>
        (\<forall>rounds. segmentation c (bytes_to d (new_log m m')) rounds \<longrightarrow>
          (\<exists>b' b''. receive_and_apply w' ur uh sfd rounds (length (recent_input polled)) b = Done b' \<and>
            write_recent_all w'' b' = (True, b'') \<and>
            (\<forall>n \<in> set (regular_names ds). table_cache (km n) \<noteq> [] \<longrightarrow>
              (\<exists>t'. write_file libb mdb kmalloc jiffies (CHR 0x00 # rest) (kb n) (writes_to n
                      (drop (length (proc_log (trace b'))) (proc_log (trace b'')))) = Done t' \<and>
                table_fits mdb t' \<and> kernel_view t' = kernel_view (km n)))))))"
proof -
  let ?ns = "regular_names ds"
  note kr = kernel_table [OF assms(1), where u = u]
  have fits: "\<forall>c \<in> set (table_cache (km n)). travels (table_slots mdb (kb n)) c" if "n \<in> set ?ns" for n
    using assms(3) that by (simp add: kernel_takes_def)
  have tabs: "\<forall>n \<in> set ?ns. \<exists>t. get_table pm u files n = Inr t" using kr fits by blast
  from scan_tables_total [OF tabs] obtain polled where polled: "scan_tables pm u files ds (recent_listener m) = Inr polled"
    by blast
  have start: "\<forall>n \<in> set ?ns. mget (recent_known (recent_listener m)) n = None" "recent_ok (recent_known (recent_listener m))"
    "same_view [] (recent_known (recent_listener m))"
    by (simp_all add: assms(5) mget_def same_view_def)
  from scan_new_tables [OF polled assms(2) start] obtain as where as: "recent_input polled = as"
    "same_view (apply_recent_actions as []) (recent_known polled)"
    "\<forall>a \<in> set as. \<exists>n \<in> set ?ns. \<exists>t e. get_table pm u files n = Inr t \<and>
       e \<in> snd ` set (entries t) \<and> a = get_entry_as_action n e False"
    "\<And>n. mget (recent_known polled) n = (if n \<in> set ?ns
       then (case get_table pm u files n of Inr t \<Rightarrow> Some t | Inl _ \<Rightarrow> None) else None)"
    by (auto simp: assms(5,6) mget_def)
  have good: "\<forall>a \<in> set as. link_good (Recent_pkt a) \<and> pkt_fd a = - 1"
    using as(3) kr fits by fastforce
  show ?thesis
  proof (intro exI [of _ polled] conjI allI impI)
    fix k assume k: "length (recent_input polled) \<le> 10 * k"
    let ?m = "m\<lparr>recent_listener := polled\<rparr>"
    have "serving w d ?m" using assms(4) by (simp add: serving_def)
    from recent_passes_deliver [OF this, of k] k good as(1) obtain m' out where m': "recent_passes w k ?m = Done m'"
      "link_log (trace m') = link_log (trace m) @ out" "bytes_to d out = concat (map (\<lambda>a. link_wire (Recent_pkt a)) as)"
      by auto
    show "\<exists>m'. recent_passes w k ?m = Done m' \<and>
      (\<forall>rounds. segmentation c (bytes_to d (new_log m m')) rounds \<longrightarrow>
        (\<exists>b' b''. receive_and_apply w' ur uh sfd rounds (length (recent_input polled)) b = Done b' \<and>
          write_recent_all w'' b' = (True, b'') \<and>
          (\<forall>n \<in> set ?ns. table_cache (km n) \<noteq> [] \<longrightarrow>
            (\<exists>t'. write_file libb mdb kmalloc jiffies (CHR 0x00 # rest) (kb n) (writes_to n
                    (drop (length (proc_log (trace b'))) (proc_log (trace b'')))) = Done t' \<and>
              table_fits mdb t' \<and> kernel_view t' = kernel_view (km n)))))"
    proof (intro exI [of _ m'] conjI allI impI)
      fix rounds assume "segmentation c (bytes_to d (new_log m m')) rounds"
      then have "segmentation c (concat (map (link_wire \<circ> Recent_pkt) as)) rounds"
        using m'(2,3) by (simp add: new_log_def comp_def)
      from receive_recents [OF assms(7) this] good obtain b' where
        b': "receive_and_apply w' ur uh sfd rounds (length as) b = Done b'"
          "recent_data b' = apply_recent_actions (map (wire_action ur) as) []"
        unfolding assms(8) by blast
      obtain b'' where b'': "write_recent_all w'' b' = (True, b'')"
        "proc_log (trace b'') = proc_log (trace b') @ concat (map table_writes (recent_data b'))"
        by (rule takeover_log [OF assms(9)])
      have view: "recent_view (recent_data b') n k = map_option wire_entry (recent_view (recent_known polled) n k)" for n k
        using mirrors_actions [of "[]" "[]" as ur] as(2)
        by (simp add: b'(2) mirrors_def same_view_def recent_view_def)
      have ok: "recent_ok (recent_data b')" by (simp add: b'(2) apply_recent_actions_ok)
      have names: "\<forall>(n, t) \<in> set (recent_data b'). entries t \<noteq> [] \<longrightarrow> CHR 0x00 \<notin> set n"
        using written_names [OF ok] view as(4) assms(1) by (fastforce simp: kernel_read_def recent_view_def)
      have "\<exists>t'. write_file libb mdb kmalloc jiffies (CHR 0x00 # rest) (kb n) (writes_to n
              (drop (length (proc_log (trace b'))) (proc_log (trace b'')))) = Done t' \<and>
            table_fits mdb t' \<and> kernel_view t' = kernel_view (km n)"
        if n: "n \<in> set ?ns" "table_cache (km n) \<noteq> []" for n
      proof -
        from kr [OF n(1) fits [OF n(1)]] obtain t where t: "get_table pm u files n = Inr t" "entries_ok (entries t)"
          "\<And>k. mget (mmap entry_view (entries t)) k = kernel_view (km n) k"
          "\<forall>(k, e) \<in> set (entries t). restorable (table_slots mdb (kb n)) (k, wire_entry e) \<and>
             entry_view (wire_entry e) = entry_view e"
          by blast
        have vn: "recent_view (recent_data b') n k = map_option wire_entry (mget (entries t) k)" for k
          using view [of n k] as(4) [of n] n(1) t(1) by (simp add: recent_view_def)
        have ne: "entries t \<noteq> []"
          using nonempty_table [where km = km and n = n, OF t(3) n(2)] .
        from backup_table [OF ok vn t(2) ne] obtain tb where tb: "mget (recent_data b') n = Some tb"
          "entries tb = mmap wire_entry (entries t)" by blast
        have nul: "CHR 0x00 \<notin> set n" using assms(1) n(1) by (simp add: kernel_read_def)
        have "omap_ok (recent_data b')" using ok by (simp add: recent_ok_def)
        from writes_to_tables [OF nul names this] tb(1) b''(2)
        have "writes_to n (drop (length (proc_log (trace b'))) (proc_log (trace b''))) = map snd (table_writes (n, tb))"
          by simp
        with backup_writes [OF assms(3) n t(2-4) tb(2) kernel_ips_distinct [OF assms(1) n(1)]] show ?thesis by simp
      qed
      with b' b'' show "\<exists>b' b''. receive_and_apply w' ur uh sfd rounds (length (recent_input polled)) b = Done b' \<and>
          write_recent_all w'' b' = (True, b'') \<and>
          (\<forall>n \<in> set ?ns. table_cache (km n) \<noteq> [] \<longrightarrow>
            (\<exists>t'. write_file libb mdb kmalloc jiffies (CHR 0x00 # rest) (kb n) (writes_to n
                    (drop (length (proc_log (trace b'))) (proc_log (trace b'')))) = Done t' \<and>
              table_fits mdb t' \<and> kernel_view t' = kernel_view (km n)))"
        unfolding as(1) by blast
    qed (rule m'(1))
  qed (rule polled)
qed

text \<open>One table with one address, sent byte by byte, from a kernel of 4.9.13 to one of 3.16.43.\<close>

lemma bytewise: "4619 < length (ev_buffer c) \<Longrightarrow> segmentation c bs (map (\<lambda>x. [[x]]) bs)"
  by (auto simp: segmentation_def comp_def)

definition sample_proc :: files where
  "sample_proc f = map row_text (rows_of sample_old_table)"

definition polling_master :: sync_master where
  "polling_master = sample_master\<lparr>recent_listener := new_xt_recent_sync True\<rparr>"

lemma sample_ip: "ipv4_string [10, 0, 0, 1] = ''10.0.0.1''"
  by code_simp

lemma sample_old_ipv4: "ipv4_only (cache sample_old_table)"
  by (auto simp: ipv4_only_def sample_old_table_ok intro!: exI [of _ "[10, 0, 0, 1]"])

lemma sample_kernel_read:
  "kernel_read scan_row sample_lib sample_module (\<lambda>_. Table_49 sample_old_table) sample_proc [''web'']"
proof -
  have "read_file sample_lib sample_module sample_old_table =
      Done (map (\<lambda>l. l @ [CHR 0x0A]) (sample_proc (xt_recent_dir @ ''web'')))"
    using read_rows_49 [OF sample_old_table_ok(1) sample_module_ok sample_old_ipv4]
    by (simp add: sample_proc_def comp_def)
  then show ?thesis
    by (simp add: kernel_read_def scan_row_reads sample_module_ok sample_old_table_ok(1) sample_old_ipv4)
qed

lemma sample_kernel_takes:
  "kernel_takes sample_lib sample_20_module sample_kmalloc (\<lambda>_. Table_316 sample_316_table)
     (\<lambda>_. Table_49 sample_old_table) [''web'']"
proof -
  have "travels 20 \<lparr>c_addr = ipv4_addr [10, 0, 0, 1], c_family = NFPROTO_IPV4, c_ttl = 64, c_stamps = [5000]\<rparr>"
    by (simp add: travels_def restore_line_def MAX_WRITE_def ipv4_string_four stamps_text_def
        to_string_u_def dec_of_nat.simps)
  then show ?thesis
    using sample_316_fits(1)
    by (simp add: kernel_takes_def sample_lib_reads sample_kmalloc_fresh sample_old_table_ok(2) del: table_fits.simps)
      (simp add: sample_20_module_def sample_module_def)
qed

theorem takeover_restores_kernel_witness:
  "\<exists>polled m' b' b'' t'.
    scan_tables scan_row sample_entry sample_proc [(''web'', True)] (recent_listener polling_master) = Inr polled \<and>
    recent_passes sample_world (length (recent_input polled)) (polling_master\<lparr>recent_listener := polled\<rparr>) = Done m' \<and>
    receive_and_apply sample_world sample_action sample_http 5
      (map (\<lambda>x. [[x]]) (bytes_to 9 (new_log polling_master m'))) (length (recent_input polled)) sample_receiver = Done b' \<and>
    write_recent_all sample_world b' = (True, b'') \<and>
    write_file sample_lib sample_20_module sample_kmalloc 7000 (CHR 0x00 # []) (Table_316 sample_316_table)
      (writes_to ''web'' (drop (length (proc_log (trace b'))) (proc_log (trace b'')))) = Done t' \<and>
    kernel_view t' ''10.0.0.1'' = Some (64, [5000])"
proof -
  let ?c = "\<lparr>ev_fd = 5, ev_buffer = replicate MAX_PACKET_SIZE 0, ev_size = 0\<rparr>"
  have ns: "regular_names [(''web'', True)] = [''web'']" by (simp add: regular_names_def)
  have m: "serving sample_world 9 polling_master" "recent_known (recent_listener polling_master) = []"
    "recent_input (recent_listener polling_master) = []"
    using sample_serving [where x = "recent_listener polling_master" and y = "http_listener polling_master"
        and z = "recent_data polling_master"]
    by (simp_all add: polling_master_def new_xt_recent_sync_def)
  have b: "recent_data sample_receiver = []" by (simp add: sample_receiver_def new_base_sync_def)
  have w: "\<forall>i. proc_io sample_world i = (True, True)" by (simp add: sample_world_def)
  have d: "distinct [''web'']" by simp
  from takeover_restores_kernel [where ds = "[(''web'', True)]" and u = sample_entry and w' = sample_world
      and ur = sample_action and uh = sample_http and rest = "[]" and jiffies = 7000, unfolded ns,
      OF sample_kernel_read d sample_kernel_takes m sample_receiver_idle b w]
  obtain polled where p: "scan_tables scan_row sample_entry sample_proc [(''web'', True)] (recent_listener polling_master) = Inr polled"
    and *: "\<And>k. length (recent_input polled) \<le> 10 * k \<Longrightarrow>
      \<exists>m'. recent_passes sample_world k (polling_master\<lparr>recent_listener := polled\<rparr>) = Done m' \<and>
        (\<forall>rounds. segmentation ?c (bytes_to 9 (new_log polling_master m')) rounds \<longrightarrow>
          (\<exists>b' b''. receive_and_apply sample_world sample_action sample_http 5 rounds (length (recent_input polled)) sample_receiver = Done b' \<and>
            write_recent_all sample_world b' = (True, b'') \<and>
            (\<forall>n \<in> set [''web'']. table_cache (Table_49 sample_old_table) \<noteq> [] \<longrightarrow>
              (\<exists>t'. write_file sample_lib sample_20_module sample_kmalloc 7000 (CHR 0x00 # []) (Table_316 sample_316_table) (writes_to n
                      (drop (length (proc_log (trace b'))) (proc_log (trace b'')))) = Done t' \<and>
                table_fits sample_20_module t' \<and> kernel_view t' = kernel_view (Table_49 sample_old_table)))))"
    by blast
  from * [of "length (recent_input polled)"] obtain m' where
    m': "recent_passes sample_world (length (recent_input polled)) (polling_master\<lparr>recent_listener := polled\<rparr>) = Done m'"
    and **: "\<And>rounds. segmentation ?c (bytes_to 9 (new_log polling_master m')) rounds \<Longrightarrow>
      \<exists>b' b''. receive_and_apply sample_world sample_action sample_http 5 rounds (length (recent_input polled)) sample_receiver = Done b' \<and>
        write_recent_all sample_world b' = (True, b'') \<and>
        (\<forall>n \<in> set [''web'']. table_cache (Table_49 sample_old_table) \<noteq> [] \<longrightarrow>
          (\<exists>t'. write_file sample_lib sample_20_module sample_kmalloc 7000 (CHR 0x00 # []) (Table_316 sample_316_table) (writes_to n
                  (drop (length (proc_log (trace b'))) (proc_log (trace b'')))) = Done t' \<and>
            table_fits sample_20_module t' \<and> kernel_view t' = kernel_view (Table_49 sample_old_table)))"
    by auto
  have "4619 < length (ev_buffer ?c)" by (simp add: MAX_PACKET_SIZE_def)
  from ** [OF bytewise [OF this]] obtain b' b'' t' where
    "receive_and_apply sample_world sample_action sample_http 5
      (map (\<lambda>x. [[x]]) (bytes_to 9 (new_log polling_master m'))) (length (recent_input polled)) sample_receiver = Done b'"
    "write_recent_all sample_world b' = (True, b'')"
    "write_file sample_lib sample_20_module sample_kmalloc 7000 (CHR 0x00 # []) (Table_316 sample_316_table)
      (writes_to ''web'' (drop (length (proc_log (trace b'))) (proc_log (trace b'')))) = Done t'"
    "kernel_view t' = kernel_view (Table_49 sample_old_table)"
    by (auto simp: sample_old_table_ok(2))
  moreover have "kernel_view (Table_49 sample_old_table) ''10.0.0.1'' = Some (64, [5000])"
    by (simp add: kernel_view_def sample_old_table_ok(2) cached_ip_def cached_view_def sample_ip)
  ultimately show ?thesis using p m' by metis
qed

end
