(* ===== verification/Command_Parser.thy ===== *)
theory Command_Parser
  imports Packet_Parser
begin

text \<open>
  \<open>ctl_interface/command_pkt.cpp\<close>: the commands \<open>ssyncdctl\<close> sends to the daemon over its control
  socket.
\<close>

section \<open>The two functions\<close>

definition has_data :: "command_id \<Rightarrow> bool" where
  "has_data c \<longleftrightarrow> c = WRITE_RECENT_TABLE \<or> c = CLEAR_RECENT_TABLE \<or> c = START_HTTP_SYNC \<or>
     c = STOP_HTTP_SYNC"

definition has_port :: "command_id \<Rightarrow> bool" where
  "has_port c \<longleftrightarrow> c = SW_TO_CLIENT \<or> c = SW_TO_MASTER"

definition command_body :: "command_pkt \<Rightarrow> byte list \<Rightarrow> nat \<Rightarrow> (command_pkt \<times> nat) option" where
  "command_body pkt buf p = do {
     (cb, p) \<leftarrow> rd buf p;
     let c = command_of_byte cb;
     (res, p) \<leftarrow>
       (if has_data c then do { (name_size, p) \<leftarrow> rd buf p; rd_string (unat name_size) buf p }
        else Some ([], p));
     (port, p) \<leftarrow> (if has_port c then rd_le 3 buf p else Some (server_port pkt, p));
     (addr, p) \<leftarrow>
       (if c = SW_TO_CLIENT then do {
          (fam, p) \<leftarrow> rd buf p;
          if ip_family_of_byte fam = IPV4
          then do { (ip, p) \<leftarrow> rd_n 4 buf p; Some (ipv4_string ip, p) }
          else Some (server_address pkt, p)
        } else Some (server_address pkt, p));
     Some (pkt\<lparr>command := c, command_data := res, server_port := port, server_address := addr\<rparr>, p)
   }"

text \<open>The packet type is not checked.\<close>

definition command_deserialize :: "command_pkt \<Rightarrow> byte list \<Rightarrow> nat \<Rightarrow> parsed" where
  "command_deserialize u buffer buffer_size = parsed_of (do {
     ret \<leftarrow> base_deserialize buffer buffer_size;
     case ret of
       None \<Rightarrow> Some Null_pkt
     | Some (_, used) \<Rightarrow> do {
         (c, used) \<leftarrow> command_body (new_command_pkt u) buffer used;
         Some (Parsed (Command_pkt c) used)
       }
   })"

definition command_fields :: "command_pkt \<Rightarrow> conv_error + byte list" where
  "command_fields c =
     (let cmd = command c;
          data = (if has_data cmd
            then word_of_nat (length (command_data c)) # bytes_of_string (command_data c) else []);
          port = (if has_port cmd
            then [ucast (server_port c), ucast (signed_drop_bit 8 (server_port c)),
                  ucast (signed_drop_bit 16 (server_port c))] else [])
      in if cmd = SW_TO_CLIENT
         then (case get_ip_address_array (server_address c) of
                 Inl err \<Rightarrow> Inl err
               | Inr parts \<Rightarrow> Inr (command_code cmd # data @ port @
                   ip_family_code (get_ip_address_type (server_address c)) # parts))
         else Inr (command_code cmd # data @ port))"

definition command_serialize :: "packet \<Rightarrow> serialized" where
  "command_serialize pkt =
     (case pkt of
        Command_pkt c \<Rightarrow>
          (case command_fields c of
             Inl err \<Rightarrow> Threw err
           | Inr fs \<Rightarrow>
               (let out = base_serialize (conn_packet.truncate c) @ fs;
                    out_size = length out
                in Serialized (patch_size out_size out) out_size
                     (Command_pkt (c\<lparr>pkt_len := char_len out_size\<rparr>))))
      | _ \<Rightarrow> Undefined)"

section \<open>What the wire carries\<close>

definition command_good :: "packet \<Rightarrow> bool" where
  "command_good pkt \<longleftrightarrow> (case pkt of
     Command_pkt c \<Rightarrow>
       command_of_byte (command_code (command c)) = command c \<and>
       (has_data (command c) \<longrightarrow> length (command_data c) \<le> 255) \<and>
       (command c = SW_TO_CLIENT \<longrightarrow> is_ipv4 (server_address c))
   | _ \<Rightarrow> False)"

definition command_wire :: "packet \<Rightarrow> byte list" where
  "command_wire pkt = (case pkt of
     Command_pkt c \<Rightarrow> (case command_fields c of Inl _ \<Rightarrow> []
       | Inr fs \<Rightarrow> size_header c (5 + length fs) @ fs)
   | _ \<Rightarrow> [])"

text \<open>Of the port the low 24 bits arrive; members that the command does not use do not.\<close>

definition command_decoded :: "command_pkt \<Rightarrow> packet \<Rightarrow> packet" where
  "command_decoded u pkt = (case pkt of
     Command_pkt c \<Rightarrow> Command_pkt ((new_command_pkt u)
       \<lparr>command := command c,
        command_data := (if has_data (command c) then command_data c else []),
        server_port := (if has_port (command c) then take_bit 24 (server_port c) else server_port u),
        server_address := (if command c = SW_TO_CLIENT then server_address c else [])\<rparr>)
   | _ \<Rightarrow> pkt)"

lemma put_le_3:
  fixes w :: s32
  shows "put_le 3 w = [ucast w, ucast (signed_drop_bit 8 w), ucast (signed_drop_bit 16 w)]"
proof -
  have "(ucast (signed_drop_bit n w) :: byte) = ucast (drop_bit n w)" if "n \<le> 24" for n
    by (rule bit_word_eqI) (use that in \<open>auto simp: bit_simps\<close>)
  then show ?thesis by (simp add: numeral_3_eq_3)
qed

lemma holds_port [wire_simps]:
  fixes w :: s32
  assumes "holds buf p [ucast w, ucast (signed_drop_bit 8 w), ucast (signed_drop_bit 16 w)]"
  shows "rd_le 3 buf p = Some (take_bit 24 w, Suc (Suc (Suc p)))"
  using holds_rd_le [of buf p "put_le 3 w", where ?'a = 32] assms
  by (simp add: put_le_3 [symmetric] join_le_put_le)

lemma command_fields_cases:
  assumes "command_good (Command_pkt c)"
  obtains (client) i j k l where "command c = SW_TO_CLIENT"
      "server_address c = ipv4_string [i, j, k, l]"
      "command_fields c = Inr ([command_code SW_TO_CLIENT] @ put_le 3 (server_port c) @ [1, i, j, k, l])"
  | (master) "command c = SW_TO_MASTER"
      "command_fields c = Inr (command_code SW_TO_MASTER # put_le 3 (server_port c))"
  | (data) "has_data (command c)" "length (command_data c) \<le> 255"
      "command_fields c = Inr (command_code (command c) # word_of_nat (length (command_data c)) #
         bytes_of_string (command_data c))"
  | (bare) "\<not> has_data (command c)" "\<not> has_port (command c)"
      "command_fields c = Inr [command_code (command c)]"
proof -
  consider "command c = SW_TO_CLIENT" | "command c = SW_TO_MASTER" | "has_data (command c)"
    | "\<not> has_data (command c)" "\<not> has_port (command c)"
    by (auto simp: has_port_def)
  then show ?thesis
  proof cases
    case 1
    then have ip: "is_ipv4 (server_address c)"
      using assms by (simp add: command_good_def)
    then obtain i j k l where "server_address c = ipv4_string [i, j, k, l]"
        "get_ip_address_v4 (server_address c) = Inr [i, j, k, l]"
      by (rule is_ipv4E)
    then show ?thesis
      using 1 ip
      by (intro client) (auto simp: command_fields_def has_data_def has_port_def put_le_3
          is_ipv4_family is_ipv4_array)
  next
    case 2
    then show ?thesis
      by (intro master) (auto simp: command_fields_def has_data_def has_port_def put_le_3)
  next
    case 3
    then show ?thesis
      using assms by (intro data) (auto simp: command_fields_def has_data_def has_port_def command_good_def)
  next
    case 4
    then show ?thesis
      by (intro bare) (auto simp: command_fields_def has_port_def)
  qed
qed

lemma command_body_fields:
  assumes "command_good (Command_pkt c)" and "command_fields c = Inr fs" and "holds buf p fs"
  shows "command_body b buf p =
    Some (b\<lparr>command := command c,
        command_data := (if has_data (command c) then command_data c else []),
        server_port := (if has_port (command c) then take_bit 24 (server_port c) else server_port b),
        server_address := (if command c = SW_TO_CLIENT then server_address c else server_address b)\<rparr>,
      p + length fs)"
proof -
  have code: "command_of_byte (command_code (command c)) = command c"
    using assms(1) by (simp add: command_good_def)
  from assms(1) show ?thesis
  proof (cases rule: command_fields_cases)
    case (client i j k l)
    with code assms(2,3) show ?thesis
      by (auto simp: command_body_def has_data_def has_port_def put_le_3 wire_simps)
  next
    case master
    with code assms(2,3) show ?thesis
      by (auto simp: command_body_def has_data_def has_port_def put_le_3 wire_simps)
  next
    case data
    with code assms(2,3) show ?thesis
      by (auto simp: command_body_def has_data_def has_port_def wire_simps)
  next
    case bare
    with code assms(2,3) show ?thesis
      by (auto simp: command_body_def has_port_def wire_simps)
  qed
qed

lemma command_goodE:
  assumes "command_good p"
  obtains c fs where "p = Command_pkt c" "command_good (Command_pkt c)" "command_fields c = Inr fs"
    "command_wire p = size_header c (5 + length fs) @ fs" "5 + length fs \<le> 262"
proof -
  from assms obtain c where c: "p = Command_pkt c" by (auto simp: command_good_def split: packet.splits)
  with assms have g: "command_good (Command_pkt c)" by simp
  then show ?thesis
    by (cases rule: command_fields_cases) (auto intro!: that [OF c g] simp: c command_wire_def)
qed

section \<open>The parser implements \<open>packet_parser\<close>\<close>

lemma command_serialize_wire:
  assumes "command_good p"
  shows "\<exists>out p'. command_serialize p = Serialized out (length (command_wire p)) p' \<and>
    take (length (command_wire p)) out = command_wire p"
  using assms
proof (rule command_goodE)
  fix c fs
  assume a: "p = Command_pkt c" "command_fields c = Inr fs"
    and w: "command_wire p = size_header c (5 + length fs) @ fs"
  show ?thesis
    by (simp add: w) (simp add: a command_serialize_def Let_def)
qed

lemma command_deserialize_wire:
  assumes "command_good p" and "holds buf 0 (command_wire p)" and "length (command_wire p) \<le> sz"
  shows "command_deserialize u buf sz = Parsed (command_decoded u p) (length (command_wire p))"
  using assms(1)
proof (rule command_goodE)
  fix c fs
  assume c: "p = Command_pkt c" "command_good (Command_pkt c)" "command_fields c = Inr fs"
    and w: "command_wire p = size_header c (5 + length fs) @ fs" and n: "5 + length fs \<le> 262"
  have h: "holds buf 0 (size_header c (5 + length fs))" "holds buf 5 fs"
    using assms(2) by (auto simp: w holds_append)
  have b: "base_deserialize buf sz = Some (Some (header_decoded c (5 + length fs), 5))"
    using base_deserialize_header [OF h(1), of sz] n assms(3) by (simp add: w)
  show ?thesis
    by (simp add: command_deserialize_def b command_body_fields [OF c(2,3) h(2)] w)
      (auto simp: c(1) command_decoded_def new_command_pkt_def conn_packet.extend_def)
qed

lemma command_deserialize_cut:
  assumes "command_good p" and "sz < length (command_wire p)"
    and "holds buf 0 (take sz (command_wire p))"
  shows "command_deserialize u buf sz = Null_pkt"
  using assms(1)
proof (rule command_goodE)
  fix c fs
  assume "command_wire p = size_header c (5 + length fs) @ fs" "5 + length fs \<le> 262"
  with assms(2,3) have "base_deserialize buf sz = Some None"
    by (intro base_deserialize_cut [where p = c and n = "5 + length fs" and F = fs]) auto
  then show ?thesis by (simp add: command_deserialize_def)
qed

interpretation command: packet_codec command_serialize "command_deserialize u" command_good
  command_wire "command_decoded u" for u
proof unfold_locales
  show "5 \<le> length (command_wire p)" if "command_good p" for p
    using that by (rule command_goodE) simp
  show "command_deserialize u buf sz = Null_pkt" if "sz < 5" for buf sz
    using that by (simp add: command_deserialize_def base_deserialize_short)
qed (rule command_serialize_wire command_deserialize_wire command_deserialize_cut; assumption)+

text \<open>
  \<open>ctl_controller::send_command\<close> serialises into a stack array of 1024 bytes. A good command fits;
  the data of a command is written in full whatever its length.
\<close>

lemma command_wire_fits: "command_good p \<Longrightarrow> length (command_wire p) \<le> 262"
  by (erule command_goodE) simp

lemma command_serialize_length:
  assumes "has_data (command c)" and "command_serialize (Command_pkt c) = Serialized out n p"
  shows "n = 7 + length (command_data c)"
proof -
  from assms(1) have "command c \<noteq> SW_TO_CLIENT" "\<not> has_port (command c)"
    by (auto simp: has_data_def has_port_def)
  with assms show ?thesis
    by (auto simp: command_serialize_def command_fields_def Let_def)
qed

section \<open>Properties\<close>

text \<open>A control command whose argument fits a length byte (and whose address is an IPv4 one) is
  serialised without failure; the bytes, followed by anything, are read back to the command, using
  exactly its bytes, and no proper prefix of them is taken for a command.\<close>

theorem command_roundtrip:
  assumes "command_good p"
  shows "\<exists>out n p'. command_serialize p = Serialized out n p' \<and>
    (\<forall>rest k. command_deserialize u (take n out @ rest) (n + k) = Parsed (command_decoded u p) n) \<and>
    (\<forall>j < n. command_deserialize u (take j out) j = Null_pkt)"
  using assms by (rule command.serialize_deserialize)

definition sample_command :: command_pkt where
  "sample_command = conn_packet.extend (new_typed_packet CTL_COMMAND)
     \<lparr>command = SW_TO_CLIENT, command_data = [], server_port = 7777,
      server_address = ipv4_string [10, 0, 0, 1]\<rparr>"

lemma sample_command_fields [simp]:
  "command sample_command = SW_TO_CLIENT" "command_data sample_command = []"
  "server_port sample_command = 7777" "server_address sample_command = ipv4_string [10, 0, 0, 1]"
  by (simp_all add: sample_command_def conn_packet.extend_def)

lemma sample_command_good: "command_good (Command_pkt sample_command)"
  by (simp add: command_good_def is_ipv4_string listed_commands_def)

theorem command_roundtrip_witness:
  "\<exists>out n p'. command_serialize (Command_pkt sample_command) = Serialized out n p' \<and>
    (\<forall>rest k. command_deserialize sample_command (take n out @ rest) (n + k) =
       Parsed (command_decoded sample_command (Command_pkt sample_command)) n) \<and>
    (\<forall>j < n. command_deserialize sample_command (take j out) j = Null_pkt)"
  by (rule command_roundtrip [OF sample_command_good])

end
