(* ===== verification/Ctl_Interface.thy ===== *)
theory Ctl_Interface
  imports Command_Parser Connection
begin

text \<open>
  \<open>ssyncdctl\<close>: \<open>ctl_interface/main.cpp\<close> turns the command line into a \<open>command_pkt\<close>,
  \<open>ctl_interface/ctl_controller.cpp\<close> sends it over the control socket and collects the responses.
\<close>

section \<open>The command line\<close>

text \<open>
  One round of the loop for the option \<open>opt\<close> with the arguments after it: the packet and what is left
  of the arguments. The last \<open>argv\<close> entry is the null pointer, so a missing value ends the program with
  \<open>EXIT_FAILURE\<close> or, for \<open>port\<close> and \<open>address\<close>, is ignored. Each option string matches one branch.
\<close>

definition with_value ::
    "string list \<Rightarrow> (string \<Rightarrow> command_pkt run) \<Rightarrow> (command_pkt \<times> string list) run" where
  "with_value rest f =
     (case rest of [] \<Rightarrow> Exits 1 | value # rest \<Rightarrow> run_bind (f value) (\<lambda>pkt. Done (pkt, rest)))"

definition optional_value ::
    "string list \<Rightarrow> command_pkt \<Rightarrow> (string \<Rightarrow> command_pkt run) \<Rightarrow> (command_pkt \<times> string list) run" where
  "optional_value rest pkt f =
     (case rest of [] \<Rightarrow> Done (pkt, []) | value # rest \<Rightarrow> run_bind (f value) (\<lambda>pkt. Done (pkt, rest)))"

definition farm_value ::
    "string list \<Rightarrow> command_id \<Rightarrow> command_pkt \<Rightarrow> (command_pkt \<times> string list) run" where
  "farm_value rest c pkt =
     (case rest of [] \<Rightarrow> Exits 1 | value # rest \<Rightarrow> Done (pkt\<lparr>command := c, command_data := value\<rparr>, rest))"

definition option_step :: "string \<Rightarrow> string list \<Rightarrow> command_pkt \<Rightarrow> (command_pkt \<times> string list) run" where
  "option_step opt rest pkt =
     (if opt = ''help'' then Exits 0
      else if opt = ''write'' then
        with_value rest (\<lambda>value. Done
          (if value = ''http'' then pkt\<lparr>command := WRITE_HTTP\<rparr>
           else if value = ''recent'' then pkt\<lparr>command := WRITE_RECENT\<rparr> else pkt))
      else if opt = ''clear'' then
        with_value rest (\<lambda>value. Done
          (if value = ''http'' then pkt\<lparr>command := CLEAR_HTTP\<rparr>
           else if value = ''recent'' then pkt\<lparr>command := CLEAR_RECENT\<rparr> else pkt))
      else if opt = ''quit'' then Done (pkt\<lparr>command := QUIT\<rparr>, rest)
      else if opt = ''start'' then
        (case rest of
           [] \<Rightarrow> Exits 1
         | value # rest \<Rightarrow>
             if value = ''http'' then farm_value rest START_HTTP_SYNC pkt
             else if value = ''recent'' then Done (pkt\<lparr>command := START_RECENT_SYNC\<rparr>, rest)
             else Done (pkt, rest))
      else if opt = ''stop'' then
        (case rest of
           [] \<Rightarrow> Exits 1
         | value # rest \<Rightarrow>
             if value = ''http'' then farm_value rest STOP_HTTP_SYNC pkt
             else if value = ''recent'' then Done (pkt\<lparr>command := STOP_RECENT_SYNC\<rparr>, rest)
             else Done (pkt, rest))
      else if opt = ''table'' then
        with_value rest (\<lambda>value.
          let pkt = pkt\<lparr>command_data := value\<rparr>
          in if command_data pkt = ''*'' then
               (if command pkt = WRITE_RECENT then Done (pkt\<lparr>command := WRITE_RECENT_TABLE\<rparr>)
                else Exits 1)
             else Done pkt)
      else if opt = ''count'' then
        with_value rest (\<lambda>value. Done
          (if value = ''http'' then pkt\<lparr>command := COUNT_HTTP\<rparr>
           else if value = ''recent'' then pkt\<lparr>command := COUNT_RECENT\<rparr> else pkt))
      else if opt = ''show'' then
        with_value rest (\<lambda>value. Done
          (if value = ''http'' then pkt\<lparr>command := SHOW_HTTP\<rparr>
           else if value = ''recent'' then pkt\<lparr>command := SHOW_RECENT\<rparr>
           else if value = ''mode'' then pkt\<lparr>command := SHOW_MODE\<rparr> else pkt))
      else if opt = ''port'' then
        optional_value rest pkt (\<lambda>value.
          case stoi value of Inl _ \<Rightarrow> Exits 1 | Inr p \<Rightarrow> Done (pkt\<lparr>server_port := p\<rparr>))
      else if opt = ''address'' then
        optional_value rest pkt (\<lambda>value. Done (pkt\<lparr>server_address := value\<rparr>))
      else if opt = ''switch'' then
        with_value rest (\<lambda>value. Done
          (if value = ''master'' then pkt\<lparr>command := SW_TO_MASTER\<rparr>
           else if value = ''backup'' then pkt\<lparr>command := SW_TO_CLIENT\<rparr> else pkt))
      else Done (pkt, rest))"

lemma option_step_shorter:
  "option_step opt rest pkt = Done (pkt', rest') \<Longrightarrow> length rest' \<le> length rest"
  by (auto simp: option_step_def with_value_def optional_value_def farm_value_def Let_def run_bind_Done
      split: if_splits list.splits)

function parse_options :: "string list \<Rightarrow> command_pkt \<Rightarrow> command_pkt run" where
  "parse_options [] pkt = Done pkt"
| "parse_options (opt # rest) pkt =
     (case option_step opt rest pkt of
        Done (pkt, rest) \<Rightarrow> parse_options rest pkt
      | Fault \<Rightarrow> Fault | Diverges \<Rightarrow> Diverges | Exits c \<Rightarrow> Exits c | Throws e \<Rightarrow> Throws e
      | Terminates \<Rightarrow> Terminates)"
  by pat_completeness auto
termination
  by (relation "measure (\<lambda>(args, _). length args)") (auto dest!: option_step_shorter)

text \<open>The options of \<open>main\<close> on a fresh packet whose command is \<open>VOID\<close>; still \<open>VOID\<close> is a failure.\<close>

definition ctl_options :: "command_pkt \<Rightarrow> string list \<Rightarrow> command_pkt run" where
  "ctl_options u args =
     run_bind (parse_options args ((new_command_pkt u)\<lparr>command := VOID\<rparr>))
       (\<lambda>pkt. if command pkt = VOID then Exits 1 else Done pkt)"

section \<open>\<open>ctl_controller\<close>\<close>

definition ctl_init :: "bool \<Rightarrow> bool run" where
  "ctl_init connect_ok = (if \<not> connect_ok then Exits ERROR_NOT_DEFINED else Done True)"

text \<open>The loop around \<open>send\<close>: what the daemon gets; \<open>None\<close> when more calls are made than \<open>rs\<close> has.\<close>

fun ctl_send :: "byte list \<Rightarrow> send_result list \<Rightarrow> byte list option" where
  "ctl_send data rs =
     (if data = [] then Some []
      else (case rs of
              [] \<Rightarrow> None
            | Sent n # rest \<Rightarrow> map_option (\<lambda>out. take n data @ out) (ctl_send (drop n data) rest)
            | _ # rest \<Rightarrow> Some []))"

declare ctl_send.simps [simp del]

text \<open>
  The packet is serialised into an array of 1024 bytes; a longer one is written past its end. The
  returned flag is false on every path.
\<close>

definition send_command :: "command_pkt \<Rightarrow> send_result list \<Rightarrow> (byte list \<times> bool) run" where
  "send_command pkt rs =
     (case command_serialize (Command_pkt pkt) of
        Serialized out_buffer buffer_size _ \<Rightarrow>
          if 1024 < length out_buffer then Fault
          else (case ctl_send (take buffer_size out_buffer) rs of
                  None \<Rightarrow> Diverges | Some out \<Rightarrow> Done (out, False))
      | Not_serialized \<Rightarrow> Done ([], False)
      | Threw e \<Rightarrow> Throws e
      | Undefined \<Rightarrow> Fault)"

text \<open>
  \<open>get_response\<close> with the result of \<open>recv\<close>; \<open>mem\<close> is the uninitialised array. The received bytes are
  taken as a C string, so what follows them in the array is read up to a NUL. The flag is
  \<open>is_running\<close>.
\<close>

definition get_response :: "byte list \<Rightarrow> recv_result \<Rightarrow> (string \<times> bool) run" where
  "get_response mem r =
     (case r of
        Closed \<Rightarrow> Done ([], False)
      | _ \<Rightarrow>
          (let buffer = (case r of Data bs \<Rightarrow> store_at mem 0 bs | _ \<Rightarrow> mem)
           in if 0 \<in> set buffer then Done (c_str (string_of_bytes buffer), True) else Fault))"

fun responses :: "(byte list \<times> recv_result) list \<Rightarrow> string run" where
  "responses [] = Diverges"
| "responses ((mem, r) # rs) =
     run_bind (get_response mem r) (\<lambda>(out, running).
       if running then run_bind (responses rs) (\<lambda>rest. Done (out @ rest)) else Done out)"

text \<open>The whole program: the bytes sent to the daemon and the text printed.\<close>

definition ctl_main ::
    "command_pkt \<Rightarrow> string list \<Rightarrow> bool \<Rightarrow> send_result list \<Rightarrow> (byte list \<times> recv_result) list \<Rightarrow>
     (byte list \<times> string) run" where
  "ctl_main u args connect_ok sends recvs =
     run_bind (ctl_options u args) (\<lambda>pkt.
       run_bind (ctl_init connect_ok) (\<lambda>_.
         run_bind (send_command pkt sends) (\<lambda>(sent, _).
           run_bind (responses recvs) (\<lambda>result. Done (sent, result)))))"

section \<open>Properties\<close>

lemma ctl_send_all:
  "send_ok (length data) rs \<Longrightarrow> list_all (\<lambda>r. \<exists>n. r = Sent n) rs \<Longrightarrow> length data \<le> length rs \<Longrightarrow>
   ctl_send data rs = Some data"
proof (induction rs arbitrary: data)
  case Nil
  then show ?case by (subst ctl_send.simps) simp
next
  case (Cons r rs)
  then obtain n where r: "r = Sent n" by auto
  show ?case
  proof (cases "data = []")
    case True
    then show ?thesis by (subst ctl_send.simps) simp
  next
    case False
    with Cons.prems r have n: "0 < n" "n \<le> length data" "send_ok (length (drop n data)) rs" by auto
    then have "length (drop n data) \<le> length rs" using Cons.prems(3) by simp
    from Cons.IH [OF n(3) _ this] Cons.prems(2) False r show ?thesis
      by (subst ctl_send.simps) simp
  qed
qed

lemma send_command_wire:
  assumes "command_good (Command_pkt c)" and "send_ok (length (command_wire (Command_pkt c))) rs"
    and "list_all (\<lambda>r. \<exists>n. r = Sent n) rs" and "length (command_wire (Command_pkt c)) \<le> length rs"
  shows "send_command c rs = Done (command_wire (Command_pkt c), False)"
proof -
  from assms(1) obtain out p where ser: "command_serialize (Command_pkt c) =
      Serialized out (length (command_wire (Command_pkt c))) p"
    and w: "take (length (command_wire (Command_pkt c))) out = command_wire (Command_pkt c)"
    using command.serialize_good by blast
  from ser have "length out = length (command_wire (Command_pkt c))"
    by (auto simp: command_serialize_def Let_def patch_size_def split: sum.splits)
  moreover have "length (command_wire (Command_pkt c)) \<le> 262"
    using assms(1) by (rule command_wire_fits)
  ultimately show ?thesis
    using ser w ctl_send_all [OF assms(2-4)] by (simp add: send_command_def)
qed

text \<open>The command that the options ask for, for the option sequences of the documentation.\<close>

lemma option_value:
  "ctl_options u [''write'', ''http''] = Done ((new_command_pkt u)\<lparr>command := WRITE_HTTP\<rparr>)"
  "ctl_options u [''write'', ''recent''] = Done ((new_command_pkt u)\<lparr>command := WRITE_RECENT\<rparr>)"
  "ctl_options u [''start'', ''http'', farm] =
     Done ((new_command_pkt u)\<lparr>command := START_HTTP_SYNC, command_data := farm\<rparr>)"
  "ctl_options u [''quit''] = Done ((new_command_pkt u)\<lparr>command := QUIT\<rparr>)"
  by (simp_all add: ctl_options_def option_step_def with_value_def farm_value_def)

section \<open>Which commands the options can give\<close>

definition option_commands :: "command_id set" where
  "option_commands = {START_HTTP_SYNC, STOP_HTTP_SYNC, SHOW_HTTP, CLEAR_HTTP, WRITE_HTTP, STOP_RECENT_SYNC,
     START_RECENT_SYNC, SHOW_RECENT, CLEAR_RECENT, WRITE_RECENT_TABLE, WRITE_RECENT, SW_TO_MASTER, SW_TO_CLIENT,
     COUNT_RECENT, SHOW_MODE, QUIT, COUNT_HTTP}"

lemma option_step_command:
  "option_step opt rest pkt = Done (pkt', rest') \<Longrightarrow>
   command pkt' = command pkt \<or> command pkt' \<in> option_commands"
  by (auto simp: option_step_def with_value_def optional_value_def farm_value_def Let_def run_bind_Done
      option_commands_def split: if_splits list.splits sum.splits)

lemma parse_options_command:
  "parse_options args pkt = Done pkt' \<Longrightarrow> command pkt' = command pkt \<or> command pkt' \<in> option_commands"
proof (induction args pkt rule: parse_options.induct)
  case (2 opt rest pkt)
  obtain pkt1 rest1 where s: "option_step opt rest pkt = Done (pkt1, rest1)"
    "parse_options rest1 pkt1 = Done pkt'"
    using "2.prems" by (auto split: run.splits)
  from "2.IH" [OF s(1) refl s(2)] option_step_command [OF s(1)] show ?case by auto
qed simp

section \<open>Properties\<close>

text \<open>No sequence of options makes the control program send \<open>CLEAR_RECENT_TABLE\<close> or any command it
  has no option for; and naming a table after \<open>write recent\<close> has the opposite of its meaning: every name
  but \<open>*\<close> still writes all tables, only \<open>*\<close> gives \<open>WRITE_RECENT_TABLE\<close>, with \<open>*\<close> as the table's name.\<close>

theorem options_reach_commands:
  "(ctl_options u args = Done pkt \<longrightarrow> command pkt \<in> option_commands) \<and> CLEAR_RECENT_TABLE \<notin> option_commands \<and>
   ctl_options u [''write'', ''recent'', ''table'', n] =
     Done ((new_command_pkt u)\<lparr>command := if n = ''*'' then WRITE_RECENT_TABLE else WRITE_RECENT,
       command_data := n\<rparr>)"
proof (intro conjI impI)
  assume "ctl_options u args = Done pkt"
  then show "command pkt \<in> option_commands"
    using parse_options_command by (fastforce simp: ctl_options_def run_bind_Done split: if_splits)
next
  show "CLEAR_RECENT_TABLE \<notin> option_commands" by (simp add: option_commands_def)
next
  show "ctl_options u [''write'', ''recent'', ''table'', n] =
     Done ((new_command_pkt u)\<lparr>command := if n = ''*'' then WRITE_RECENT_TABLE else WRITE_RECENT,
       command_data := n\<rparr>)"
    by (simp add: ctl_options_def option_step_def with_value_def)
qed

theorem options_reach_commands_witness:
  "ctl_options sample_command [''quit''] = Done ((new_command_pkt sample_command)\<lparr>command := QUIT\<rparr>) \<and>
   QUIT \<in> option_commands"
  using options_reach_commands [of sample_command "[''quit'']" "(new_command_pkt sample_command)\<lparr>command := QUIT\<rparr>"]
  by (simp add: option_value)

end
