(* ===== verification/Sync_Controller.thy ===== *)
theory Sync_Controller
  imports Sync_Master Sync_Backup Command_Parser
begin

text \<open>
  \<open>sync/sync_controller.h\<close> and \<open>.cpp\<close>: the control socket of the daemon. A command becomes calls on the
  worker and a list of responses; \<open>send_response\<close> says what of a response the peer gets.
\<close>

section \<open>State\<close>

datatype worker_mode = NONE_MODE | MASTER_MODE | BACKUP_MODE

text \<open>The dynamic class of \<open>sync_worker\<close>.\<close>

datatype worker = Master sync_master | Backup base_sync

text \<open>
  \<open>current_mode\<close> and \<open>is_running\<close> have no initial value (arguments of the constructor's model).
  \<open>command_thread\<close> says whether the thread object is joinable: it is never joined nor detached.
\<close>

record sync_controller =
  current_mode :: worker_mode
  sync_worker :: "worker option"
  ctl_server_port :: s32
  ctl_server_address :: string
  ctl_running :: bool
  command_thread :: bool

definition new_sync_controller :: "worker_mode \<Rightarrow> bool \<Rightarrow> sync_controller" where
  "new_sync_controller u u' =
     \<lparr>current_mode = u, sync_worker = None, ctl_server_port = 9999, ctl_server_address = ''localhost'',
      ctl_running = u', command_thread = False\<rparr>"

text \<open>
  The answers of the system while one command is handled: those of the worker's calls, of \<open>add_farm\<close>,
  and of the constructor of a new connection, with the uninitialised flags of a new worker.
\<close>

record ctl_io =
  ctl_world :: world
  ctl_farm :: farm_io
  ctl_socket :: "int option"
  ctl_options_ok :: bool
  ctl_bind_ok :: bool
  ctl_flags :: "bool \<times> bool"

section \<open>Calls on the worker\<close>

definition worker_base :: "worker \<Rightarrow> base_sync" where
  "worker_base wk = (case wk of Master m \<Rightarrow> base_sync.truncate m | Backup b \<Rightarrow> b)"

definition on_worker ::
    "(sync_master \<Rightarrow> 'r \<times> sync_master) \<Rightarrow> (base_sync \<Rightarrow> 'r \<times> base_sync) \<Rightarrow> worker \<Rightarrow> 'r \<times> worker" where
  "on_worker f g wk =
     (case wk of Master m \<Rightarrow> (let (r, m) = f m in (r, Master m))
      | Backup b \<Rightarrow> (let (r, b) = g b in (r, Backup b)))"

definition on_worker_run ::
    "(sync_master \<Rightarrow> ('r \<times> sync_master) run) \<Rightarrow> (base_sync \<Rightarrow> ('r \<times> base_sync) run) \<Rightarrow> worker \<Rightarrow>
     ('r \<times> worker) run" where
  "on_worker_run f g wk =
     (case wk of Master m \<Rightarrow> run_bind (f m) (\<lambda>(r, m). Done (r, Master m))
      | Backup b \<Rightarrow> run_bind (g b) (\<lambda>(r, b). Done (r, Backup b)))"

definition map_worker :: "(sync_master \<Rightarrow> sync_master) \<Rightarrow> (base_sync \<Rightarrow> base_sync) \<Rightarrow> worker \<Rightarrow> worker" where
  "map_worker f g wk = (case wk of Master m \<Rightarrow> Master (f m) | Backup b \<Rightarrow> Backup (g b))"

definition worker_stop :: "worker \<Rightarrow> worker" where
  "worker_stop = map_worker base_stop base_stop"

text \<open>The pointer to a deleted worker is not cleared; the state keeps the worker as its destructor left it.\<close>

definition worker_delete :: "worker \<Rightarrow> worker" where
  "worker_delete = map_worker base_destroy base_destroy"

section \<open>Modes\<close>

text \<open>
  The old worker is stopped and deleted; a new one is made with its connection. (With \<open>NONE\<close>, which no
  caller passes, the pointer would dangle; the model keeps the stopped worker.)
\<close>

definition set_worker_mode :: "ctl_io \<Rightarrow> worker_mode \<Rightarrow> sync_controller \<Rightarrow> sync_controller run" where
  "set_worker_mode io mode s0 =
     (let s = s0\<lparr>sync_worker := map_option (\<lambda>wk. worker_delete (worker_stop wk)) (sync_worker s0)\<rparr> in
     run_bind (case mode of
         MASTER_MODE \<Rightarrow>
           run_bind (init_master (fst (ctl_flags io)) (snd (ctl_flags io)) (ctl_socket io)
               (ctl_options_ok io) (ctl_bind_ok io))
             (\<lambda>b. Done (s\<lparr>sync_worker := Some (Master (new_sync_master b))\<rparr>))
       | BACKUP_MODE \<Rightarrow>
           Done (s\<lparr>sync_worker := Some (Backup (init_backup (fst (ctl_flags io)) (snd (ctl_flags io)) 0))\<rparr>)
       | NONE_MODE \<Rightarrow> Done s)
       (\<lambda>s. Done (s\<lparr>current_mode := mode\<rparr>)))"

text \<open>Assigning a new thread to a joinable \<open>std::thread\<close> calls \<open>std::terminate\<close>.\<close>

definition controller_start :: "sync_controller \<Rightarrow> sync_controller run" where
  "controller_start s =
     (case sync_worker s of
        None \<Rightarrow> Done s
      | Some wk \<Rightarrow>
          (let s = s\<lparr>sync_worker := Some (map_worker base_start base_start wk), ctl_running := True\<rparr>
           in if command_thread s then Terminates else Done (s\<lparr>command_thread := True\<rparr>)))"

definition controller_stop :: "sync_controller \<Rightarrow> sync_controller" where
  "controller_stop s =
     s\<lparr>sync_worker := map_option (\<lambda>wk. worker_delete (worker_stop wk)) (sync_worker s),
       ctl_running := False\<rparr>"

text \<open>The destructor: the \<open>std::thread\<close> of the control socket goes with the object; a joinable one ends the process.\<close>

definition controller_destroy :: "sync_controller \<Rightarrow> unit run" where
  "controller_destroy s = (if command_thread s then Terminates else Done ())"

section \<open>What the commands print\<close>

definition newline :: string where
  "newline = [CHR 0x0A]"

definition tab :: string where
  "tab = [CHR 0x09]"

definition count_recent :: "recent_store \<Rightarrow> string list" where
  "count_recent d = concat (map (\<lambda>(n, table).
     [''# '' @ n @ '': '', dec_of_nat (length (entries table)) @ newline]) d)"

text \<open>\<open>None\<close>: \<open>to_string\<close> reads outside the vector of an entry without time stamps.\<close>

fun show_entries :: "(string \<times> xt_recent_entry) list \<Rightarrow> string list option" where
  "show_entries [] = Some []"
| "show_entries ((_, e) # es) =
     do { (s, _) \<leftarrow> entry_to_string e; ss \<leftarrow> show_entries es; Some ((s @ newline) # ss) }"

fun show_recent :: "(string \<times> xt_recent_table) list \<Rightarrow> string list option" where
  "show_recent [] = Some []"
| "show_recent ((n, table) # ts) =
     do { es \<leftarrow> show_entries (entries table); rest \<leftarrow> show_recent ts;
          Some ((''# '' @ n @ newline) # es @ rest) }"

definition count_http :: "http_store \<Rightarrow> string list" where
  "count_http d = concat (map (\<lambda>(farm, listeners).
     (''farm:  '' @ farm @ newline) #
     concat (map (\<lambda>(_, services).
       map (\<lambda>(_, svc). dec_of_nat (length (sessions svc)) @ newline) services) listeners)) d)"

definition show_http :: "http_store \<Rightarrow> string list" where
  "show_http d = concat (map (\<lambda>(farm, listeners).
     (''farm:  '' @ farm @ newline) #
     concat (map (\<lambda>(lst, services).
       (tab @ ''http Listener: '' @ to_string_u lst @ newline) #
       concat (map (\<lambda>(srv, svc).
         ('' '' @ tab @ tab @ ''Service: '' @ to_string_u srv @ newline) #
         map (\<lambda>(k, ss). tab @ tab @ tab @ ''Session: '' @ k @ '' [ '' @ to_string_u (last_acc ss) @
                '' ] >> '' @ content ss @ newline) (sessions svc)) services)) listeners)) d)"

section \<open>A command\<close>

text \<open>The responses and the state; \<open>Fault\<close> when there is no worker to call.\<close>

definition ctl_worker :: "sync_controller \<Rightarrow> (worker \<Rightarrow> (string list \<times> worker) run) \<Rightarrow> (string list \<times> sync_controller) run" where
  "ctl_worker s f =
     (case sync_worker s of
        None \<Rightarrow> Fault
      | Some wk \<Rightarrow> run_bind (f wk) (\<lambda>(out, wk). Done (out, s\<lparr>sync_worker := Some wk\<rparr>)))"

definition start_recent_cmd :: "worker \<Rightarrow> (string list \<times> worker) run" where
  "start_recent_cmd wk =
     (if \<not> is_recent_sync_running (worker_base wk)
      then Done ([], map_worker start_recent_sync start_recent_sync wk)
      else Done ([''recent sync service is already running''], wk))"

definition stop_recent_cmd :: "worker \<Rightarrow> (string list \<times> worker) run" where
  "stop_recent_cmd wk =
     (if is_recent_sync_running (worker_base wk)
      then Done ([''stopping recent sync service'' @ newline], map_worker stop_recent_sync stop_recent_sync wk)
      else Done ([''recent sync service not running'' @ newline], wk))"

definition start_http_cmd :: "ctl_io \<Rightarrow> worker_mode \<Rightarrow> string \<Rightarrow> worker \<Rightarrow> (string list \<times> worker) run" where
  "start_http_cmd io mode n wk =
     (let w = ctl_world io;
          (out, ok, wk) =
            (if \<not> is_http_sync_running (worker_base wk)
             then (let (ok, wk) = on_worker (start_http_sync w (mode = MASTER_MODE))
                                    (start_http_sync w (mode = MASTER_MODE)) wk
                   in ([''starting http sync service'' @ newline] @
                       (if ok then [] else [''error starting http sync service'']), ok, wk))
             else ([], True, wk))
      in if \<not> ok then Done (out, wk)
         else run_bind (on_worker_run (add_http_listener_farm w (ctl_farm io) n)
                         (add_http_listener_farm w (ctl_farm io) n) wk)
                (\<lambda>(ok, wk). Done (out @ [if ok then ''http farm added''
                                         else ''error adding http farm listener''], wk)))"

definition stop_http_cmd :: "ctl_io \<Rightarrow> string \<Rightarrow> worker \<Rightarrow> (string list \<times> worker) run" where
  "stop_http_cmd io n wk =
     (if is_http_sync_running (worker_base wk)
      then (let (_, wk) = on_worker (remove_http_listener_farm (ctl_world io) n)
                            (remove_http_listener_farm (ctl_world io) n) wk
            in Done ([''http farm removed''], wk))
      else Done ([''http sync service not running'' @ newline], wk))"

definition write_recent_cmd :: "ctl_io \<Rightarrow> worker \<Rightarrow> (string list \<times> worker) run" where
  "write_recent_cmd io wk =
     (let (ok, wk) = on_worker (write_recent_all (ctl_world io)) (write_recent_all (ctl_world io)) wk
      in Done ([''writing data'', if ok then ''recent data written correclty''
                                  else ''error writing recent data''], wk))"

definition write_http_cmd :: "ctl_io \<Rightarrow> worker \<Rightarrow> (string list \<times> worker) run" where
  "write_http_cmd io wk =
     run_bind (on_worker_run (write_http_data (ctl_world io)) (write_http_data (ctl_world io)) wk)
       (\<lambda>(ok, wk). Done ([if ok then ''http session data written correclty''
                          else ''error writing http session data''], wk))"

definition clear_table_cmd :: "ctl_io \<Rightarrow> string \<Rightarrow> worker \<Rightarrow> (string list \<times> worker) run" where
  "clear_table_cmd io n wk =
     (let (res, wk) = on_worker (clear_recent_data (ctl_world io) n) (clear_recent_data (ctl_world io) n) wk
      in Done ([if res = 0 then ''table cleared correclty''
                else if res = - 2 then ''table doesn'' @ [CHR 0x27] @ ''t exist''
                else ''error clearing table''], wk))"

definition write_table_cmd :: "ctl_io \<Rightarrow> string \<Rightarrow> worker \<Rightarrow> (string list \<times> worker) run" where
  "write_table_cmd io n wk =
     (let (res, wk) = on_worker (write_recent_data (ctl_world io) n) (write_recent_data (ctl_world io) n) wk
      in Done ([if res = 0 then ''table written correclty''
                else if res = - 2 then ''table doesn'' @ [CHR 0x27] @ ''t exist''
                else ''error writing table''], wk))"

definition show_mode :: "sync_controller \<Rightarrow> string" where
  "show_mode s =
     (case current_mode s of BACKUP_MODE \<Rightarrow> ''backup'' | MASTER_MODE \<Rightarrow> ''master'' | NONE_MODE \<Rightarrow> ''error'')"

definition switch_cmd :: "ctl_io \<Rightarrow> worker_mode \<Rightarrow> sync_controller \<Rightarrow> (string list \<times> sync_controller) run" where
  "switch_cmd io mode s =
     run_bind (set_worker_mode io mode s) (\<lambda>s. run_bind (controller_start s) (\<lambda>s. Done ([], s)))"

definition ctl_command :: "ctl_io \<Rightarrow> command_pkt \<Rightarrow> sync_controller \<Rightarrow> (string list \<times> sync_controller) run" where
  "ctl_command io pkt s =
     (case command pkt of
        QUIT \<Rightarrow> Exits 0
      | START_RECENT_SYNC \<Rightarrow> ctl_worker s start_recent_cmd
      | STOP_RECENT_SYNC \<Rightarrow> ctl_worker s stop_recent_cmd
      | START_HTTP_SYNC \<Rightarrow> ctl_worker s (start_http_cmd io (current_mode s) (command_data pkt))
      | CLEAR_HTTP \<Rightarrow> ctl_worker s (\<lambda>wk. Done ([], map_worker clear_http clear_http wk))
      | STOP_HTTP_SYNC \<Rightarrow> ctl_worker s (stop_http_cmd io (command_data pkt))
      | SW_TO_CLIENT \<Rightarrow>
          switch_cmd io BACKUP_MODE
            (s\<lparr>ctl_server_port := server_port pkt, ctl_server_address := server_address pkt\<rparr>)
      | SW_TO_MASTER \<Rightarrow> switch_cmd io MASTER_MODE (s\<lparr>ctl_server_port := server_port pkt\<rparr>)
      | WRITE_RECENT \<Rightarrow> ctl_worker s (write_recent_cmd io)
      | WRITE_HTTP \<Rightarrow> ctl_worker s (write_http_cmd io)
      | COUNT_RECENT \<Rightarrow> ctl_worker s (\<lambda>wk. Done (count_recent (recent_data (worker_base wk)), wk))
      | CLEAR_RECENT \<Rightarrow>
          ctl_worker s (\<lambda>wk. Done ([], map_worker (clear_all_recent_data (ctl_world io))
                                              (clear_all_recent_data (ctl_world io)) wk))
      | SHOW_RECENT \<Rightarrow>
          ctl_worker s (\<lambda>wk. case show_recent (recent_data (worker_base wk)) of
                               None \<Rightarrow> Fault | Some out \<Rightarrow> Done (out, wk))
      | COUNT_HTTP \<Rightarrow> ctl_worker s (\<lambda>wk. Done (count_http (http_session_data (worker_base wk)), wk))
      | SHOW_HTTP \<Rightarrow> ctl_worker s (\<lambda>wk. Done (show_http (http_session_data (worker_base wk)), wk))
      | CLEAR_RECENT_TABLE \<Rightarrow> ctl_worker s (clear_table_cmd io (command_data pkt))
      | WRITE_RECENT_TABLE \<Rightarrow> ctl_worker s (write_table_cmd io (command_data pkt))
      | SHOW_MODE \<Rightarrow> Done ([show_mode s], s)
      | _ \<Rightarrow> Done ([''Command no found'' @ newline], s))"

section \<open>The control socket\<close>

text \<open>What the peer gets of a response; any negative result of \<open>send\<close> ends it.\<close>

fun send_response :: "string \<Rightarrow> send_result list \<Rightarrow> string option" where
  "send_response str rs =
     (if str = [] then Some []
      else (case rs of
              [] \<Rightarrow> None
            | Sent n # rest \<Rightarrow> map_option (\<lambda>out. take n str @ out) (send_response (drop n str) rest)
            | _ # rest \<Rightarrow> Some []))"

declare send_response.simps [simp del]

text \<open>\<open>init_ctl_interface\<close>: only a failing \<open>bind\<close> ends the process.\<close>

definition init_ctl_interface :: "bool \<Rightarrow> unit run" where
  "init_ctl_interface bind_ok = (if \<not> bind_ok then Exits ERROR_NOT_DEFINED else Done ())"

datatype ctl_conn = Accept_failed | Recv_failed | Peer_closed | Received "byte list"

definition MAX_COMMAND_SIZE :: nat where
  "MAX_COMMAND_SIZE = 1024"

text \<open>
  One connection; the buffer keeps what earlier commands left in it. The responses go out over the
  connection in order.
\<close>

definition ctl_accept ::
    "command_pkt \<Rightarrow> ctl_io \<Rightarrow> ctl_conn \<Rightarrow> byte list \<times> sync_controller \<Rightarrow>
     (string list \<times> byte list \<times> sync_controller) run" where
  "ctl_accept u io conn_res bs =
     (let (buf, s) = bs
      in case conn_res of
           Received data \<Rightarrow>
             (let buf = store_at buf 0 data
              in case command_deserialize u buf (length data) of
                   Read_fault \<Rightarrow> Fault
                 | Null_pkt \<Rightarrow> Done ([''Command error''], buf, s)
                 | Parsed (Command_pkt pkt) _ \<Rightarrow>
                     run_bind (ctl_command io pkt s) (\<lambda>(out, s). Done (out, buf, s))
                 | Parsed _ _ \<Rightarrow> Fault)
         | _ \<Rightarrow> Done ([], buf, s))"

fun ctl_task ::
    "command_pkt \<Rightarrow> (ctl_io \<times> ctl_conn) list \<Rightarrow> byte list \<times> sync_controller \<Rightarrow>
     (string list list \<times> byte list \<times> sync_controller) run" where
  "ctl_task u [] (buf, s) = Done ([], buf, s)"
| "ctl_task u ((io, c) # cs) (buf, s) =
     (if ctl_running s
      then run_bind (ctl_accept u io c (buf, s))
             (\<lambda>(out, buf, s). run_bind (ctl_task u cs (buf, s)) (\<lambda>(outs, r). Done (out # outs, r)))
      else Done ([], buf, s))"

section \<open>Properties of the commands\<close>

lemma send_response_all:
  "send_ok (length str) rs \<Longrightarrow> list_all (\<lambda>r. \<exists>n. r = Sent n) rs \<Longrightarrow> length str \<le> length rs \<Longrightarrow>
   send_response str rs = Some str"
proof (induction rs arbitrary: str)
  case Nil
  then show ?case by (subst send_response.simps) simp
next
  case (Cons r rs)
  then obtain n where r: "r = Sent n" by auto
  show ?case
  proof (cases "str = []")
    case True
    then show ?thesis by (subst send_response.simps) simp
  next
    case False
    with Cons.prems r have n: "0 < n" "n \<le> length str" "send_ok (length (drop n str)) rs" by auto
    then have "length (drop n str) \<le> length rs" using Cons.prems(3) by simp
    from Cons.IH [OF n(3) _ this] Cons.prems(2) False r show ?thesis
      by (subst send_response.simps) simp
  qed
qed

lemma controller_start_joinable: "controller_start s = Done s' \<Longrightarrow> sync_worker s \<noteq> None \<Longrightarrow> command_thread s'"
  by (auto simp: controller_start_def Let_def split: option.splits if_splits)

text \<open>
  A switch of mode from the control thread ends the daemon: the thread object is joinable since the
  first \<open>start\<close>.
\<close>

lemma set_worker_mode_Done:
  assumes "set_worker_mode io mode s = Done s'" and "mode \<noteq> NONE_MODE"
  shows "sync_worker s' \<noteq> None \<and> current_mode s' = mode \<and> command_thread s' = command_thread s \<and>
    ctl_running s' = ctl_running s"
  using assms by (cases mode) (auto simp: set_worker_mode_def Let_def run_bind_Done)

lemma switch_terminates:
  assumes "command_thread s" and "mode \<noteq> NONE_MODE"
  shows "\<nexists>r. switch_cmd io mode s = Done r"
proof
  assume "\<exists>r. switch_cmd io mode s = Done r"
  then obtain s1 s2 where s1: "set_worker_mode io mode s = Done s1" "controller_start s1 = Done s2"
    by (auto simp: switch_cmd_def run_bind_Done)
  from set_worker_mode_Done [OF s1(1) assms(2)] assms(1) s1(2) show False
    by (auto simp: controller_start_def Let_def)
qed

text \<open>Every command other than a switch keeps the mode, the flag and the thread.\<close>

lemma ctl_worker_frame:
  "ctl_worker s f = Done (out, s') \<Longrightarrow> current_mode s' = current_mode s \<and> ctl_running s' = ctl_running s \<and>
     command_thread s' = command_thread s \<and> sync_worker s \<noteq> None \<and> sync_worker s' \<noteq> None"
  by (auto simp: ctl_worker_def run_bind_Done split: option.splits)

lemma ctl_command_frame:
  assumes "ctl_command io pkt s = Done (out, s')" and "command pkt \<noteq> SW_TO_CLIENT" and "command pkt \<noteq> SW_TO_MASTER"
  shows "current_mode s' = current_mode s \<and> ctl_running s' = ctl_running s \<and> command_thread s' = command_thread s \<and>
    (sync_worker s \<noteq> None \<longrightarrow> sync_worker s' \<noteq> None)"
  using assms by (cases "command pkt") (auto simp: ctl_command_def dest!: ctl_worker_frame)

lemma ctl_command_mode:
  assumes "ctl_command io pkt s = Done (out, s')" and "command_thread s"
  shows "current_mode s' = current_mode s \<and> ctl_running s' = ctl_running s \<and> command_thread s'"
proof (cases "command pkt = SW_TO_CLIENT \<or> command pkt = SW_TO_MASTER")
  case True
  let ?c = "s\<lparr>ctl_server_port := server_port pkt, ctl_server_address := server_address pkt\<rparr>"
  let ?m = "s\<lparr>ctl_server_port := server_port pkt\<rparr>"
  have "command_thread ?c" "command_thread ?m" using assms(2) by simp_all
  with switch_terminates [of ?c BACKUP_MODE io] switch_terminates [of ?m MASTER_MODE io] True assms(1)
  show ?thesis by (auto simp: ctl_command_def)
next
  case False
  with ctl_command_frame [OF assms(1)] assms(2) show ?thesis by simp
qed

lemma ctl_accept_mode:
  assumes "ctl_accept u io c (buf, s) = Done (out, buf', s')" and "command_thread s"
  shows "current_mode s' = current_mode s \<and> ctl_running s' = ctl_running s \<and> command_thread s'"
  using assms
  by (auto simp: ctl_accept_def Let_def run_bind_Done dest: ctl_command_mode
      split: ctl_conn.splits parsed.splits packet.splits)

section \<open>Properties\<close>

text \<open>C33: once the control thread runs, a command to become a backup ends the whole daemon, and so does
  one to become a master when its socket can be opened: \<open>start\<close> assigns a new thread to the joinable
  \<open>command_thread\<close>, which calls \<open>std::terminate\<close>.\<close>

theorem mode_switch_ends_daemon:
  assumes "command_thread s"
  shows "(command pkt = SW_TO_CLIENT \<longrightarrow> ctl_command io pkt s = Terminates) \<and>
    (command pkt = SW_TO_MASTER \<and> ctl_socket io \<noteq> None \<and> ctl_options_ok io \<and> ctl_bind_ok io \<longrightarrow>
      ctl_command io pkt s = Terminates)"
  using assms
  by (auto simp: ctl_command_def switch_cmd_def set_worker_mode_def Let_def controller_start_def
      init_master_def new_server_def set_socket_options_def)

definition sample_controller :: sync_controller where
  "sample_controller = (new_sync_controller BACKUP_MODE True)
     \<lparr>sync_worker := Some (Backup (init_backup False False 0)), command_thread := True\<rparr>"

definition sample_ctl_io :: ctl_io where
  "sample_ctl_io = \<lparr>ctl_world = sample_world,
     ctl_farm = \<lparr>io_socket = None, io_connect = False, io_getfl = False, io_setfl = False, io_epoll = False, io_mem = []\<rparr>,
     ctl_socket = Some 3, ctl_options_ok = True, ctl_bind_ok = True, ctl_flags = (False, False)\<rparr>"

theorem mode_switch_ends_daemon_witness:
  "ctl_command sample_ctl_io sample_command sample_controller = Terminates \<and>
   ctl_command sample_ctl_io (sample_command\<lparr>command := SW_TO_MASTER\<rparr>) sample_controller = Terminates"
proof -
  have t: "command_thread sample_controller" by (simp add: sample_controller_def)
  show ?thesis
    using mode_switch_ends_daemon [OF t, of sample_command sample_ctl_io]
      mode_switch_ends_daemon [OF t, of "sample_command\<lparr>command := SW_TO_MASTER\<rparr>" sample_ctl_io]
    by (simp add: sample_ctl_io_def)
qed

text \<open>C34: whatever commands a running daemon gets, its mode, its running flag and its thread are the same
  after every run of the control loop that returns: no accepted command can change the mode.\<close>

theorem mode_never_changes:
  assumes "ctl_task u conns (buf, s) = Done (outs, buf', s')" and "command_thread s"
  shows "current_mode s' = current_mode s \<and> ctl_running s' = ctl_running s \<and> command_thread s'"
  using assms
proof (induction conns arbitrary: buf s outs buf' s')
  case (Cons c conns)
  obtain io cr where c: "c = (io, cr)" by force
  show ?case
  proof (cases "ctl_running s")
    case True
    with Cons.prems(1) obtain out b1 s1 outs1 where
      1: "ctl_accept u io cr (buf, s) = Done (out, b1, s1)" "ctl_task u conns (b1, s1) = Done (outs1, buf', s')"
      by (auto simp: c run_bind_Done)
    from ctl_accept_mode [OF 1(1) Cons.prems(2)] Cons.IH [OF 1(2)] show ?thesis by simp
  next
    case False
    with Cons.prems show ?thesis by (simp add: c)
  qed
qed simp

theorem mode_never_changes_witness:
  "\<exists>outs buf' s'. ctl_task sample_command
      [(sample_ctl_io, Peer_closed), (sample_ctl_io, Received [1, 2])] ([], sample_controller) = Done (outs, buf', s') \<and>
    current_mode s' = BACKUP_MODE"
proof -
  have short: "command_deserialize sample_command b (Suc (Suc 0)) = Null_pkt" for b
    by (rule command.deserialize_short) simp
  have m: "current_mode sample_controller = BACKUP_MODE" "command_thread sample_controller"
    "ctl_running sample_controller"
    by (simp_all add: sample_controller_def new_sync_controller_def)
  have "\<exists>outs buf' s'. ctl_task sample_command
      [(sample_ctl_io, Peer_closed), (sample_ctl_io, Received [1, 2])] ([], sample_controller) = Done (outs, buf', s')"
    by (simp add: ctl_accept_def Let_def short m)
  with mode_never_changes m show ?thesis by metis
qed

end
