(* ===== verification/Getopt.thy ===== *)
theory Getopt
  imports Prelude
begin

text \<open>
  \<open>getopt_long\<close> of the C library, as its manual describes it: clusters of short options, values in the
  same or in the next argument, long options with their unambiguous abbreviations and with \<open>=\<close>, arguments
  that are no options, which are passed over, and \<open>--\<close>, which ends the options. Of the library's features
  those that no option string or table of the program uses (optional values, \<open>W;\<close>, a leading \<open>+\<close> or
  \<open>-\<close>, flags) are left out. A parsed option gives its character and \<open>optarg\<close>.
\<close>

section \<open>Options\<close>

datatype arg_kind = No_argument | Required_argument

text \<open>\<open>struct option\<close> without the \<open>flag\<close>, which is null.\<close>

record long_option =
  lo_name :: string
  lo_has_arg :: arg_kind
  lo_val :: char

datatype getopt_ret = Got char "string option" | Bad_option | No_more

text \<open>
  \<open>nextchar\<close> is what is left of a cluster of short options; \<open>getopt_args\<close> are the arguments not looked at
  (\<open>argv\<close> from \<open>optind\<close> on).
\<close>

record getopt_state =
  nextchar :: string
  getopt_args :: "string list"

definition getopt_start :: "string list \<Rightarrow> getopt_state" where
  "getopt_start args = \<lparr>nextchar = [], getopt_args = args\<rparr>"

text \<open>The short option \<open>c\<close> of an option string; a colon after it asks for a value.\<close>

fun short_option :: "string \<Rightarrow> char \<Rightarrow> arg_kind option" where
  "short_option [] c = None"
| "short_option (x # xs) c =
     (if x = c \<and> c \<noteq> CHR '':'' \<and> c \<noteq> CHR '';''
      then Some (if xs \<noteq> [] \<and> hd xs = CHR '':'' then Required_argument else No_argument)
      else short_option xs c)"

text \<open>
  An exact name wins; otherwise all the names that the given one abbreviates must stand for the same
  option.
\<close>

definition abbreviates :: "string \<Rightarrow> string \<Rightarrow> bool" where
  "abbreviates n name \<longleftrightarrow> take (length n) name = n"

definition pick_long :: "long_option list \<Rightarrow> string \<Rightarrow> long_option option" where
  "pick_long longs n =
     (case filter (\<lambda>p. lo_name p = n) longs of
        p # _ \<Rightarrow> Some p
      | [] \<Rightarrow>
          (case filter (\<lambda>p. abbreviates n (lo_name p)) longs of
             [] \<Rightarrow> None
           | p # ps \<Rightarrow>
               if list_all (\<lambda>q. lo_has_arg q = lo_has_arg p \<and> lo_val q = lo_val p) ps then Some p
               else None))"

section \<open>One call\<close>

definition is_option :: "string \<Rightarrow> bool" where
  "is_option a \<longleftrightarrow> 2 \<le> length a \<and> hd a = CHR ''-''"

text \<open>The next argument as the value of the option \<open>c\<close>.\<close>

definition take_value :: "char \<Rightarrow> string list \<Rightarrow> getopt_ret \<times> getopt_state" where
  "take_value c args =
     (case args of
        [] \<Rightarrow> (Bad_option, getopt_start [])
      | a # rest \<Rightarrow> (Got c (Some a), getopt_start rest))"

definition getopt_short :: "string \<Rightarrow> char \<Rightarrow> string \<Rightarrow> string list \<Rightarrow> getopt_ret \<times> getopt_state" where
  "getopt_short shorts c cs args =
     (case short_option shorts c of
        None \<Rightarrow> (Bad_option, \<lparr>nextchar = cs, getopt_args = args\<rparr>)
      | Some No_argument \<Rightarrow> (Got c None, \<lparr>nextchar = cs, getopt_args = args\<rparr>)
      | Some Required_argument \<Rightarrow>
          if cs \<noteq> [] then (Got c (Some cs), getopt_start args) else take_value c args)"

definition getopt_name :: "long_option list \<Rightarrow> string \<Rightarrow> string list \<Rightarrow> getopt_ret \<times> getopt_state" where
  "getopt_name longs s args =
     (let n = takeWhile (\<lambda>c. c \<noteq> CHR ''='') s;
          v = dropWhile (\<lambda>c. c \<noteq> CHR ''='') s
      in case pick_long longs n of
           None \<Rightarrow> (Bad_option, getopt_start args)
         | Some p \<Rightarrow>
             (case lo_has_arg p of
                Required_argument \<Rightarrow>
                  if v \<noteq> [] then (Got (lo_val p) (Some (tl v)), getopt_start args)
                  else take_value (lo_val p) args
              | No_argument \<Rightarrow>
                  (if v \<noteq> [] then Bad_option else Got (lo_val p) None, getopt_start args)))"

text \<open>
  \<open>posix\<close> says that \<open>POSIXLY_CORRECT\<close> is set in the environment: then the first argument that is no option
  ends the options.
\<close>

definition getopt_long ::
    "bool \<Rightarrow> string \<Rightarrow> long_option list \<Rightarrow> getopt_state \<Rightarrow> getopt_ret \<times> getopt_state" where
  "getopt_long posix shorts longs st =
     (case nextchar st of
        c # cs \<Rightarrow> getopt_short shorts c cs (getopt_args st)
      | [] \<Rightarrow>
          (case (if posix then getopt_args st else dropWhile (\<lambda>a. \<not> is_option a) (getopt_args st)) of
             [] \<Rightarrow> (No_more, getopt_start [])
           | a # rest \<Rightarrow>
               if \<not> is_option a then (No_more, getopt_start (a # rest))
               else if a = ''--'' then (No_more, getopt_start rest)
               else if a ! 1 = CHR ''-'' then getopt_name longs (drop 2 a) rest
               else getopt_short shorts (a ! 1) (drop 2 a) rest))"

section \<open>Lemmas\<close>

definition getopt_size :: "getopt_state \<Rightarrow> nat" where
  "getopt_size st = length (nextchar st) + sum_list (map (\<lambda>a. Suc (length a)) (getopt_args st))"

lemma getopt_start_sel [simp]: "nextchar (getopt_start args) = []" "getopt_args (getopt_start args) = args"
  by (simp_all add: getopt_start_def)

lemma take_value_size:
  "take_value c args = (Got o' v, st) \<Longrightarrow> getopt_size st < sum_list (map (\<lambda>a. Suc (length a)) args)"
  by (auto simp: take_value_def getopt_size_def split: list.splits)

lemma getopt_short_size:
  "getopt_short shorts c cs args = (Got o' v, st) \<Longrightarrow>
   getopt_size st \<le> length cs + sum_list (map (\<lambda>a. Suc (length a)) args)"
  by (auto simp: getopt_short_def getopt_size_def dest: take_value_size
      split: option.splits arg_kind.splits if_splits dest!: take_value_size)

lemma getopt_name_size:
  "getopt_name longs s args = (Got o' v, st) \<Longrightarrow>
   getopt_size st \<le> sum_list (map (\<lambda>a. Suc (length a)) args)"
  by (auto simp: getopt_name_def Let_def getopt_size_def
      split: option.splits arg_kind.splits if_splits dest!: take_value_size)

lemma sum_list_dropWhile: "sum_list (map f (dropWhile P xs)) \<le> (sum_list (map f xs) :: nat)"
  by (induction xs) auto

text \<open>Every option that is found makes the rest shorter: a loop over the options ends.\<close>

lemma getopt_long_shorter:
  assumes "getopt_long posix shorts longs st = (Got c v, st')"
  shows "getopt_size st' < getopt_size st"
proof (cases "nextchar st")
  case Nil
  define args where "args = (if posix then getopt_args st else dropWhile (\<lambda>a. \<not> is_option a) (getopt_args st))"
  have le: "sum_list (map (\<lambda>a. Suc (length a)) args) \<le> getopt_size st"
    using sum_list_dropWhile [of "\<lambda>a. Suc (length a)" "\<lambda>a. \<not> is_option a" "getopt_args st"]
    by (simp add: args_def getopt_size_def)
  from assms Nil obtain a rest where a: "args = a # rest" "is_option a"
    "getopt_name longs (drop 2 a) rest = (Got c v, st') \<or>
     getopt_short shorts (a ! 1) (drop 2 a) rest = (Got c v, st')"
    by (fastforce simp: getopt_long_def args_def [symmetric] split: list.splits if_splits)
  from a(3) have "getopt_size st' \<le> length a - 2 + sum_list (map (\<lambda>a. Suc (length a)) rest)"
    by (auto dest!: getopt_name_size getopt_short_size)
  with le a(1) show ?thesis by simp
next
  case (Cons c' cs)
  with assms have "getopt_short shorts c' cs (getopt_args st) = (Got c v, st')"
    by (simp add: getopt_long_def)
  from getopt_short_size [OF this] Cons show ?thesis by (simp add: getopt_size_def)
qed

text \<open>Calls on an argument that is an option.\<close>

lemma getopt_long_cluster:
  "getopt_long posix shorts longs \<lparr>nextchar = c # cs, getopt_args = args\<rparr> = getopt_short shorts c cs args"
  by (simp add: getopt_long_def)

lemma getopt_long_short:
  assumes "c \<noteq> CHR ''-''"
  shows "getopt_long posix shorts longs (getopt_start ((CHR ''-'' # c # cs) # args)) =
    getopt_short shorts c cs args"
  using assms by (simp add: getopt_long_def is_option_def)

lemma getopt_long_name:
  assumes "s \<noteq> []"
  shows "getopt_long posix shorts longs (getopt_start ((CHR ''-'' # CHR ''-'' # s) # args)) =
    getopt_name longs s args"
  using assms by (simp add: getopt_long_def is_option_def)

lemma getopt_long_end: "getopt_long posix shorts longs (getopt_start []) = (No_more, getopt_start [])"
  by (simp add: getopt_long_def)

lemma getopt_long_end_mark:
  "getopt_long posix shorts longs (getopt_start (''--'' # args)) = (No_more, getopt_start args)"
  by (simp add: getopt_long_def is_option_def)

lemma getopt_long_skip:
  assumes "\<not> is_option a"
  shows "getopt_long False shorts longs (getopt_start (a # args)) =
    getopt_long False shorts longs (getopt_start args)"
  using assms by (simp add: getopt_long_def)

text \<open>A name and its value in one argument, or alone.\<close>

lemma getopt_name_eq:
  assumes "CHR ''='' \<notin> set n" and "pick_long longs n = Some p" and "lo_has_arg p = Required_argument"
  shows "getopt_name longs (n @ CHR ''='' # v) args = (Got (lo_val p) (Some v), getopt_start args)"
proof -
  have "takeWhile (\<lambda>c. c \<noteq> CHR ''='') (n @ CHR ''='' # v) = n"
    "dropWhile (\<lambda>c. c \<noteq> CHR ''='') (n @ CHR ''='' # v) = CHR ''='' # v"
    using assms(1) by (induction n) auto
  with assms(2,3) show ?thesis by (simp add: getopt_name_def)
qed

lemma getopt_name_alone:
  assumes "CHR ''='' \<notin> set n" and "pick_long longs n = Some p"
  shows "getopt_name longs n args =
    (case lo_has_arg p of
       Required_argument \<Rightarrow> take_value (lo_val p) args
     | No_argument \<Rightarrow> (Got (lo_val p) None, getopt_start args))"
proof -
  have tw: "takeWhile (\<lambda>c. c \<noteq> CHR ''='') n = n" "dropWhile (\<lambda>c. c \<noteq> CHR ''='') n = []"
    using assms(1) by (induction n) auto
  show ?thesis unfolding getopt_name_def Let_def tw by (simp add: assms(2) cong: arg_kind.case_cong)
qed

end
