(* ===== verification/Main_Program.thy ===== *)
theory Main_Program
  imports Sync_Controller Getopt
begin

text \<open>
  \<open>main.cpp\<close>: the command line of the daemon, the way it becomes a daemon, its start and its end.
  The tests of the test mode are an argument; the help text and what the handler of \<open>SIGSEGV\<close> logs before
  it exits are output and not modelled.
\<close>

section \<open>Options\<close>

datatype run_command = Cmd_none | Cmd_master | Cmd_backup | Cmd_test

record main_config =
  cfg_port :: s32
  cfg_address :: string
  cfg_mode :: run_command
  cfg_test :: int
  cfg_daemon :: bool

definition default_config :: main_config where
  "default_config = \<lparr>cfg_port = 7777, cfg_address = [], cfg_mode = Cmd_none, cfg_test = 0, cfg_daemon = False\<rparr>"

definition long_options :: "long_option list" where
  "long_options =
     [\<lparr>lo_name = ''help'', lo_has_arg = No_argument, lo_val = CHR ''h''\<rparr>,
      \<lparr>lo_name = ''master'', lo_has_arg = No_argument, lo_val = CHR ''M''\<rparr>,
      \<lparr>lo_name = ''backup'', lo_has_arg = No_argument, lo_val = CHR ''B''\<rparr>,
      \<lparr>lo_name = ''address'', lo_has_arg = Required_argument, lo_val = CHR ''a''\<rparr>,
      \<lparr>lo_name = ''daemon'', lo_has_arg = Required_argument, lo_val = CHR ''d''\<rparr>,
      \<lparr>lo_name = ''port'', lo_has_arg = Required_argument, lo_val = CHR ''p''\<rparr>,
      \<lparr>lo_name = ''test'', lo_has_arg = Required_argument, lo_val = CHR ''t''\<rparr>,
      \<lparr>lo_name = ''local-test'', lo_has_arg = Required_argument, lo_val = CHR ''l''\<rparr>]"

definition short_options :: string where
  "short_options = ''MBdt:ha:p:''"

text \<open>\<open>atoi\<close>: 0 when no digit is found, undefined when the value does not fit.\<close>

definition atoi :: "string \<Rightarrow> s32 run" where
  "atoi s = (case stoi s of Inr v \<Rightarrow> Done v | Inl Invalid_argument \<Rightarrow> Done 0 | Inl Out_of_range \<Rightarrow> Fault)"

text \<open>\<open>optarg\<close> where the code reads it; a null pointer is undefined behaviour.\<close>

definition with_optarg :: "string option \<Rightarrow> (string \<Rightarrow> 'a run) \<Rightarrow> 'a run" where
  "with_optarg optarg f = (case optarg of None \<Rightarrow> Fault | Some s \<Rightarrow> f s)"

text \<open>The \<open>switch\<close> over the character that \<open>getopt_long\<close> returns.\<close>

definition main_option :: "char \<Rightarrow> string option \<Rightarrow> main_config \<Rightarrow> main_config run" where
  "main_option c optarg cfg =
     (if c = CHR ''d'' then Done (cfg\<lparr>cfg_daemon := True\<rparr>)
      else if c = CHR ''M'' then Done (cfg\<lparr>cfg_mode := Cmd_master\<rparr>)
      else if c = CHR ''B'' then Done (cfg\<lparr>cfg_mode := Cmd_backup\<rparr>)
      else if c = CHR ''a'' then with_optarg optarg (\<lambda>s. Done (cfg\<lparr>cfg_address := s\<rparr>))
      else if c = CHR ''p'' then
        with_optarg optarg (\<lambda>s. run_bind (atoi s) (\<lambda>p. Done (cfg\<lparr>cfg_port := p\<rparr>)))
      else if c = CHR ''t'' then
        with_optarg optarg (\<lambda>s. run_bind (atoi s) (\<lambda>t.
          if sint t > 2 \<or> sint t < 1 then Exits 1
          else Done (cfg\<lparr>cfg_mode := Cmd_test, cfg_test := sint t\<rparr>)))
      else if c = CHR ''h'' then Exits 0
      else Exits 1)"

text \<open>The loop; \<open>posix\<close> is an argument of \<open>getopt_long\<close>.\<close>

function main_options :: "bool \<Rightarrow> getopt_state \<Rightarrow> main_config \<Rightarrow> main_config run" where
  "main_options posix st cfg =
     (case getopt_long posix short_options long_options st of
        (No_more, _) \<Rightarrow> Done cfg
      | (Bad_option, _) \<Rightarrow> Exits 1
      | (Got c optarg, st') \<Rightarrow> run_bind (main_option c optarg cfg) (\<lambda>cfg. main_options posix st' cfg))"
  by pat_completeness auto
termination
  by (relation "measure (\<lambda>(_, st, _). getopt_size st)") (auto dest: getopt_long_shorter sym)

declare main_options.simps [simp del]

section \<open>Becoming a daemon\<close>

text \<open>
  What \<open>daemonize\<close> changes of the process: its open descriptors with the files behind them, the
  descriptors of the three standard streams (\<open>None\<close> is a null \<open>FILE\<close> pointer), the working directory, the
  file mode mask and the ignored signals.
\<close>

record process =
  open_files :: "(nat \<times> string) list"
  proc_stdin :: "nat option"
  proc_stdout :: "nat option"
  proc_stderr :: "nat option"
  proc_cwd :: string
  proc_umask :: nat
  proc_ignored :: "string list"

text \<open>The loop that closes the descriptors: down to 1. \<open>close\<close> fails on one that is not open.\<close>

fun close_files :: "nat \<Rightarrow> (nat \<times> string) list \<Rightarrow> (nat \<times> string) list" where
  "close_files 0 fs = fs"
| "close_files (Suc fd) fs = close_files fd (filter (\<lambda>(d, _). d \<noteq> Suc fd) fs)"

text \<open>\<open>fopen\<close> takes the lowest descriptor that is free; \<open>ok\<close> is its success.\<close>

definition lowest_free :: "(nat \<times> string) list \<Rightarrow> nat" where
  "lowest_free fs = hd (filter (\<lambda>d. d \<notin> set (map fst fs)) [0..<Suc (length fs)])"

definition fopen :: "bool \<Rightarrow> string \<Rightarrow> (nat \<times> string) list \<Rightarrow> nat option \<times> (nat \<times> string) list" where
  "fopen ok name fs = (if ok then (Some (lowest_free fs), (lowest_free fs, name) # fs) else (None, fs))"

text \<open>
  The answers of the system: the two \<open>fork\<close>s and \<open>setsid\<close>, whether \<open>chdir\<close> and the three \<open>fopen\<close>s succeed,
  and \<open>sysconf(_SC_OPEN_MAX)\<close>, which is -1 when there is no limit.
\<close>

record daemon_io =
  dio_fork1 :: int
  dio_setsid :: int
  dio_fork2 :: int
  dio_chdir_ok :: bool
  dio_open_max :: int
  dio_fopen_ok :: "bool \<times> bool \<times> bool"

definition or_default :: "string \<Rightarrow> string \<Rightarrow> string" where
  "or_default s d = (if s = [] then d else s)"

definition daemonize ::
    "daemon_io \<Rightarrow> string \<Rightarrow> string \<Rightarrow> string \<Rightarrow> string \<Rightarrow> string \<Rightarrow> process \<Rightarrow> (int \<times> process) run" where
  "daemonize io name path outfile errfile infile p =
     (let path = or_default path ''/''; name = or_default name ''ssyncd'';
          infile = or_default infile ''/dev/null''; outfile = or_default outfile ''/dev/null'';
          errfile = or_default errfile ''/dev/null''
      in if dio_fork1 io < 0 then Exits 1
         else if 0 < dio_fork1 io then Exits 0
         else if dio_setsid io < 0 then Exits 1
         else
           (let p = p\<lparr>proc_ignored := ''SIGHUP'' # ''SIGCHLD'' # proc_ignored p\<rparr>
            in if dio_fork2 io < 0 then Exits 1
               else if 0 < dio_fork2 io then Exits 0
               else
                 (let p = p\<lparr>proc_umask := 0, proc_cwd := if dio_chdir_ok io then path else proc_cwd p\<rparr>;
                      fs = close_files (nat (dio_open_max io)) (open_files p);
                      (ok1, ok2, ok3) = dio_fopen_ok io;
                      (d_in, fs) = fopen ok1 infile fs;
                      (d_out, fs) = fopen ok2 outfile fs;
                      (d_err, fs) = fopen ok3 errfile fs
                  in Done (0, p\<lparr>proc_stdin := d_in, proc_stdout := d_out, proc_stderr := d_err,
                               open_files := fs\<rparr>))))"

section \<open>The start\<close>

text \<open>
  \<open>main\<close> up to the loop that waits while the controller is running; \<open>u\<close> and \<open>u'\<close> are the uninitialised
  members of the controller, \<open>args\<close> is \<open>argv\<close> without the program's name. A test only sets up the
  controller.
\<close>

definition main_start ::
    "worker_mode \<Rightarrow> bool \<Rightarrow> ctl_io \<Rightarrow> daemon_io \<Rightarrow> bool \<Rightarrow> string list \<Rightarrow> bool \<Rightarrow> process \<Rightarrow>
     (main_config \<times> process \<times> sync_controller) run" where
  "main_start u u' io dio posix args ctl_bind p =
     run_bind (main_options posix (getopt_start args) default_config) (\<lambda>cfg.
       run_bind (if cfg_daemon cfg then daemonize dio ''ssyncd'' ''/'' [] [] [] p else Done (0, p))
         (\<lambda>(d, p). if d \<noteq> 0 then Exits 1
              else if cfg_mode cfg = Cmd_none then Exits 1
              else
                (let ctl_control = (new_sync_controller u u')
                       \<lparr>ctl_server_port := cfg_port cfg, ctl_server_address := cfg_address cfg\<rparr>
                 in run_bind (init_ctl_interface ctl_bind) (\<lambda>_.
                    run_bind
                     (case cfg_mode cfg of
                        Cmd_master \<Rightarrow>
                          run_bind (set_worker_mode io MASTER_MODE ctl_control) controller_start
                      | Cmd_backup \<Rightarrow>
                          if cfg_address cfg = [] then Exits 1
                          else run_bind (set_worker_mode io BACKUP_MODE ctl_control) controller_start
                      | _ \<Rightarrow> Done ctl_control)
                     (\<lambda>ctl_control. Done (cfg, p, ctl_control))))))"

text \<open>
  The rest: the loop with the values of \<open>is_running\<close> it reads, or the tests, then the return, which
  destroys the controller. A run of the connection tests is an argument.
\<close>

fun main_wait :: "bool list \<Rightarrow> unit run" where
  "main_wait [] = Diverges"
| "main_wait (running # rs) = (if running then main_wait rs else Done ())"

definition main_program ::
    "(int \<Rightarrow> string \<Rightarrow> s32 \<Rightarrow> unit run) \<Rightarrow> worker_mode \<Rightarrow> bool \<Rightarrow> ctl_io \<Rightarrow> daemon_io \<Rightarrow> bool \<Rightarrow> string list \<Rightarrow> bool \<Rightarrow>
     process \<Rightarrow> bool list \<Rightarrow> unit run" where
  "main_program tests u u' io dio posix args ctl_bind p rs =
     run_bind (main_start u u' io dio posix args ctl_bind p) (\<lambda>(cfg, p, ctl_control).
       run_bind
         (if cfg_mode cfg = Cmd_test then tests (cfg_test cfg) (cfg_address cfg) (cfg_port cfg)
          else main_wait rs)
         (\<lambda>_. run_bind (controller_destroy ctl_control) (\<lambda>_. Exits 0)))"

section \<open>What a start gives\<close>

text \<open>
  A started daemon runs in the mode of the last \<open>-M\<close> or \<open>-B\<close>, with a worker whose stores are empty and
  with the control thread running.
\<close>

definition worker_fresh :: "worker \<Rightarrow> bool" where
  "worker_fresh wk \<longleftrightarrow> worker_running (worker_base wk) \<and> recent_data (worker_base wk) = [] \<and>
     http_session_data (worker_base wk) = [] \<and> \<not> conn_running (conn (worker_base wk))"

lemma truncate_base [simp]:
  "worker_running (base_sync.truncate m) = worker_running m" "recent_data (base_sync.truncate m) = recent_data m"
  "http_session_data (base_sync.truncate m) = http_session_data m" "conn (base_sync.truncate m) = conn m"
  "http_listener (base_sync.truncate m) = http_listener m" "recent_listener (base_sync.truncate m) = recent_listener m"
  by (simp_all add: base_sync.truncate_def)

lemma new_master_fields [simp]:
  "worker_running (new_sync_master b) = worker_running b" "recent_data (new_sync_master b) = recent_data b"
  "http_session_data (new_sync_master b) = http_session_data b" "conn (new_sync_master b) = conn b"
  by (simp_all add: new_sync_master_def base_sync.extend_def)

lemma set_mode_worker:
  assumes "set_worker_mode io mode s = Done s'" and "mode \<noteq> NONE_MODE"
  obtains wk where "sync_worker s' = Some wk" "\<not> conn_running (conn (worker_base wk))"
    "mode = MASTER_MODE \<longleftrightarrow> (\<exists>m. wk = Master m)" "is_server (conn (worker_base wk)) \<longleftrightarrow> mode = MASTER_MODE"
proof (cases mode)
  case MASTER_MODE
  with assms(1) obtain b where b: "init_master (fst (ctl_flags io)) (snd (ctl_flags io)) (ctl_socket io)
      (ctl_options_ok io) (ctl_bind_ok io) = Done b" "sync_worker s' = Some (Master (new_sync_master b))"
    by (auto simp: set_worker_mode_def Let_def run_bind_Done)
  then have "\<not> conn_running (conn b)" "is_server (conn b)"
    by (auto simp: init_master_def new_server_def new_base_sync_def run_bind_Done split: option.splits if_splits)
  with b(2) MASTER_MODE show ?thesis by (intro that) (auto simp: worker_base_def)
next
  case BACKUP_MODE
  with assms(1) have "sync_worker s' = Some (Backup (init_backup (fst (ctl_flags io)) (snd (ctl_flags io)) 0))"
    by (auto simp: set_worker_mode_def Let_def run_bind_Done)
  with BACKUP_MODE show ?thesis
    by (intro that) (auto simp: worker_base_def init_backup_def new_base_sync_def new_client_def)
qed (use assms(2) in simp)

lemma start_fresh:
  assumes "run_bind (set_worker_mode io mode s) controller_start = Done s'" and "mode \<noteq> NONE_MODE"
  shows "ctl_running s' \<and> command_thread s' \<and> current_mode s' = mode \<and>
    (if mode = MASTER_MODE
     then \<exists>m. sync_worker s' = Some (Master m) \<and> worker_fresh (Master m) \<and> is_server (conn m)
     else \<exists>b. sync_worker s' = Some (Backup b) \<and> worker_fresh (Backup b) \<and> \<not> is_server (conn b))"
proof -
  from assms(1) obtain s1 where s1: "set_worker_mode io mode s = Done s1" "controller_start s1 = Done s'"
    by (auto simp: run_bind_Done)
  from set_mode_worker [OF s1(1) assms(2)] obtain wk where wk: "sync_worker s1 = Some wk"
    "\<not> conn_running (conn (worker_base wk))" "mode = MASTER_MODE \<longleftrightarrow> (\<exists>m. wk = Master m)"
    "is_server (conn (worker_base wk)) \<longleftrightarrow> mode = MASTER_MODE" .
  have "current_mode s1 = mode" using set_worker_mode_Done [OF s1(1) assms(2)] by simp
  moreover from s1(2) wk(1) have "s' = s1\<lparr>sync_worker := Some (map_worker base_start base_start wk),
      ctl_running := True, command_thread := True\<rparr>"
    by (auto simp: controller_start_def Let_def split: if_splits)
  ultimately show ?thesis
    using wk(2-4) by (cases wk) (auto simp: map_worker_def worker_fresh_def worker_base_def base_start_def)
qed

lemma main_start_Done:
  assumes "main_start u u' io dio posix args ctl_bind p = Done (cfg, p', s)" and "cfg_mode cfg \<noteq> Cmd_test"
  shows "main_options posix (getopt_start args) default_config = Done cfg \<and> cfg_mode cfg \<noteq> Cmd_none \<and>
    ctl_running s \<and> command_thread s \<and>
    current_mode s = (if cfg_mode cfg = Cmd_master then MASTER_MODE else BACKUP_MODE) \<and>
    (cfg_mode cfg = Cmd_backup \<longrightarrow> cfg_address cfg \<noteq> []) \<and>
    (if cfg_mode cfg = Cmd_master
     then \<exists>m. sync_worker s = Some (Master m) \<and> worker_fresh (Master m) \<and> is_server (conn m)
     else \<exists>b. sync_worker s = Some (Backup b) \<and> worker_fresh (Backup b) \<and> \<not> is_server (conn b))"
proof -
  from assms(1) obtain ctl where c: "main_options posix (getopt_start args) default_config = Done cfg"
    "cfg_mode cfg \<noteq> Cmd_none"
    "(case cfg_mode cfg of
        Cmd_master \<Rightarrow> run_bind (set_worker_mode io MASTER_MODE ctl) controller_start
      | Cmd_backup \<Rightarrow> if cfg_address cfg = [] then Exits 1
                      else run_bind (set_worker_mode io BACKUP_MODE ctl) controller_start
      | _ \<Rightarrow> Done ctl) = Done s"
    unfolding main_start_def Let_def by (auto simp: run_bind_Done split: if_splits)
  show ?thesis
  proof (cases "cfg_mode cfg")
    case Cmd_master
    with c(3) have "run_bind (set_worker_mode io MASTER_MODE ctl) controller_start = Done s" by simp
    from start_fresh [OF this] Cmd_master c(1) show ?thesis by auto
  next
    case Cmd_backup
    with c(3) have "run_bind (set_worker_mode io BACKUP_MODE ctl) controller_start = Done s"
      "cfg_address cfg \<noteq> []" by (auto split: if_splits)
    with start_fresh [OF this(1)] Cmd_backup c(1) show ?thesis by auto
  qed (use c(2) assms(2) in simp_all)
qed

section \<open>Command lines\<close>

text \<open>
  The words an option can be written in: flags in one argument; flags followed by an option with a value,
  in the same or in the next argument; the first \<open>n\<close> letters of a long name; a long name with its value
  behind \<open>=\<close> or in the next argument; an operand. \<open>--daemon\<close> is one of the names with a value.
\<close>

datatype option_word =
  Flags string
| Flags_value string char string bool
| Name nat char
| Name_value nat char string bool
| Operand string

definition long_name :: "char \<Rightarrow> string" where
  "long_name c = (case filter (\<lambda>p. lo_val p = c) long_options of p # _ \<Rightarrow> lo_name p | [] \<Rightarrow> [])"

fun spell :: "option_word \<Rightarrow> string list" where
  "spell (Flags fs) = [CHR ''-'' # fs]"
| "spell (Flags_value fs c v same) =
     (if same then [CHR ''-'' # fs @ c # v] else [CHR ''-'' # fs @ [c], v])"
| "spell (Name n c) = [''--'' @ take n (long_name c)]"
| "spell (Name_value n c v same) =
     (if same then [''--'' @ take n (long_name c) @ CHR ''='' # v] else [''--'' @ take n (long_name c), v])"
| "spell (Operand a) = [a]"

fun stands_for :: "option_word \<Rightarrow> (char \<times> string option) list" where
  "stands_for (Flags fs) = map (\<lambda>c. (c, None)) fs"
| "stands_for (Flags_value fs c v same) = map (\<lambda>c. (c, None)) fs @ [(c, Some v)]"
| "stands_for (Name n c) = [(c, None)]"
| "stands_for (Name_value n c v same) = [(c, Some v)]"
| "stands_for (Operand a) = []"

text \<open>Which words are well formed: an empty value cannot be in the argument of a short option.\<close>

fun good_word :: "bool \<Rightarrow> option_word \<Rightarrow> bool" where
  "good_word posix (Flags fs) \<longleftrightarrow> fs \<noteq> [] \<and> set fs \<subseteq> set ''MBdh''"
| "good_word posix (Flags_value fs c v same) \<longleftrightarrow>
     set fs \<subseteq> set ''MBdh'' \<and> c \<in> set ''tap'' \<and> (same \<longrightarrow> v \<noteq> [])"
| "good_word posix (Name n c) \<longleftrightarrow> c \<in> set ''hMB'' \<and> 1 \<le> n"
| "good_word posix (Name_value n c v same) \<longleftrightarrow> c \<in> set ''adptl'' \<and> 1 \<le> n"
| "good_word posix (Operand a) \<longleftrightarrow> \<not> posix \<and> \<not> is_option a"

fun main_wanted :: "(char \<times> string option) list \<Rightarrow> main_config \<Rightarrow> main_config run" where
  "main_wanted [] cfg = Done cfg"
| "main_wanted ((c, v) # os) cfg = run_bind (main_option c v cfg) (main_wanted os)"

lemma main_options_Got:
  assumes "getopt_long posix short_options long_options st = (Got c v, st')"
  shows "main_options posix st cfg = run_bind (main_option c v cfg) (main_options posix st')"
  using assms by (subst main_options.simps) simp

lemma main_wanted_append:
  "main_wanted (xs @ ys) cfg = run_bind (main_wanted xs cfg) (main_wanted ys)"
  by (induction xs cfg rule: main_wanted.induct) (simp_all cong: run_bind_cong)

lemma short_flag: "c \<in> set ''MBdh'' \<Longrightarrow> short_option short_options c = Some No_argument"
  by (auto simp: short_options_def)

lemma short_value: "c \<in> set ''tap'' \<Longrightarrow> short_option short_options c = Some Required_argument"
  by (auto simp: short_options_def)

text \<open>The flags of a cluster, one after the other.\<close>

lemma cluster_flags:
  assumes "set fs \<subseteq> set ''MBdh''"
  shows "main_options posix \<lparr>nextchar = fs @ cs, getopt_args = args\<rparr> cfg =
    run_bind (main_wanted (map (\<lambda>c. (c, None)) fs) cfg)
      (main_options posix \<lparr>nextchar = cs, getopt_args = args\<rparr>)"
  using assms
proof (induction fs arbitrary: cfg)
  case Nil
  then show ?case by simp
next
  case (Cons f fs)
  from Cons.prems have f: "f \<in> set ''MBdh''" and fs: "set fs \<subseteq> set ''MBdh''" by simp_all
  have "getopt_long posix short_options long_options \<lparr>nextchar = (f # fs) @ cs, getopt_args = args\<rparr> =
      (Got f None, \<lparr>nextchar = fs @ cs, getopt_args = args\<rparr>)"
    by (simp only: append_Cons getopt_long_cluster getopt_short_def short_flag [OF f]
        option.case arg_kind.case)
  from main_options_Got [OF this] Cons.IH [OF fs] show ?case by (simp cong: run_bind_cong)
qed

text \<open>Each word does what it stands for.\<close>

definition option_of :: "char \<Rightarrow> long_option" where
  "option_of c = hd (filter (\<lambda>p. lo_val p = c) long_options)"

lemma picks:
  assumes "c \<in> set ''hMBadptl''" and "1 \<le> n"
  shows "pick_long long_options (take n (long_name c)) = Some (option_of c)"
proof -
  have all: "list_all (\<lambda>c. list_all (\<lambda>n. pick_long long_options (take n (long_name c)) = Some (option_of c))
      [1..<Suc (length (long_name c))]) ''hMBadptl''"
    by code_simp
  define m where "m = min n (length (long_name c))"
  have "1 \<le> length (long_name c)" using assms(1) by (auto simp: long_name_def long_options_def)
  then have "m \<in> set [1..<Suc (length (long_name c))]" using assms(2) by (auto simp: m_def)
  with all assms(1) have "pick_long long_options (take m (long_name c)) = Some (option_of c)"
    unfolding list_all_iff by blast
  then show ?thesis by (cases "n \<le> length (long_name c)") (simp_all add: m_def)
qed

lemma option_of_sel:
  assumes "c \<in> set ''hMBadptl''"
  shows "lo_val (option_of c) = c"
    "lo_has_arg (option_of c) = (if c \<in> set ''hMB'' then No_argument else Required_argument)"
    "CHR ''='' \<notin> set (long_name c)" "long_name c \<noteq> []"
proof -
  have "list_all (\<lambda>c. lo_val (option_of c) = c \<and>
      lo_has_arg (option_of c) = (if c \<in> set ''hMB'' then No_argument else Required_argument) \<and>
      CHR ''='' \<notin> set (long_name c) \<and> long_name c \<noteq> []) ''hMBadptl''"
    by code_simp
  with assms show "lo_val (option_of c) = c"
    "lo_has_arg (option_of c) = (if c \<in> set ''hMB'' then No_argument else Required_argument)"
    "CHR ''='' \<notin> set (long_name c)" "long_name c \<noteq> []"
    unfolding list_all_iff by blast+
qed

lemma option_name:
  assumes "c \<in> set ''hMBadptl''" and "1 \<le> n"
  defines "s \<equiv> take n (long_name c)"
  shows "CHR ''='' \<notin> set s" "s \<noteq> []" "pick_long long_options s = Some (option_of c)"
  using option_of_sel [OF assms(1)] picks [OF assms(1,2)] assms(2)
  by (auto simp: s_def dest: in_set_takeD)

lemma value_word:
  assumes "lo_has_arg (option_of c) = Required_argument" and "c \<in> set ''hMBadptl''" and "1 \<le> n"
  shows "main_options posix (getopt_start (spell (Name_value n c v same) @ args)) cfg =
    run_bind (main_option c (Some v) cfg) (main_options posix (getopt_start args))"
proof -
  note s = option_name [OF assms(2,3)]
  have "getopt_long posix short_options long_options (getopt_start (spell (Name_value n c v same) @ args)) =
      (Got c (Some v), getopt_start args)"
  proof (cases same)
    case True
    from s(2) have "take n (long_name c) @ CHR ''='' # v \<noteq> []" by simp
    from getopt_long_name [OF this] getopt_name_eq [OF s(1,3) assms(1)] True option_of_sel(1) [OF assms(2)]
    show ?thesis by (simp del: take_eq_Nil)
  next
    case False
    from getopt_long_name [OF s(2)] getopt_name_alone [OF s(1,3)] assms(1) False option_of_sel(1) [OF assms(2)]
    show ?thesis by (simp add: take_value_def del: take_eq_Nil)
  qed
  from main_options_Got [OF this] show ?thesis .
qed

lemma cluster_start:
  assumes "f \<noteq> CHR ''-''"
  shows "main_options posix (getopt_start ((CHR ''-'' # f # fs) # args)) cfg =
    main_options posix \<lparr>nextchar = f # fs, getopt_args = args\<rparr> cfg"
  using getopt_long_short [OF assms, of posix short_options long_options fs args]
    getopt_long_cluster [of posix short_options long_options f fs args]
  by (simp only: main_options.simps [of posix "getopt_start ((CHR ''-'' # f # fs) # args)"]
      main_options.simps [of posix "\<lparr>nextchar = f # fs, getopt_args = args\<rparr>"])

lemma value_option:
  assumes "c \<in> set ''tap''" and "same \<longrightarrow> v \<noteq> []"
  shows "main_options posix \<lparr>nextchar = c # (if same then v else []), getopt_args = (if same then [] else [v]) @ args\<rparr> cfg =
    run_bind (main_option c (Some v) cfg) (main_options posix (getopt_start args))"
proof -
  have "getopt_long posix short_options long_options
      \<lparr>nextchar = c # (if same then v else []), getopt_args = (if same then [] else [v]) @ args\<rparr> =
      (Got c (Some v), getopt_start args)"
    using assms(2)
    by (simp add: getopt_long_cluster getopt_short_def short_value [OF assms(1)] take_value_def)
  from main_options_Got [OF this] show ?thesis .
qed

lemma good_word_step:
  assumes "good_word posix w"
  shows "main_options posix (getopt_start (spell w @ args)) cfg =
    run_bind (main_wanted (stands_for w) cfg) (main_options posix (getopt_start args))"
proof (cases w)
  case (Flags fs)
  with assms obtain f fs' where f: "fs = f # fs'" "f \<noteq> CHR ''-''" "set fs \<subseteq> set ''MBdh''"
    by (cases fs) auto
  from cluster_start [OF f(2), of posix fs' args cfg] cluster_flags [OF f(3), of posix "[]" args cfg] f(1) Flags
  show ?thesis by (simp add: getopt_start_def)
next
  case (Flags_value fs c v same)
  then have c: "c \<in> set ''tap''" "same \<longrightarrow> v \<noteq> []" "set fs \<subseteq> set ''MBdh''" using assms by simp_all
  define cs where "cs = c # (if same then v else [])"
  define rest where "rest = (if same then [] else [v]) @ args"
  obtain f fs' where f: "fs @ cs = f # fs'" by (cases fs) (auto simp: cs_def)
  with c have "f \<noteq> CHR ''-''" by (cases fs) (auto simp: cs_def)
  from cluster_start [OF this, of posix fs' rest cfg] cluster_flags [OF c(3), of posix cs rest cfg]
  have "main_options posix (getopt_start ((CHR ''-'' # fs @ cs) # rest)) cfg =
      run_bind (main_wanted (map (\<lambda>c. (c, None)) fs) cfg) (main_options posix \<lparr>nextchar = cs, getopt_args = rest\<rparr>)"
    by (simp only: f)
  also have "\<dots> = run_bind (main_wanted (map (\<lambda>c. (c, None)) fs) cfg)
      (\<lambda>cfg. run_bind (main_option c (Some v) cfg) (main_options posix (getopt_start args)))"
    unfolding cs_def rest_def by (rule run_bind_cong [OF refl value_option [OF c(1,2)]])
  finally show ?thesis
    by (simp add: Flags_value cs_def rest_def main_wanted_append split: if_splits cong: run_bind_cong)
next
  case (Name n c)
  then have c: "c \<in> set ''hMB''" "1 \<le> n" "c \<in> set ''hMBadptl''" using assms by auto
  note s = option_name [OF c(3,2)]
  from getopt_long_name [OF s(2)] getopt_name_alone [OF s(1,3)] c(1) option_of_sel(1,2) [OF c(3)]
  have "getopt_long posix short_options long_options (getopt_start (spell w @ args)) = (Got c None, getopt_start args)"
    by (simp add: Name del: take_eq_Nil)
  from main_options_Got [OF this] show ?thesis by (simp add: Name)
next
  case (Name_value n c v same)
  then have c: "c \<in> set ''adptl''" "1 \<le> n" "c \<in> set ''hMBadptl''" using assms by auto
  from c(1) option_of_sel(2) [OF c(3)] have "lo_has_arg (option_of c) = Required_argument" by auto
  from value_word [OF this c(3,2)] show ?thesis by (simp add: Name_value)
next
  case (Operand a)
  with assms have "getopt_long posix short_options long_options (getopt_start (spell w @ args)) =
      getopt_long posix short_options long_options (getopt_start args)"
    by (simp add: getopt_long_skip)
  then show ?thesis
    by (simp add: Operand main_options.simps [of posix "getopt_start args"]
        main_options.simps [of posix "getopt_start (a # args)"])
qed

lemma good_words:
  assumes "list_all (good_word posix) ws"
  shows "main_options posix (getopt_start (concat (map spell ws) @ args)) cfg =
    run_bind (main_wanted (concat (map stands_for ws)) cfg) (main_options posix (getopt_start args))"
  using assms
  by (induction ws arbitrary: cfg) (simp_all add: good_word_step main_wanted_append cong: run_bind_cong)

lemma no_more_options:
  "main_options posix (getopt_start []) cfg = Done cfg"
  "main_options posix (getopt_start (''--'' # args)) cfg = Done cfg"
  by (simp_all add: main_options.simps [of posix "getopt_start _"] getopt_long_end getopt_long_end_mark)

lemma run_bind_Done_id [simp]: "run_bind m Done = m"
  by (cases m) simp_all

section \<open>The descriptors of the daemon\<close>

lemma close_files_filter: "close_files n fs = filter (\<lambda>(d, _). d = 0 \<or> n < d) fs"
proof (induction n fs rule: close_files.induct)
  case (1 fs)
  show ?case by (induction fs) auto
qed (auto intro!: filter_cong)

lemma lowest_free_is:
  assumes "d \<notin> set (map fst fs)" and "\<forall>d'<d. d' \<in> set (map fst fs)" and "d \<le> length fs"
  shows "lowest_free fs = d"
proof -
  have "[0..<Suc (length fs)] = [0..<d] @ d # [Suc d..<Suc (length fs)]"
    using assms(3) upt_add_eq_append [of 0 d "Suc (length fs) - d"] by (simp add: upt_conv_Cons del: upt_Suc)
  moreover have "filter (\<lambda>d. d \<notin> set (map fst fs)) [0..<d] = []" using assms(2) by (auto simp: filter_empty_conv)
  ultimately show ?thesis using assms(1) by (simp add: lowest_free_def)
qed

lemma map_of_filter_key: "map_of (filter (\<lambda>(d, _). d = k) fs) k = map_of fs k"
  by (induction fs) auto

section \<open>Properties\<close>

text \<open>C36: a daemon that gets through its start runs with the control thread started, in the mode of the
  last \<open>-M\<close> or \<open>-B\<close> of its command line (a backup only with an address), and with a worker of the class of
  that mode, a master with the listening end of the link or a backup with the connecting one, that runs,
  holds no data and is not connected yet.\<close>

theorem daemon_starts_fresh:
  assumes "main_start u u' io dio posix args ctl_bind p = Done (cfg, p', s)" and "cfg_mode cfg \<noteq> Cmd_test"
  shows "main_options posix (getopt_start args) default_config = Done cfg \<and> cfg_mode cfg \<noteq> Cmd_none \<and>
    ctl_running s \<and> command_thread s \<and>
    current_mode s = (if cfg_mode cfg = Cmd_master then MASTER_MODE else BACKUP_MODE) \<and>
    (cfg_mode cfg = Cmd_backup \<longrightarrow> cfg_address cfg \<noteq> []) \<and>
    (if cfg_mode cfg = Cmd_master
     then \<exists>m. sync_worker s = Some (Master m) \<and> worker_fresh (Master m) \<and> is_server (conn m)
     else \<exists>b. sync_worker s = Some (Backup b) \<and> worker_fresh (Backup b) \<and> \<not> is_server (conn b))"
  using assms by (rule main_start_Done)

definition sample_daemon_io :: daemon_io where
  "sample_daemon_io = \<lparr>dio_fork1 = 0, dio_setsid = 0, dio_fork2 = 0, dio_chdir_ok = True, dio_open_max = 1024,
     dio_fopen_ok = (True, True, True)\<rparr>"

definition sample_process :: process where
  "sample_process = \<lparr>open_files = [(0, ''tty''), (1, ''tty''), (2, ''tty'')], proc_stdin = Some 0,
     proc_stdout = Some 1, proc_stderr = Some 2, proc_cwd = ''/root'', proc_umask = 18, proc_ignored = []\<rparr>"

definition sample_args :: "string list" where
  "sample_args = [''-Bd'', ''--addr'', ''10.0.0.1'']"

lemma sample_args_options:
  "main_options False (getopt_start sample_args) default_config =
    Done (default_config\<lparr>cfg_mode := Cmd_backup, cfg_daemon := True, cfg_address := ''10.0.0.1''\<rparr>)"
proof -
  have "main_options False (getopt_start (concat (map spell
      [Flags ''Bd'', Name_value 4 (CHR ''a'') ''10.0.0.1'' False]) @ [])) default_config =
    Done (default_config\<lparr>cfg_mode := Cmd_backup, cfg_daemon := True, cfg_address := ''10.0.0.1''\<rparr>)"
    by (subst good_words) (simp_all add: no_more_options main_option_def with_optarg_def)
  then show ?thesis by (simp add: sample_args_def long_name_def long_options_def)
qed

lemma sample_start:
  "\<exists>p' s. main_start MASTER_MODE True sample_ctl_io sample_daemon_io False sample_args True sample_process =
    Done (default_config\<lparr>cfg_mode := Cmd_backup, cfg_daemon := True, cfg_address := ''10.0.0.1''\<rparr>, p', s)"
  unfolding main_start_def sample_args_options
  by (simp add: daemonize_def sample_daemon_io_def fopen_def Let_def init_ctl_interface_def set_worker_mode_def
      new_sync_controller_def controller_start_def)

theorem daemon_starts_fresh_witness:
  "\<exists>cfg p' s. main_start MASTER_MODE True sample_ctl_io sample_daemon_io False sample_args True sample_process =
      Done (cfg, p', s) \<and> current_mode s = BACKUP_MODE \<and> command_thread s \<and>
    (\<exists>b. sync_worker s = Some (Backup b) \<and> worker_running b \<and> recent_data b = [] \<and> \<not> is_server (conn b))"
proof -
  from sample_start obtain p' s where s: "main_start MASTER_MODE True sample_ctl_io sample_daemon_io False sample_args True
      sample_process = Done (default_config\<lparr>cfg_mode := Cmd_backup, cfg_daemon := True,
        cfg_address := ''10.0.0.1''\<rparr>, p', s)" by blast
  with daemon_starts_fresh [OF s] show ?thesis by (auto simp: worker_fresh_def worker_base_def)
qed

text \<open>C32: however a command line is written (flags apart or in a cluster, values in the same or in the next
  argument, long names in full or cut short, operands in between), the daemon takes the options it stands
  for, in order; the long form of the daemon option takes the argument behind it away.\<close>

theorem command_line_roundtrip:
  assumes "list_all (good_word posix) ws" and "rest = [] \<or> (\<exists>operands. rest = ''--'' # operands)"
  shows "main_options posix (getopt_start (concat (map spell ws) @ rest)) cfg =
    main_wanted (concat (map stands_for ws)) cfg"
  using assms by (auto simp: good_words no_more_options [abs_def])

theorem command_line_roundtrip_witness:
  "main_options False (getopt_start [''--daemon'', ''-M'', ''--p=80'']) default_config =
    Done (default_config\<lparr>cfg_daemon := True, cfg_port := 80\<rparr>)"
proof -
  have "main_options False (getopt_start (concat (map spell
      [Name_value 6 (CHR ''d'') ''-M'' False, Name_value 1 (CHR ''p'') ''80'' True]) @ [])) default_config =
    main_wanted (concat (map stands_for
      [Name_value 6 (CHR ''d'') ''-M'' False, Name_value 1 (CHR ''p'') ''80'' True])) default_config"
    by (rule command_line_roundtrip) simp_all
  then show ?thesis
    by (simp add: long_name_def long_options_def main_option_def with_optarg_def atoi_def stoi_def scan_int_def
        is_space_def is_digit_def nat_of_dec_def digit_val_def)
qed

text \<open>\<open>--daemon\<close> before the mode takes the mode for its value: the daemon does not start.\<close>

theorem daemon_option_swallows_mode:
  "\<exists>c. main_start u u' io dio posix [''--daemon'', mode] ctl_bind p = Exits c"
proof -
  have "main_options posix (getopt_start (concat (map spell [Name_value 6 (CHR ''d'') mode False]) @ [])) default_config =
      Done (default_config\<lparr>cfg_daemon := True\<rparr>)"
    by (subst good_words) (simp_all add: main_option_def no_more_options)
  then have "main_options posix (getopt_start [''--daemon'', mode]) default_config =
      Done (default_config\<lparr>cfg_daemon := True\<rparr>)"
    by (simp add: long_name_def long_options_def)
  then show ?thesis
    by (simp add: main_start_def default_config_def daemonize_def Let_def split: prod.splits)
qed

text \<open>A daemon keeps the descriptor 0 it was started with: the loop that closes the descriptors stops
  above it, and the streams for input, output and errors get the descriptors 1, 2 and 3.\<close>

theorem daemon_streams_shifted:
  assumes "daemonize io name path outfile errfile infile p = Done (r, p')" and "dio_fopen_ok io = (True, True, True)"
    and "0 \<in> fst ` set (open_files p)" and "\<forall>d\<in>fst ` set (open_files p). int d \<le> dio_open_max io"
  shows "map_of (open_files p') 0 = map_of (open_files p) 0 \<and>
    proc_stdin p' = Some 1 \<and> proc_stdout p' = Some 2 \<and> proc_stderr p' = Some 3"
proof -
  define fs where "fs = close_files (nat (dio_open_max io)) (open_files p)"
  have fs: "fs = filter (\<lambda>(d, _). d = 0) (open_files p)"
    using assms(4) by (force simp: fs_def close_files_filter intro!: filter_cong)
  then have keys: "set (map fst fs) = {0}" "fs \<noteq> []" using assms(3) by (auto simp: filter_empty_conv)
  have one: "lowest_free fs = 1" using keys by (intro lowest_free_is) (auto simp: Suc_le_eq)
  have two: "lowest_free ((1, a) # fs) = 2" for a
    using keys by (intro lowest_free_is) (auto simp: less_2_cases_iff Suc_le_eq)
  have three: "lowest_free ((2, b) # (1, a) # fs) = 3" for a b
    using keys by (intro lowest_free_is) (auto simp: Suc_le_eq)
  from assms(1,2) one two three show ?thesis
    by (auto simp: daemonize_def Let_def fopen_def fs_def [symmetric] fs map_of_filter_key split: if_splits)
qed

theorem daemon_streams_shifted_witness:
  "\<exists>p'. daemonize sample_daemon_io ''ssyncd'' ''/'' [] [] [] sample_process = Done (0, p') \<and>
    map_of (open_files p') 0 = Some ''tty'' \<and> proc_stdin p' = Some 1"
proof -
  obtain p' where p': "daemonize sample_daemon_io ''ssyncd'' ''/'' [] [] [] sample_process = Done (0, p')"
    by (simp add: daemonize_def sample_daemon_io_def Let_def fopen_def)
  have "map_of (open_files p') 0 = map_of (open_files sample_process) 0 \<and> proc_stdin p' = Some 1 \<and>
      proc_stdout p' = Some 2 \<and> proc_stderr p' = Some 3"
    by (rule daemon_streams_shifted [OF p']) (simp_all add: sample_daemon_io_def sample_process_def)
  with p' show ?thesis by (auto simp: sample_process_def)
qed

text \<open>A master or a backup whose waiting ends is ended by the thread of its controller, which is never joined.\<close>

theorem main_never_returns_success:
  assumes "main_start u u' io dio posix args ctl_bind p = Done (cfg, p', s)" and "cfg_mode cfg \<noteq> Cmd_test"
  shows "main_program tests u u' io dio posix args ctl_bind p rs = (if False \<in> set rs then Terminates else Diverges)"
proof -
  have "main_wait rs = (if False \<in> set rs then Done () else Diverges)" by (induction rs) auto
  with main_start_Done [OF assms] assms show ?thesis
    by (simp add: main_program_def controller_destroy_def)
qed

theorem main_never_returns_success_witness:
  "main_program (\<lambda>_ _ _. Done ()) MASTER_MODE True sample_ctl_io sample_daemon_io False sample_args True
    sample_process [True, False] = Terminates"
proof -
  obtain p' s where s: "main_start MASTER_MODE True sample_ctl_io sample_daemon_io False sample_args True sample_process =
      Done (default_config\<lparr>cfg_mode := Cmd_backup, cfg_daemon := True, cfg_address := ''10.0.0.1''\<rparr>, p', s)"
    using sample_start by blast
  show ?thesis by (subst main_never_returns_success [OF s]) simp_all
qed

end
