(* ===== verification/Spec2Isabelle.thy ===== *)
theory Spec2Isabelle
  imports Takeover Ctl_Interface Main_Program
begin

text \<open>
  A model of \<open>ssyncd\<close> (\<open>src/\<close>), which keeps the HTTP sessions and the kernel's recent-match tables of a backup
  node equal to those of a master node.

  \<^bold>\<open>The program.\<close> A daemon (\<open>main.cpp\<close>) runs a controller (\<open>sync/sync_controller.cpp\<close>) that owns one worker, a
  master (\<open>sync/sync_master.cpp\<close>) or a backup (\<open>sync/sync_backup.cpp\<close>), both on top of \<open>sync/base_sync.cpp\<close>. A
  worker has two listeners: \<open>xt_recent/xt_recent_sync.cpp\<close> polls the tables that the patched kernel module
  \<open>kmodule/xt_recent-*.c\<close> shows under \<open>/proc/net/xt_recent/\<close>, and \<open>http/http_sync.cpp\<close> talks to the farms over
  UNIX sockets. Both queue actions (\<open>helpers/safe_queue.h\<close>); the master applies them to its stores and sends
  them over TCP (\<open>connection/connection.cpp\<close>), in the formats of the parsers, to the backup, which applies them
  to its own. When a node takes over, its tables are written into its kernel. \<open>ssyncdctl\<close> (\<open>ctl_interface/\<close>)
  sends commands to the daemon's control socket.

  \<^bold>\<open>Theories and sources.\<close>
  \<^item> \<open>Prelude\<close>: bytes, machine words, decimal numbers, readers of a buffer, and the type \<open>'a run\<close> of results:
    a value, a \<open>Fault\<close> (undefined behaviour, a kernel crash), a loop that never ends, an exit, a C++ exception,
    \<open>std::terminate\<close>.
  \<^item> \<open>Ordered_Map\<close> (\<open>std::map\<close>, locale \<open>std_map\<close>), \<open>Safe_Queue\<close> (\<open>helpers/safe_queue.h\<close>, locale \<open>fifo\<close>, and the
    step relation \<open>queue_step\<close> of any number of producers and consumers), \<open>Utils\<close> (\<open>helpers/utils.h\<close>).
  \<^item> \<open>Conn_Packet\<close>: the packet classes as records that extend each other. \<open>Packet_Parser\<close> (locale
    \<open>packet_codec\<close>), \<open>Recent_Parser\<close>, \<open>Http_Parser\<close>, \<open>Command_Parser\<close>, \<open>Pkt_Parser\<close>: the wire formats, each an
    interpretation of the locale.
  \<^item> \<open>Connection\<close> (\<open>connection/\<close>): the event data of every descriptor, the parse loop \<open>drain\<close> over its buffer and
    the sending. \<open>Http_Sync\<close> (\<open>http/\<close>): the same towards the farms.
  \<^item> \<open>Session_Store\<close>, \<open>Base_Sync\<close>, \<open>Sync_Master\<close>, \<open>Sync_Backup\<close> (\<open>sync/\<close>): the two stores, with nested partial
    functions (\<open>http_abs\<close>) as the specification of the sessions, and the workers; a
    derived class is a record extension. \<open>Xt_Recent_Proc\<close>, \<open>Xt_Recent_Sync\<close> (\<open>xt_recent/\<close>): reading and
    comparing the kernel's tables. \<open>Replication\<close>: master, link and backup composed.
  \<^item> \<open>Sync_Controller\<close>, \<open>Main_Program\<close> (with \<open>Getopt\<close>, the C library's \<open>getopt_long\<close> from its manual),
    \<open>Ctl_Interface\<close>: control socket, command line and start of the daemon, control program.
  \<^item> \<open>Xt_Recent_Table\<close>, \<open>Xt_Recent_Match\<close>, \<open>Xt_Recent_File\<close>: the kernel module for Linux 4.9, its tables and
    entries, the match with the checks of the rules, and the file of a table with the restore command \<open>*\<close>.
    \<open>Xt_Recent_316\<close> and \<open>Xt_Recent_32\<close>: what the modules for Linux 3.16 and 3.2 do differently. The three
    structures of a table are record extensions of each other; the functions that have the same text in
    all versions are defined once, for any of them.
  \<^item> \<open>Recent_Cache\<close>: the specification of a table, a list of addresses with their last stamps, least recently
    used first, and the refinement, proved in the locale \<open>stamper\<close> from the contract of the function that stamps
    an entry and interpreted for 4.9.13. \<open>Recent_Restore\<close>: what the daemon's writes do to it (locale
    \<open>line_writer\<close>). \<open>Recent_Net\<close>: all events of the module 4.9.13 as a step relation. \<open>Recent_Versions\<close>: the
    versions in lockstep (locales \<open>embedding\<close>, \<open>lockstep\<close>). \<open>Recent_Old_Cache\<close>: the older modules as
    interpretations of \<open>stamper\<close> and \<open>line_writer\<close>, for every ring size.
  \<^item> \<open>Counter_File\<close>: the interface between the daemon and a kernel, the file of a table, as the locale
    \<open>counter_file\<close>, with what the daemon reads and writes proved in it. \<open>Kernel_Files\<close>: its interpretations for the
    three versions and for \<open>kernel_table\<close>, a table of any of them. \<open>Failover\<close>: the daemon's writes, the kernel and
    the daemon's reads composed. \<open>Takeover\<close>: from the kernel of the master to the kernel of the backup.

  \<^bold>\<open>State.\<close> An entry of the kernel lives at an address of \<open>k_heap\<close>; the intrusive lists are lists of addresses,
  and following an address without memory is a \<open>Fault\<close>. A socket is its descriptor number. What the workers
  send and write is a log in the state, from which the bytes a peer receives are computed (\<open>bytes_to\<close>).
  Members that a constructor leaves indeterminate are arguments \<open>u\<close>, \<open>ur\<close>, \<open>uh\<close> of the definitions.

  \<^bold>\<open>What is shown.\<close>
  \<^item> Replication: a pass of the master over recent or HTTP actions and a snapshot, received by the backup in any
    segmentation, bring its stores to the master's (this theory). Below it: round trips of the codecs with
    their prefix freedom, segmentation of the stream, the effect of any sequence of actions on the stores,
    what the poller's actions leave in a store after any number of polls, order and wake-ups of the queue.
  \<^item> Kernel module: in every version the match refines the cache; the lookup is a linear search, every reachable
    state of 4.9.13 is consistent, no packet faults outside the two stated cases, tables live as long as their
    rules, the walk of a file ends; the versions agree on every sequence of events, the end of a namespace
    included, but for the \<open>BUG_ON\<close> of 3.2.93.
  \<^item> Failover: what the daemon writes for a table is what the kernel then shows it, in every version; and from
    kernel to kernel, a poll, the master's passes, the link, the backup's loop and its writes on a takeover
    carry every address with its TTL and stamps.
  \<^item> Control: a command arrives as it was sent; the command line stands for the options it was made of; a daemon
    starts fresh, with the worker of its mode, and never leaves its mode alive.
  \<^item> Defects: theorems of the kind \<open>error\<close>, \<open>bounds\<close> and \<open>liveness\<close> give the inputs on which the code loses
    bytes, refuses, hangs or crashes, each with a witness.

  \<^bold>\<open>Bounds and fuel.\<close> A pass of a worker handles at most 10 actions, as the code does. The endless loops of
  the threads are run over a finite list of rounds (what arrives, what the system answers), so that a statement
  for all lists covers every prefix of a run. Loops of the code that may really not end (\<open>drain\<close>, \<open>http_pass\<close>) are
  partial functions into \<open>option\<close>, whose \<open>None\<close> is the endless loop (\<open>Diverges\<close> in a caller). \<open>seq_walk\<close> takes as many steps as the table has entries; the theorem
  \<open>file_walk_ends\<close> of \<open>Failover\<close> shows that this is enough. A line for the kernel has at most 421 bytes
  (\<open>MAX_WRITE\<close>). A packet that outgrows the array it is serialised into (\<open>MAX_PACKET_SIZE\<close>,
  \<open>HTTP_MAX_PACKET_SIZE\<close>) is a \<open>Fault\<close>; one of the link's domain takes at most 65536 bytes. A table with the mask 255 (rules that count more than 128 hits) keeps its hash table in order
  but not its rings, whose index wraps; theorems about stamps exclude it.

  \<^bold>\<open>Parameters.\<close> RE2 (\<open>pm\<close>, with \<open>re2_reads_rows\<close> for its documented captures), the kernel's parsers and format
  of IPv6 addresses (\<open>kernel_lib\<close>, with \<open>lib_reads\<close>), \<open>jhash\<close> with its seed, the address that \<open>kmalloc\<close> returns
  (unused memory, or none; in a full table unused already before the oldest entry is freed, which leaves out
  only that \<open>kmalloc\<close> gives the freed address again, a renaming) with its contents, \<open>jiffies\<close>, the stack behind the kernel's buffer, and the
  answers of all system calls (\<open>world\<close> and the event types).

  \<^bold>\<open>Not modelled.\<close> Logging (\<open>debug/errors.h\<close>) and the help texts only write; the unused abstract class
  \<open>xt_recent/xt_recent_report.h\<close> and the members that no code reads have no behaviour; the tests, the connection
  tests of the daemon's test mode (an argument of \<open>main_program\<close>), and code for C++17 or for tests only (\<open>on_master_close\<close>, \<open>fake_update\<close>) are not built into it. The
  handler of \<open>SIGSEGV\<close> logs a backtrace and ends the process. In the kernel module, locks are left out, since every operation runs
  with \<open>recent_lock\<close> held, and so is the registration with the kernel. Data races of the daemon's threads outside
  \<open>safe_queue\<close> are not modelled: a worker's pass and a listener's step are atomic here. The events
  of a whole namespace are a step relation for 4.9.13 only; the older modules share its invariant where the ring
  size is a power of two (through the lockstep), and for other sizes each match, flush and restore keeps it.
\<close>

section \<open>Replication\<close>

text \<open>C6: a pass of the master over its recent actions brings a backup that was in step back into step:
  the pass always ends, and however TCP cuts the bytes it sends to the backup, the backup's loop, one pass
  per packet, ends with tables that show the master's new ones as the wire carries them.\<close>

theorem recent_updates_replicate:
  assumes "serving w d m"
    and "\<forall>a \<in> set (recent_input (recent_listener m)). link_good (Recent_pkt a) \<and> pkt_fd a = - 1"
    and "idle_link (conn b) s c" and "mirrors (recent_data m) (recent_data b)"
  shows "\<exists>m'. recent_pass w 10 m = Done m' \<and>
    (\<forall>rounds. segmentation c (bytes_to d (new_log m m')) rounds \<longrightarrow>
      (\<exists>b'. receive_and_apply w' ur uh s rounds (length (take 10 (recent_input (recent_listener m)))) b = Done b' \<and>
        mirrors (recent_data m') (recent_data b')))"
  using assms by (rule recent_pass_replicates)

text \<open>A first action reaches a backup with empty tables.\<close>

theorem recent_updates_replicate_witness:
  "\<exists>m' b'. recent_pass sample_world 10 (sample_master\<lparr>recent_listener := (new_xt_recent_sync True)\<lparr>recent_input := [sample_action]\<rparr>\<rparr>)
      = Done m' \<and>
    receive_and_apply sample_world sample_action sample_http 5 [[link_wire (Recent_pkt sample_action)]] 1 sample_receiver
      = Done b' \<and>
    mirrors (recent_data m') (recent_data b')"
proof -
  let ?m = "sample_master\<lparr>recent_listener := (new_xt_recent_sync True)\<lparr>recent_input := [sample_action]\<rparr>\<rparr>"
  let ?c = "\<lparr>ev_fd = 5, ev_buffer = replicate MAX_PACKET_SIZE 0, ev_size = 0\<rparr>"
  have s: "serving sample_world 9 ?m"
    using sample_serving [where x = "recent_listener ?m" and y = "http_listener ?m" and z = "recent_data ?m"] by simp
  have good: "\<forall>a \<in> set (recent_input (recent_listener ?m)). link_good (Recent_pkt a) \<and> pkt_fd a = - 1"
    by (simp add: new_xt_recent_sync_def)
  have "mirrors (recent_data ?m) (recent_data sample_receiver)"
    by (simp add: mirrors_def recent_view_def sample_master_def sample_receiver_def new_sync_master_def
        base_sync.extend_def new_base_sync_def)
  from recent_updates_replicate [OF s good sample_receiver_idle this, of sample_world sample_action sample_http]
  obtain m' where m': "recent_pass sample_world 10 ?m = Done m'"
    "\<And>rounds. segmentation ?c (bytes_to 9 (new_log ?m m')) rounds \<Longrightarrow>
      \<exists>b'. receive_and_apply sample_world sample_action sample_http 5 rounds
          (length (take 10 (recent_input (recent_listener ?m)))) sample_receiver = Done b' \<and>
        mirrors (recent_data m') (recent_data b')" by blast
  have "bytes_to 9 (new_log ?m m') = link_wire (Recent_pkt sample_action)"
    using recent_pass_bytes [OF s m'(1) good] by (simp add: new_xt_recent_sync_def)
  with m'(2) [of "[[link_wire (Recent_pkt sample_action)]]"] one_round link_wire_one(1) [OF link_sample(2)]
  have "\<exists>b'. receive_and_apply sample_world sample_action sample_http 5 [[link_wire (Recent_pkt sample_action)]] 1
      sample_receiver = Done b' \<and> mirrors (recent_data m') (recent_data b')"
    by (simp add: new_xt_recent_sync_def)
  with m'(1) show ?thesis by blast
qed

text \<open>C7: a pass over the HTTP actions of the farms, none of them a farm coming or going, keeps the
  backup's session store equal to the master's: the pass ends, and however TCP cuts the bytes, the backup
  ends with the master's new sessions, as long as the numbers of listeners, services and backends fit the
  byte that is sent.\<close>

theorem http_updates_replicate:
  assumes "serving w d m"
    and "\<forall>a \<in> set (http_input (http_listener m)). \<not> farm_news a \<and> link_good (Http_pkt a) \<and> http_exact a"
    and "idle_link (conn b) s c" and "http_session_data b = http_session_data m"
  shows "\<exists>m'. http_pass w 0 m = Some (Done m') \<and>
    (\<forall>rounds. segmentation c (bytes_to d (new_log m m')) rounds \<longrightarrow>
      (\<exists>b'. receive_and_apply w' ur uh s rounds (length (take 10 (http_input (http_listener m)))) b = Done b' \<and>
        http_session_data b' = http_session_data m'))"
  using assms by (rule http_pass_replicates)

theorem http_updates_replicate_witness:
  "\<exists>m' b'. http_pass sample_world 0 (sample_master\<lparr>http_listener := (new_http_sync True True)\<lparr>http_input := [sample_http]\<rparr>\<rparr>)
      = Some (Done m') \<and>
    receive_and_apply sample_world sample_action sample_http 5 [[link_wire (Http_pkt sample_http)]] 1 sample_receiver
      = Done b' \<and>
    http_session_data b' = http_session_data m'"
proof -
  let ?m = "sample_master\<lparr>http_listener := (new_http_sync True True)\<lparr>http_input := [sample_http]\<rparr>\<rparr>"
  let ?c = "\<lparr>ev_fd = 5, ev_buffer = replicate MAX_PACKET_SIZE 0, ev_size = 0\<rparr>"
  have s: "serving sample_world 9 ?m"
    using sample_serving [where x = "recent_listener ?m" and y = "http_listener ?m" and z = "recent_data ?m"] by simp
  have good: "\<forall>a \<in> set (http_input (http_listener ?m)). \<not> farm_news a \<and> link_good (Http_pkt a) \<and> http_exact a"
    by (simp add: new_http_sync_def farm_news_def http_exact_def sample_session_def)
  have "http_session_data sample_receiver = http_session_data ?m"
    by (simp add: sample_master_def sample_receiver_def new_sync_master_def base_sync.extend_def new_base_sync_def)
  from http_updates_replicate [OF s good sample_receiver_idle this, of sample_world sample_action sample_http]
  obtain m' where m': "http_pass sample_world 0 ?m = Some (Done m')"
    "\<And>rounds. segmentation ?c (bytes_to 9 (new_log ?m m')) rounds \<Longrightarrow>
      \<exists>b'. receive_and_apply sample_world sample_action sample_http 5 rounds
          (length (take 10 (http_input (http_listener ?m)))) sample_receiver = Done b' \<and>
        http_session_data b' = http_session_data m'" by blast
  have "bytes_to 9 (new_log ?m m') = link_wire (Http_pkt sample_http)"
    using http_pass_bytes [OF s m'(1)] good by (simp add: new_http_sync_def)
  with m'(2) [of "[[link_wire (Http_pkt sample_http)]]"] one_round link_wire_one(2) [OF link_sample(1)]
  have "\<exists>b'. receive_and_apply sample_world sample_action sample_http 5 [[link_wire (Http_pkt sample_http)]] 1
      sample_receiver = Done b' \<and> http_session_data b' = http_session_data m'"
    by (simp add: new_http_sync_def)
  with m'(1) show ?thesis by blast
qed

text \<open>C8: a backup that connects with empty tables and asks for a snapshot gets the master's tables: the
  answer to its request is sent completely, and however TCP cuts it, the backup's loop ends with tables
  that show the master's as the wire carries them.\<close>

theorem snapshot_rebuilds_tables:
  assumes "serving w d m" and "recent_ok (recent_data m)" and "d \<noteq> - 1"
    and "\<forall>(n, e) \<in> set (store_entries (recent_data m)). link_good (Recent_pkt (get_entry_as_action n e False))"
    and "idle_link (conn b) s c" and "recent_data b = []"
  shows "\<exists>m'. handle_recent_sync w d m = Done (True, m') \<and> recent_data m' = recent_data m \<and>
    (\<forall>rounds. segmentation c (bytes_to d (new_log m m')) rounds \<longrightarrow>
      (\<exists>b'. receive_and_apply w' ur uh s rounds (length (store_entries (recent_data m))) b = Done b' \<and>
        mirrors (recent_data m') (recent_data b')))"
  using assms by (rule snapshot_replicates)

theorem snapshot_rebuilds_tables_witness:
  "\<exists>m' b'. handle_recent_sync sample_world 9
      (sample_master\<lparr>recent_data := [(''ssh'', new_xt_recent_table\<lparr>entries := [(src_ip sample_entry, sample_entry)]\<rparr>)]\<rparr>)
      = Done (True, m') \<and>
    receive_and_apply sample_world sample_action sample_http 5
      [[link_wire (Recent_pkt (get_entry_as_action ''ssh'' sample_entry False))]] 1 sample_receiver = Done b' \<and>
    mirrors (recent_data m') (recent_data b')"
proof -
  let ?m = "sample_master\<lparr>recent_data := [(''ssh'', new_xt_recent_table\<lparr>entries := [(src_ip sample_entry, sample_entry)]\<rparr>)]\<rparr>"
  let ?c = "\<lparr>ev_fd = 5, ev_buffer = replicate MAX_PACKET_SIZE 0, ev_size = 0\<rparr>"
  let ?a = "get_entry_as_action ''ssh'' sample_entry False"
  have s: "serving sample_world 9 ?m"
    using sample_serving [where x = "recent_listener ?m" and y = "http_listener ?m" and z = "recent_data ?m"] by simp
  have es: "store_entries (recent_data ?m) = [(''ssh'', sample_entry)]" by (simp add: store_entries_def)
  have ga: "link_good (Recent_pkt ?a)"
    by (simp add: link_good_def get_packet_parser_def recent_good_def get_entry_as_action_def
        new_xt_recent_action_def conn_packet.extend_def new_typed_packet_def sample_entry_def
        is_ipv4_string action_type_of_byte_def)
  then have good: "\<forall>(n, e) \<in> set (store_entries (recent_data ?m)). link_good (Recent_pkt (get_entry_as_action n e False))"
    unfolding es by simp
  have ok: "recent_ok (recent_data ?m)" by (simp add: recent_ok_def entries_ok_def)
  have e: "recent_data sample_receiver = []" by (simp add: sample_receiver_def new_base_sync_def)
  from snapshot_rebuilds_tables [OF s ok _ good sample_receiver_idle e, of sample_world sample_action sample_http]
  obtain m' where m': "handle_recent_sync sample_world 9 ?m = Done (True, m')"
    "\<And>rounds. segmentation ?c (bytes_to 9 (new_log ?m m')) rounds \<Longrightarrow>
      \<exists>b'. receive_and_apply sample_world sample_action sample_http 5 rounds
          (length (store_entries (recent_data ?m))) sample_receiver = Done b' \<and>
        mirrors (recent_data m') (recent_data b')" by auto
  have "bytes_to 9 (new_log ?m m') = link_wire (Recent_pkt ?a)"
    using snapshot_bytes [OF s _ m'(1) good] unfolding es by simp
  with m'(2) [of "[[link_wire (Recent_pkt ?a)]]"] one_round link_wire_one(1) [OF ga]
  have "\<exists>b'. receive_and_apply sample_world sample_action sample_http 5 [[link_wire (Recent_pkt ?a)]] 1
      sample_receiver = Done b' \<and> mirrors (recent_data m') (recent_data b')"
    unfolding es by simp
  with m'(1) show ?thesis by blast
qed

section \<open>Control\<close>

text \<open>C31: a command that the control program sends is the command the daemon handles: when the socket
  takes all bytes and one \<open>recv\<close> of the daemon returns them, the daemon runs exactly the command with its
  argument, the port cut to 24 bits, and answers with that command's responses.\<close>

theorem control_command_reaches_daemon:
  assumes "command_good (Command_pkt c)" and "send_ok (length (command_wire (Command_pkt c))) rs"
    and "list_all (\<lambda>r. \<exists>n. r = Sent n) rs" and "length (command_wire (Command_pkt c)) \<le> length rs"
  shows "\<exists>bytes c'. send_command c rs = Done (bytes, False) \<and> length bytes \<le> MAX_COMMAND_SIZE \<and>
    ctl_accept u io (Received bytes) (buf, s) =
      run_bind (ctl_command io c' s) (\<lambda>(out, s'). Done (out, store_at buf 0 bytes, s')) \<and>
    command c' = command c \<and> (has_data (command c) \<longrightarrow> command_data c' = command_data c) \<and>
    (has_port (command c) \<longrightarrow> server_port c' = take_bit 24 (server_port c)) \<and>
    (command c = SW_TO_CLIENT \<longrightarrow> server_address c' = server_address c)"
proof -
  let ?b = "command_wire (Command_pkt c)"
  have send: "send_command c rs = Done (?b, False)" using assms by (rule send_command_wire)
  have "command_deserialize u (store_at buf 0 ?b) (length ?b) = Parsed (command_decoded u (Command_pkt c)) (length ?b)"
    using assms(1) by (rule command.deserialize_whole) (simp_all add: store_at_def)
  moreover have "length ?b \<le> MAX_COMMAND_SIZE"
    using command_wire_fits [OF assms(1)] by (simp add: MAX_COMMAND_SIZE_def)
  ultimately show ?thesis
    using send by (auto simp: ctl_accept_def Let_def command_decoded_def)
qed

theorem control_command_reaches_daemon_witness:
  "\<exists>bytes c'. send_command sample_command
      (replicate (length (command_wire (Command_pkt sample_command))) (Sent 1)) = Done (bytes, False) \<and>
    ctl_accept sample_command sample_ctl_io (Received bytes) ([], sample_controller) =
      run_bind (ctl_command sample_ctl_io c' sample_controller) (\<lambda>(out, s'). Done (out, store_at [] 0 bytes, s')) \<and>
    command c' = SW_TO_CLIENT \<and> server_address c' = ipv4_string [10, 0, 0, 1]"
proof -
  have ok: "m \<le> k \<Longrightarrow> send_ok k (replicate m (Sent 1))" for k m
    by (induction m arbitrary: k) auto
  from control_command_reaches_daemon [OF sample_command_good ok [OF order_refl], of sample_command sample_ctl_io "[]" sample_controller]
  show ?thesis by (auto simp: list_all_iff)
qed

end
